(* ===== verification/Prelude.thy ===== *)
theory Prelude
  imports Main "HOL-Library.Word" "HOL-Library.Monad_Syntax" "HOL-Library.List_Lexorder"
begin

text \<open>
  Shared vocabulary of the development: bytes and machine integers, the status codes of
  class \<open>State\<close> (src/src/util/common.h), little-endian memory images, and the list,
  option and word lemmas that the component theories use.

  Conventions.  A \<open>std::string\<close>, a \<open>std::string_view\<close> and the memory a
  \<open>const char*\<close> points to are byte lists; \<open>uint32_t\<close> and \<open>uint64_t\<close>
  are words; a \<open>size_t\<close> that counts bytes in memory is a \<open>nat\<close>.  An operation
  that would read or write outside its buffer, dereference a null pointer or run off the end of
  a non-void function has the value \<open>None\<close>; so does a parser that reports failure by a
  null pointer or \<open>false\<close>, which the text of the operation says.
\<close>

unbundle bit_operations_syntax

section \<open>Types\<close>

type_synonym byte = "8 word"
type_synonym bytes = "byte list"
type_synonym u32 = "32 word"
type_synonym u64 = "64 word"

text \<open>The codes of class \<open>State\<close> and its two most used predicates.\<close>

datatype State = kok | knotfound | kcorruption | knotsupported | kinvalidargument | kioerror

definition State_ok :: "State \<Rightarrow> bool" where
  "State_ok s \<longleftrightarrow> s = kok"

definition State_IsNotFound :: "State \<Rightarrow> bool" where
  "State_IsNotFound s \<longleftrightarrow> s = knotfound"

lemma State_ok_simps [simp]:
  "State_ok kok" "\<not> State_ok knotfound" "\<not> State_ok kcorruption"
  "\<not> State_ok knotsupported" "\<not> State_ok kinvalidargument" "\<not> State_ok kioerror"
  by (simp_all add: State_ok_def)

section \<open>Collections of facts\<close>

named_theorems codec \<open>what a decoder returns on what the matching encoder wrote\<close>
named_theorems len_simps \<open>lengths of encodings\<close>
named_theorems wf_intros \<open>well-formedness of values the operations build\<close>

section \<open>Bit lemmas\<close>

lemma word_of_bit_split:
  fixes v :: "'a::len word"
  shows "push_bit s (v AND 127) OR push_bit (s + 7) (drop_bit 7 v) = push_bit s v"
proof -
  have m: "(127::'a word) = mask 7"
    by (simp add: mask_eq_exp_minus_1)
  show ?thesis
    unfolding m
  proof (rule bit_word_eqI)
    fix n assume "n < LENGTH('a)"
    then show "bit (push_bit s (v AND mask 7) OR push_bit (s + 7) (drop_bit 7 v)) n
        = bit (push_bit s v) n"
      by (cases "n < s + 7") (auto simp: bit_simps)
  qed
qed

text \<open>Concatenating 8-bit pieces of a word gives the word back.\<close>

lemma word_byte_pieces_32:
  fixes v :: u32
  shows "ucast (ucast v :: byte)
      OR push_bit 8 (ucast (ucast (drop_bit 8 v) :: byte))
      OR push_bit 16 (ucast (ucast (drop_bit 16 v) :: byte))
      OR push_bit 24 (ucast (ucast (drop_bit 24 v) :: byte)) = v"
proof (rule bit_word_eqI)
  fix n assume n: "n < LENGTH(32)"
  show "bit (ucast (ucast v :: byte)
      OR push_bit 8 (ucast (ucast (drop_bit 8 v) :: byte))
      OR push_bit 16 (ucast (ucast (drop_bit 16 v) :: byte))
      OR push_bit 24 (ucast (ucast (drop_bit 24 v) :: byte)) :: u32) n = bit v n"
    using n by (cases "n < 8"; cases "n < 16"; cases "n < 24") (auto simp: bit_simps)
qed

lemma word_byte_pieces_64:
  fixes v :: u64
  shows "ucast (ucast v :: u32) OR push_bit 32 (ucast (ucast (drop_bit 32 v) :: u32)) = v"
  by (rule bit_word_eqI) (auto simp: bit_simps not_less)

text \<open>The bound \<open>2 ^ k\<close> as a shift.\<close>

lemma unat_less_exp_drop:
  fixes w :: "'a::len word"
  shows "unat w < 2 ^ k \<longleftrightarrow> drop_bit k w = 0"
proof -
  have "drop_bit k w = 0 \<longleftrightarrow> unat (drop_bit k w) = 0"
    by (simp only: unat_eq_0)
  also have "\<dots> \<longleftrightarrow> unat w div 2 ^ k = 0"
    unfolding unat_drop_bit_eq by (simp add: drop_bit_eq_div)
  also have "\<dots> \<longleftrightarrow> unat w < 2 ^ k"
    by (simp add: div_eq_0_iff)
  finally show ?thesis
    by simp
qed

lemma unat_of_nat_u32: "n < 2 ^ 32 \<Longrightarrow> unat (of_nat n :: u32) = n"
  by (simp add: unat_of_nat)

text \<open>Widening keeps the value.\<close>

lemma unat_ucast_64 [simp]:
  fixes x :: u32
  shows "unat (ucast x :: u64) = unat x"
proof -
  have "unat x < 2 ^ 64"
    using unsigned_less [of x, where 'a = nat] by simp
  then show ?thesis
    by (simp add: unsigned_ucast_eq take_bit_nat_eq_self)
qed

lemma ucast_64_eq_0: "(ucast (x :: u32) :: u64) = 0 \<longleftrightarrow> x = 0"
  by (metis unat_ucast_64 unat_eq_0 unsigned_0)

section \<open>Lists\<close>

lemma take_drop_append [simp]:
  "take (length xs) (xs @ ys) = xs" "drop (length xs) (xs @ ys) = ys"
  by simp_all

lemma length_ge_8_split:
  assumes "8 \<le> length k"
  shows "take (length k - 8) k @ drop (length k - 8) k = k" "length (drop (length k - 8) k) = 8"
  using assms by simp_all

text \<open>In a list sorted by \<open>f\<close>, the first element at or after \<open>a\<close> is the least such.\<close>

lemma find_sorted_Some:
  fixes f :: "'a \<Rightarrow> 'b::linorder"
  assumes "sorted (map f xs)" "List.find (\<lambda>x. a \<le> f x) xs = Some x"
  shows "x \<in> set xs" "a \<le> f x" "y \<in> set xs \<Longrightarrow> a \<le> f y \<Longrightarrow> f x \<le> f y"
  using assms by (induction xs) (auto split: if_splits)

lemma find_sorted_None:
  "List.find (\<lambda>x. a \<le> f x) xs = None \<longleftrightarrow> (\<forall>x \<in> set xs. \<not> a \<le> f x)"
  by (induction xs) auto

end
