(* ===== verification/Coding.thy ===== *)
theory Coding
  imports Prelude
begin

text \<open>
  The integer and string codecs of src/src/util/common.h and src/src/util/common.cpp: fixed
  32/64-bit little-endian images, base-128 varints, and length-prefixed strings.

  A C++ encoder that writes through a \<open>char*\<close> is the list of bytes it writes; a
  \<open>PutX(dst, v)\<close> appends them to \<open>dst\<close>.  A decoder over \<open>(p, limit)\<close> takes the bytes
  from \<open>p\<close> up to \<open>limit\<close> and returns the value with the bytes from the returned pointer on;
  \<open>None\<close> is the null pointer (for the \<open>std::string_view*\<close> versions: \<open>false\<close>).
\<close>

section \<open>Fixed-width integers\<close>

text \<open>\<open>memcpy\<close> of an integer on a little-endian machine.\<close>

definition EncodeFixed32 :: "u32 \<Rightarrow> bytes" where
  "EncodeFixed32 value =
     [ucast value, ucast (drop_bit 8 value), ucast (drop_bit 16 value), ucast (drop_bit 24 value)]"

definition EncodeFixed64 :: "u64 \<Rightarrow> bytes" where
  "EncodeFixed64 value =
     EncodeFixed32 (ucast value) @ EncodeFixed32 (ucast (drop_bit 32 value))"

text \<open>The value four, or eight, bytes in memory stand for.\<close>

fun le32 :: "bytes \<Rightarrow> u32" where
  "le32 (b0 # b1 # b2 # b3 # _) =
     ucast b0 OR push_bit 8 (ucast b1) OR push_bit 16 (ucast b2) OR push_bit 24 (ucast b3)"
| "le32 _ = 0"

definition le64 :: "bytes \<Rightarrow> u64" where
  "le64 p = ucast (le32 p) OR push_bit 32 (ucast (le32 (drop 4 p)))"

text \<open>\<open>None\<close>: the read runs past the end of the buffer.\<close>

definition DecodeFixed32 :: "bytes \<Rightarrow> u32 option" where
  "DecodeFixed32 ptr = (if length ptr < 4 then None else Some (le32 ptr))"

definition DecodeFixed64 :: "bytes \<Rightarrow> u64 option" where
  "DecodeFixed64 ptr = (if length ptr < 8 then None else Some (le64 ptr))"

definition PutFixed32 :: "bytes \<Rightarrow> u32 \<Rightarrow> bytes" where
  "PutFixed32 dst value = dst @ EncodeFixed32 value"

definition PutFixed64 :: "bytes \<Rightarrow> u64 \<Rightarrow> bytes" where
  "PutFixed64 dst value = dst @ EncodeFixed64 value"

section \<open>Varints: encoders\<close>

definition EncodeVarint32 :: "u32 \<Rightarrow> bytes" where
  "EncodeVarint32 v =
     (if v < push_bit 7 1 then [ucast v]
      else if v < push_bit 14 1 then [ucast (v OR 128), ucast (drop_bit 7 v)]
      else if v < push_bit 21 1 then
        [ucast (v OR 128), ucast (drop_bit 7 v OR 128), ucast (drop_bit 14 v)]
      else if v < push_bit 28 1 then
        [ucast (v OR 128), ucast (drop_bit 7 v OR 128), ucast (drop_bit 14 v OR 128),
         ucast (drop_bit 21 v)]
      else
        [ucast (v OR 128), ucast (drop_bit 7 v OR 128), ucast (drop_bit 14 v OR 128),
         ucast (drop_bit 21 v OR 128), ucast (drop_bit 28 v)])"

definition PutVarint32 :: "bytes \<Rightarrow> u32 \<Rightarrow> bytes" where
  "PutVarint32 dst v = dst @ EncodeVarint32 v"

lemma drop_bit_7_less:
  fixes v :: u64
  assumes "\<not> v < 128"
  shows "unat (drop_bit 7 v) < unat v"
proof -
  have "unat v \<noteq> 0"
    using assms by (auto simp: word_less_nat_alt unat_eq_0)
  then have "unat v div 128 < unat v"
    by simp
  then show ?thesis
    by (simp add: drop_bit_eq_div unat_div)
qed

function EncodeVarint64 :: "u64 \<Rightarrow> bytes" where
  "EncodeVarint64 v =
     (if 128 \<le> v then ucast (v OR 128) # EncodeVarint64 (drop_bit 7 v) else [ucast v])"
  by pat_completeness auto
termination
  by (relation "measure unat") (auto simp: drop_bit_7_less not_less)

declare EncodeVarint64.simps [simp del]

definition PutVarint64 :: "bytes \<Rightarrow> u64 \<Rightarrow> bytes" where
  "PutVarint64 dst v = dst @ EncodeVarint64 v"

text \<open>\<open>size()\<close> is cut to \<open>uint32_t\<close> in the call of \<open>PutVarint32\<close>.\<close>

definition PutLengthPrefixedview :: "bytes \<Rightarrow> bytes \<Rightarrow> bytes" where
  "PutLengthPrefixedview dst value = PutVarint32 dst (of_nat (length value)) @ value"

function VarintLength_loop :: "u64 \<Rightarrow> nat \<Rightarrow> nat" where
  "VarintLength_loop v len = (if 128 \<le> v then VarintLength_loop (drop_bit 7 v) (len + 1) else len)"
  by pat_completeness auto
termination
  by (relation "measure (unat \<circ> fst)") (auto simp: drop_bit_7_less not_less)

declare VarintLength_loop.simps [simp del]

definition VarintLength :: "u64 \<Rightarrow> nat" where
  "VarintLength v = VarintLength_loop v 1"

section \<open>Varints: decoders\<close>

text \<open>
  The two decoding loops of common.cpp are the same text at two widths, with the last value of
  \<open>shift\<close> (28 or 63) as the bound.
\<close>

function get_varint_loop :: "nat \<Rightarrow> nat \<Rightarrow> 'a::len word \<Rightarrow> bytes \<Rightarrow> ('a word \<times> bytes) option" where
  "get_varint_loop bound shift result p =
     (if shift \<le> bound then
        (case p of
           [] \<Rightarrow> None
         | byte # p' \<Rightarrow>
             if (ucast byte :: 'a word) AND 128 \<noteq> 0
             then get_varint_loop bound (shift + 7)
                    (result OR push_bit shift (ucast byte AND 127)) p'
             else Some (result OR push_bit shift (ucast byte), p'))
      else None)"
  by pat_completeness auto
termination
  by (relation "measure (\<lambda>(bound, shift, result, p). length p)") auto

declare get_varint_loop.simps [simp del]

definition GetVarint32PtrFallback :: "bytes \<Rightarrow> (u32 \<times> bytes) option" where
  "GetVarint32PtrFallback p = get_varint_loop 28 0 0 p"

definition GetVarint32Ptr :: "bytes \<Rightarrow> (u32 \<times> bytes) option" where
  "GetVarint32Ptr p =
     (case p of
        [] \<Rightarrow> GetVarint32PtrFallback p
      | byte # p' \<Rightarrow>
          (let result = (ucast byte :: u32)
           in if result AND 128 = 0 then Some (result, p') else GetVarint32PtrFallback p))"

definition GetVarint32 :: "bytes \<Rightarrow> (u32 \<times> bytes) option" where
  "GetVarint32 input = GetVarint32Ptr input"

definition GetVarint64Ptr :: "bytes \<Rightarrow> (u64 \<times> bytes) option" where
  "GetVarint64Ptr p = get_varint_loop 63 0 0 p"

definition GetVarint64 :: "bytes \<Rightarrow> (u64 \<times> bytes) option" where
  "GetVarint64 input = GetVarint64Ptr input"

text \<open>The overload over \<open>(p, limit)\<close>: the string and the bytes after it.\<close>

definition GetLengthPrefixedviewPtr :: "bytes \<Rightarrow> (bytes \<times> bytes) option" where
  "GetLengthPrefixedviewPtr p =
     (case GetVarint32Ptr p of
        None \<Rightarrow> None
      | Some (len, p') \<Rightarrow>
          if length p' < unat len then None else Some (take (unat len) p', drop (unat len) p'))"

text \<open>The overload over \<open>std::string_view*\<close>.\<close>

definition GetLengthPrefixedview :: "bytes \<Rightarrow> (bytes \<times> bytes) option" where
  "GetLengthPrefixedview input =
     (case GetVarint32 input of
        None \<Rightarrow> None
      | Some (len, input') \<Rightarrow>
          if unat len \<le> length input'
          then Some (take (unat len) input', drop (unat len) input') else None)"

section \<open>Fixed-width integers: round trips\<close>

lemma length_EncodeFixed [len_simps, simp]:
  "length (EncodeFixed32 v) = 4" "length (EncodeFixed64 w) = 8"
  by (simp_all add: EncodeFixed32_def EncodeFixed64_def)

lemma le32_Encode [codec, simp]: "le32 (EncodeFixed32 v @ rest) = v"
  using word_byte_pieces_32 [of v] by (simp add: EncodeFixed32_def)

lemma le64_Encode [codec, simp]: "le64 (EncodeFixed64 v @ rest) = v"
  using word_byte_pieces_64 [of v] by (simp add: EncodeFixed64_def le64_def)

lemma le_Encode_exact [codec, simp]: "le32 (EncodeFixed32 v) = v" "le64 (EncodeFixed64 w) = w"
  using le32_Encode [of v "[]"] le64_Encode [of w "[]"] by simp_all

lemma DecodeFixed_Encode [codec, simp]:
  "DecodeFixed32 (EncodeFixed32 v @ rest) = Some v"
  "DecodeFixed64 (EncodeFixed64 w @ rest) = Some w"
  by (simp_all add: DecodeFixed32_def DecodeFixed64_def)

lemma DecodeFixed_Encode_exact [codec, simp]:
  "DecodeFixed32 (EncodeFixed32 v) = Some v" "DecodeFixed64 (EncodeFixed64 w) = Some w"
  by (simp_all add: DecodeFixed32_def DecodeFixed64_def)

text \<open>The low half of a 64-bit read is the 32-bit read at the same place.\<close>

lemma ucast_le64: "(ucast (le64 p) :: u32) = le32 p"
  unfolding le64_def by (rule bit_word_eqI) (auto simp: bit_simps)

lemma drop_bit_le64: "(ucast (drop_bit 32 (le64 p)) :: u32) = le32 (drop 4 p)"
  unfolding le64_def
  by (rule bit_word_eqI) (auto simp: bit_simps dest: bit_imp_le_length)

lemma EncodeFixed32_le32: "EncodeFixed32 (le32 (a # b # c # d # p)) = [a, b, c, d]"
proof -
  let ?w = "le32 (a # b # c # d # p)"
  have "ucast ?w = a" "ucast (drop_bit 8 ?w) = b" "ucast (drop_bit 16 ?w) = c"
      "ucast (drop_bit 24 ?w) = d"
    by (simp_all, (rule bit_word_eqI, fastforce simp: bit_simps dest: bit_imp_le_length)+)
  then show ?thesis
    by (simp only: EncodeFixed32_def)
qed

lemma EncodeFixed64_le64:
  assumes "length p = 8"
  shows "EncodeFixed64 (le64 p) = p"
proof -
  obtain a b c d e f g h where p: "p = [a, b, c, d, e, f, g, h]"
    using assms by (auto simp: numeral_eq_Suc length_Suc_conv)
  have "EncodeFixed32 (le32 p) = [a, b, c, d]" "EncodeFixed32 (le32 (drop 4 p)) = [e, f, g, h]"
    by (simp_all add: p EncodeFixed32_le32 del: le32.simps)
  then show ?thesis
    by (simp add: EncodeFixed64_def ucast_le64 drop_bit_le64 p del: le32.simps)
qed

section \<open>Varints: round trips\<close>

lemma bit_128_127 [simp]:
  "bit (128::byte) n \<longleftrightarrow> n = 7" "bit (128::u32) n \<longleftrightarrow> n = 7" "bit (128::u64) n \<longleftrightarrow> n = 7"
  "bit (127::byte) n \<longleftrightarrow> n < 7" "bit (127::u32) n \<longleftrightarrow> n < 7" "bit (127::u64) n \<longleftrightarrow> n < 7"
proof -
  have p: "(128::byte) = push_bit 7 1" "(128::u32) = push_bit 7 1" "(128::u64) = push_bit 7 1"
      "(127::byte) = mask 7" "(127::u32) = mask 7" "(127::u64) = mask 7"
    by (simp_all add: mask_eq_exp_minus_1)
  show "bit (128::byte) n \<longleftrightarrow> n = 7" "bit (128::u32) n \<longleftrightarrow> n = 7" "bit (128::u64) n \<longleftrightarrow> n = 7"
    unfolding p by (simp_all add: bit_push_bit_iff bit_1_iff del: push_bit_of_1) auto
  show "bit (127::byte) n \<longleftrightarrow> n < 7" "bit (127::u32) n \<longleftrightarrow> n < 7" "bit (127::u64) n \<longleftrightarrow> n < 7"
    unfolding p by (auto simp: bit_mask_iff)
qed

lemma bit_128_127_int [simp]:
  "bit (128::int) n \<longleftrightarrow> n = 7" "bit (127::int) n \<longleftrightarrow> n < 7"
proof -
  have p: "(128::int) = push_bit 7 1" "(127::int) = mask 7"
    by (simp_all add: mask_eq_exp_minus_1)
  show "bit (128::int) n \<longleftrightarrow> n = 7" "bit (127::int) n \<longleftrightarrow> n < 7"
    unfolding p by (auto simp: bit_push_bit_iff bit_1_iff bit_mask_iff simp del: push_bit_of_1)
qed

lemma not_bit_less:
  fixes v :: "'a::len word"
  assumes "unat v < 2 ^ k" "k \<le> n"
  shows "\<not> bit v n"
proof -
  have "unat v < 2 ^ n"
    using assms power_increasing [of k n "2::nat"] by linarith
  then have "unat (drop_bit n v) = 0"
    by (simp only: unat_drop_bit_eq) (simp add: drop_bit_eq_div)
  then have "drop_bit n v = 0"
    by (simp only: unat_eq_0)
  then show ?thesis
    by (simp add: bit_iff_odd_drop_bit)
qed

lemma cont_byte_64:
  fixes v :: u64
  shows "(ucast (ucast (v OR 128) :: byte) :: u64) AND 128 \<noteq> 0"
    and "(ucast (ucast (v OR 128) :: byte) :: u64) AND 127 = v AND 127"
proof -
  have "bit ((ucast (ucast (v OR 128) :: byte) :: u64) AND 128) 7"
    by (simp add: bit_simps)
  then show "(ucast (ucast (v OR 128) :: byte) :: u64) AND 128 \<noteq> 0"
    by auto
  show "(ucast (ucast (v OR 128) :: byte) :: u64) AND 127 = v AND 127"
    by (rule bit_word_eqI) (auto simp: bit_simps)
qed

lemma last_byte_64:
  fixes v :: u64
  assumes "v < 128"
  shows "(ucast (ucast v :: byte) :: u64) AND 128 = 0" "(ucast (ucast v :: byte) :: u64) = v"
proof -
  have b: "n < 7" if "bit v n" for n
    using not_bit_less [of v 7 n] assms that by (auto simp: word_less_nat_alt intro: ccontr)
  show "(ucast (ucast v :: byte) :: u64) AND 128 = 0"
    by (rule bit_word_eqI) (auto simp: bit_simps dest: b)
  show "(ucast (ucast v :: byte) :: u64) = v"
    by (rule bit_word_eqI) (auto simp: bit_simps dest: b)
qed

lemma cont_byte_ucast:
  fixes w :: u64
  shows "(ucast (ucast (w OR 128) :: byte) :: u32) AND 128 \<noteq> 0"
    and "(ucast (ucast (w OR 128) :: byte) :: u32) AND 127 = ucast w AND 127"
proof -
  have "bit ((ucast (ucast (w OR 128) :: byte) :: u32) AND 128) 7"
    by (simp add: bit_simps)
  then show "(ucast (ucast (w OR 128) :: byte) :: u32) AND 128 \<noteq> 0"
    by auto
  show "(ucast (ucast (w OR 128) :: byte) :: u32) AND 127 = ucast w AND 127"
    by (rule bit_word_eqI) (auto simp: bit_simps)
qed

lemma last_byte_ucast:
  fixes w :: u64
  assumes "w < 128"
  shows "(ucast (ucast w :: byte) :: u32) AND 128 = 0" "(ucast (ucast w :: byte) :: u32) = ucast w"
proof -
  have b: "n < 7" if "bit w n" for n
    using not_bit_less [of w 7 n] assms that by (auto simp: word_less_nat_alt intro: ccontr)
  show "(ucast (ucast w :: byte) :: u32) AND 128 = 0"
    by (rule bit_word_eqI) (auto simp: bit_simps dest: b)
  show "(ucast (ucast w :: byte) :: u32) = ucast w"
    by (rule bit_word_eqI) (auto simp: bit_simps dest: b)
qed

lemma num_7_pow: "(2::nat) ^ 7 = 128"
  by simp

lemma get_varint_loop_64:
  assumes "s \<le> 63" and "unat v < 2 ^ (64 - s)"
  shows "get_varint_loop 63 s r (EncodeVarint64 v @ rest) = Some (r OR push_bit s v, rest)"
  using assms
proof (induction v arbitrary: s r rule: EncodeVarint64.induct)
  case (1 v)
  show ?case
  proof (cases "128 \<le> v")
    case False
    with "1.prems" show ?thesis
      using last_byte_64 [of v]
      by (simp add: EncodeVarint64.simps [of v] get_varint_loop.simps [of 63 s])
  next
    case True
    then have "128 \<le> unat v"
      by (simp add: word_le_nat_alt)
    then have s: "64 - s > 7"
      using "1.prems"(2) power_increasing [of "64 - s" 7 "2::nat"] by (cases "64 - s > 7") auto
    have "unat (drop_bit 7 v) < 2 ^ (64 - (s + 7))"
    proof -
      have "64 - s = (64 - (s + 7)) + 7"
        using s by simp
      then have e: "(2::nat) ^ (64 - s) = 2 ^ (64 - (s + 7)) * 128"
        by (metis power_add num_7_pow)
      show ?thesis
        using "1.prems"(2) by (simp add: drop_bit_eq_div unat_div e less_mult_imp_div_less)
    qed
    moreover have "s + 7 \<le> 63"
      using s by simp
    ultimately have "get_varint_loop 63 (s + 7) (r OR push_bit s (v AND 127))
        (EncodeVarint64 (drop_bit 7 v) @ rest)
      = Some ((r OR push_bit s (v AND 127)) OR push_bit (s + 7) (drop_bit 7 v), rest)"
      using "1.IH" [OF True, of "s + 7"] by blast
    moreover have "s \<le> 63"
      by (rule "1.prems")
    ultimately show ?thesis
      using True
      by (simp only: EncodeVarint64.simps [of v] get_varint_loop.simps [of 63 s] append_Cons
          list.case if_True cont_byte_64 not_False_eq_True word_of_bit_split or.assoc)
  qed
qed

text \<open>The five unrolled cases of \<open>EncodeVarint32\<close> are the loop of \<open>EncodeVarint64\<close>.\<close>

lemma unat_drop_bit_ucast: "unat (drop_bit k (ucast (v::u32) :: u64)) = unat v div 2 ^ k"
proof -
  have "unat (ucast v :: u64) = unat v"
    using unsigned_less [of v, where 'a = nat]
    by (simp add: unsigned_ucast_eq take_bit_nat_eq_self)
  then show ?thesis
    by (simp only: unat_drop_bit_eq) (simp add: drop_bit_eq_div)
qed

lemma ucast_byte_drop_bit:
  "(ucast (drop_bit k (ucast (v::u32) :: u64)) :: byte) = ucast (drop_bit k v)"
  "(ucast (drop_bit k (ucast (v::u32) :: u64) OR 128) :: byte) = ucast (drop_bit k v OR 128)"
  by (rule bit_word_eqI; auto simp: bit_simps dest: bit_imp_le_length)+

lemma EncodeVarint64_unfold_ucast:
  "EncodeVarint64 (drop_bit k (ucast (v::u32))) =
     (if unat v < 2 ^ (k + 7) then [ucast (drop_bit k v)]
      else ucast (drop_bit k v OR 128) # EncodeVarint64 (drop_bit (k + 7) (ucast v)))"
proof -
  have "128 \<le> drop_bit k (ucast v :: u64) \<longleftrightarrow> 128 \<le> unat v div 2 ^ k"
    by (simp add: word_le_nat_alt unat_drop_bit_ucast del: unat_drop_bit_eq)
  also have "\<dots> \<longleftrightarrow> \<not> unat v < 2 ^ (k + 7)"
    by (simp add: less_eq_div_iff_mult_less_eq power_add not_less mult.commute)
  finally show ?thesis
    by (subst EncodeVarint64.simps) (simp add: ucast_byte_drop_bit add.commute)
qed

lemma EncodeVarint32_eq_64: "EncodeVarint32 v = EncodeVarint64 (ucast v)"
proof -
  have b: "v < push_bit 7 1 \<longleftrightarrow> unat v < 2 ^ 7" "v < push_bit 14 1 \<longleftrightarrow> unat v < 2 ^ 14"
      "v < push_bit 21 1 \<longleftrightarrow> unat v < 2 ^ 21" "v < push_bit 28 1 \<longleftrightarrow> unat v < 2 ^ 28"
    by (simp_all add: word_less_nat_alt)
  have "unat v < 2 ^ 32"
    using unsigned_less [of v] by simp
  then have u: "unat v < 2 ^ 35"
    by simp
  note unf = EncodeVarint64_unfold_ucast [of _ v]
  have e: "EncodeVarint64 (ucast v) = EncodeVarint64 (drop_bit 0 (ucast v))" "v = drop_bit 0 v"
    by simp_all
  show ?thesis
    using u unfolding EncodeVarint32_def b e(1)
    by (auto simp add: unf [of 0, simplified] unf [of 7, simplified] unf [of 14, simplified]
        unf [of 21, simplified] unf [of 28, simplified])
qed

lemma get_varint_loop_32:
  fixes w :: u64
  assumes "s \<le> 28" "7 dvd s" and "unat w < 2 ^ (32 - s)"
  shows "get_varint_loop 28 s r (EncodeVarint64 w @ rest)
       = Some (r OR push_bit s (ucast w :: u32), rest)"
  using assms
proof (induction w arbitrary: s r rule: EncodeVarint64.induct)
  case (1 w)
  have d: "push_bit (s + 7) (ucast (drop_bit 7 w) :: u32) = push_bit (s + 7) (drop_bit 7 (ucast w))"
  proof (rule bit_word_eqI)
    fix n assume "n < LENGTH(32)"
    then show "bit (push_bit (s + 7) (ucast (drop_bit 7 w) :: u32)) n
        = bit (push_bit (s + 7) (drop_bit 7 (ucast w) :: u32)) n"
      by (cases "n < s + 7") (auto simp: bit_simps)
  qed
  show ?case
  proof (cases "128 \<le> w")
    case False
    note last_byte_ucast [OF False [unfolded not_le]]
    with False "1.prems"(1) show ?thesis
      by (simp only: EncodeVarint64.simps [of w] get_varint_loop.simps [of 28 s] append_Cons
          append_Nil list.case if_True if_False simp_thms)
  next
    case True
    then have w: "128 \<le> unat w"
      by (simp add: word_le_nat_alt)
    then have "32 - s > 7"
      using "1.prems"(3) power_increasing [of "32 - s" 7 "2::nat"] by (cases "32 - s > 7") auto
    then have s: "s + 7 \<le> 28"
      using "1.prems"(2) by (auto elim!: dvdE)
    have "unat (drop_bit 7 w) < 2 ^ (32 - (s + 7))"
    proof -
      have "32 - s = (32 - (s + 7)) + 7"
        using s by simp
      then have e: "(2::nat) ^ (32 - s) = 2 ^ (32 - (s + 7)) * 128"
        by (metis power_add num_7_pow)
      show ?thesis
        using "1.prems"(3) by (simp add: drop_bit_eq_div unat_div e less_mult_imp_div_less)
    qed
    then have "get_varint_loop 28 (s + 7) (r OR push_bit s (ucast w AND 127))
        (EncodeVarint64 (drop_bit 7 w) @ rest)
      = Some ((r OR push_bit s (ucast w AND 127)) OR push_bit (s + 7) (ucast (drop_bit 7 w)), rest)"
      using "1.IH" [OF True, of "s + 7"] s "1.prems"(2) by simp
    moreover have "s \<le> 28"
      by (rule "1.prems")
    ultimately show ?thesis
      using True
      by (simp only: EncodeVarint64.simps [of w] get_varint_loop.simps [of 28 s] append_Cons
          list.case if_True cont_byte_ucast not_False_eq_True d word_of_bit_split or.assoc)
  qed
qed

lemma GetVarint32Ptr_Fallback: "GetVarint32Ptr p = GetVarint32PtrFallback p"
  by (auto simp: GetVarint32Ptr_def GetVarint32PtrFallback_def get_varint_loop.simps [of 28 0]
      split: list.splits)

lemma GetVarint32_Encode [codec, simp]: "GetVarint32 (EncodeVarint32 v @ rest) = Some (v, rest)"
proof -
  have "unat (ucast v :: u64) < 2 ^ 32"
    using unat_drop_bit_ucast [of 0 v] unsigned_less [of v, where 'a = nat] by simp
  moreover have "(ucast (ucast v :: u64) :: u32) = v"
    by (rule bit_word_eqI) (auto simp: bit_simps)
  ultimately show ?thesis
    using get_varint_loop_32 [of 0 "ucast v" 0 rest]
    by (simp add: GetVarint32_def GetVarint32Ptr_Fallback GetVarint32PtrFallback_def
        EncodeVarint32_eq_64)
qed

lemma GetVarint64_Encode [codec, simp]: "GetVarint64 (EncodeVarint64 v @ rest) = Some (v, rest)"
  using get_varint_loop_64 [of 0 v 0 rest] unsigned_less [of v, where 'a = nat]
  by (simp add: GetVarint64_def GetVarint64Ptr_def)

lemma GetVarint32Ptr_Encode [codec, simp]:
  "GetVarint32Ptr (EncodeVarint32 v @ rest) = Some (v, rest)"
  using GetVarint32_Encode by (simp add: GetVarint32_def)

section \<open>Lengths, bounds and failures\<close>

lemma VarintLength_loop_Encode: "VarintLength_loop v len + 1 = len + length (EncodeVarint64 v)"
proof (induction v arbitrary: len rule: EncodeVarint64.induct)
  case (1 v)
  then show ?case
    by (cases "128 \<le> v")
      (simp_all add: VarintLength_loop.simps [of v] EncodeVarint64.simps [of v])
qed

lemma VarintLength_Encode [len_simps]: "length (EncodeVarint64 v) = VarintLength v"
  using VarintLength_loop_Encode [of v 1] by (simp add: VarintLength_def)

lemma VarintLength_pos [simp]: "0 < VarintLength v"
  by (subst VarintLength_Encode [symmetric], subst EncodeVarint64.simps) simp

lemma length_EncodeVarint32 [len_simps]: "length (EncodeVarint32 v) = VarintLength (ucast v)"
  by (simp add: EncodeVarint32_eq_64 VarintLength_Encode)

lemma length_EncodeVarint32_bounds:
  "1 \<le> length (EncodeVarint32 v)" "length (EncodeVarint32 v) \<le> 5"
  by (simp_all add: EncodeVarint32_def)

lemma length_EncodeVarint64_le:
  "unat v < 2 ^ (7 * Suc k) \<Longrightarrow> length (EncodeVarint64 v) \<le> Suc k"
proof (induction v arbitrary: k rule: EncodeVarint64.induct)
  case (1 v)
  show ?case
  proof (cases "128 \<le> v")
    case True
    then have v: "128 \<le> unat v"
      by (simp add: word_le_nat_alt)
    then obtain k' where k: "k = Suc k'"
      using "1.prems" by (cases k) auto
    have "unat (drop_bit 7 v) < 2 ^ (7 * Suc k')"
      using "1.prems" unfolding unat_drop_bit_eq
      by (simp add: k drop_bit_eq_div power_add less_mult_imp_div_less)
    then show ?thesis
      using "1.IH" [OF True] True by (simp add: EncodeVarint64.simps [of v] k)
  next
    case False
    then show ?thesis
      by (simp add: EncodeVarint64.simps [of v])
  qed
qed

lemma length_EncodeVarint64_bounds:
  "1 \<le> length (EncodeVarint64 v)" "length (EncodeVarint64 v) \<le> 10"
proof -
  show "1 \<le> length (EncodeVarint64 v)"
    by (simp add: EncodeVarint64.simps [of v])
  have "unat v < 2 ^ 64"
    using unsigned_less [of v] by simp
  then have "unat v < 2 ^ (7 * Suc 9)"
    by simp
  then show "length (EncodeVarint64 v) \<le> 10"
    using length_EncodeVarint64_le [of v 9] by simp
qed

lemma EncodeVarint_not_Nil [simp]: "EncodeVarint32 v \<noteq> []" "EncodeVarint64 w \<noteq> []"
  by (simp_all add: EncodeVarint32_def EncodeVarint64.simps [of w])

text \<open>A small length is one byte: what the fast paths of the decoders test.\<close>

lemma EncodeVarint32_small:
  assumes "unat v < 128"
  shows "EncodeVarint32 v = [ucast v]"
  using assms by (simp add: EncodeVarint32_def word_less_nat_alt)

text \<open>A decoder that succeeds consumed a non-empty prefix of its input, of bounded length.\<close>

lemma get_varint_loop_consumes:
  assumes "get_varint_loop bound s r p = Some (v, p')"
  shows "\<exists>pre. p = pre @ p' \<and> pre \<noteq> [] \<and> s + 7 * length pre \<le> bound + 7"
  using assms
proof (induction bound s r p rule: get_varint_loop.induct)
  case (1 bound s r p)
  show ?case
  proof (cases "s \<le> bound \<and> p \<noteq> []")
    case False
    with "1.prems" show ?thesis
      by (auto simp: get_varint_loop.simps [of bound s] split: if_splits)
  next
    case True
    then obtain b q where p: "p = b # q" and s: "s \<le> bound"
      by (cases p) auto
    show ?thesis
    proof (cases "(ucast b :: 'a word) AND 128 = 0")
      case z: True
      have "p' = q"
        using "1.prems" s z by (simp add: p get_varint_loop.simps [of bound s])
      with p s show ?thesis
        by (intro exI [of _ "[b]"]) simp
    next
      case nz: False
      with "1.prems" s have "get_varint_loop bound (s + 7)
          (r OR push_bit s (ucast b AND 127)) q = Some (v, p')"
        by (simp add: p get_varint_loop.simps [of bound s])
      then obtain pre where "q = pre @ p'" "pre \<noteq> []" "s + 7 + 7 * length pre \<le> bound + 7"
        using "1.IH" [OF s p] nz by blast
      with p show ?thesis
        by (intro exI [of _ "b # pre"]) simp
    qed
  qed
qed

lemma GetVarint32_consumes:
  assumes "GetVarint32 p = Some (v, p')"
  shows "\<exists>pre. p = pre @ p' \<and> 1 \<le> length pre \<and> length pre \<le> 5"
  using get_varint_loop_consumes [of 28 0 0 p v p'] assms
  by (fastforce simp: GetVarint32_def GetVarint32Ptr_Fallback GetVarint32PtrFallback_def
      Suc_le_eq)

lemma GetVarint64_consumes:
  assumes "GetVarint64 p = Some (v, p')"
  shows "\<exists>pre. p = pre @ p' \<and> 1 \<le> length pre \<and> length pre \<le> 10"
  using get_varint_loop_consumes [of 63 0 0 p v p'] assms
  by (fastforce simp: GetVarint64_def GetVarint64Ptr_def Suc_le_eq)

lemma GetVarint_Nil [simp]: "GetVarint32 [] = None" "GetVarint64 [] = None"
  by (simp_all add: GetVarint32_def GetVarint32Ptr_Fallback GetVarint32PtrFallback_def
      GetVarint64_def GetVarint64Ptr_def get_varint_loop.simps)

section \<open>Length-prefixed strings\<close>

definition EncodeLengthPrefixed :: "bytes \<Rightarrow> bytes" where
  "EncodeLengthPrefixed value = PutLengthPrefixedview [] value"

lemma PutLengthPrefixedview_append:
  "PutLengthPrefixedview dst value = dst @ EncodeLengthPrefixed value"
  by (simp add: PutLengthPrefixedview_def EncodeLengthPrefixed_def PutVarint32_def)

lemma unat_of_nat_len:
  assumes "n < 2 ^ 32"
  shows "unat (of_nat n :: u32) = n"
  using assms by (simp add: unat_of_nat take_bit_nat_eq_self)

lemma GetLengthPrefixedview_Encode [codec, simp]:
  assumes "length value < 2 ^ 32"
  shows "GetLengthPrefixedview (EncodeLengthPrefixed value @ rest) = Some (value, rest)"
    and "GetLengthPrefixedviewPtr (EncodeLengthPrefixed value @ rest) = Some (value, rest)"
  using unat_of_nat_len [OF assms]
  by (simp_all add: EncodeLengthPrefixed_def PutLengthPrefixedview_def PutVarint32_def
      GetLengthPrefixedview_def GetLengthPrefixedviewPtr_def)

lemma GetLengthPrefixedview_consumes:
  assumes "GetLengthPrefixedview p = Some (x, p')"
  shows "\<exists>pre. p = pre @ x @ p' \<and> 1 \<le> length pre \<and> length pre \<le> 5"
proof -
  obtain len q where q: "GetVarint32 p = Some (len, q)" "unat len \<le> length q"
      "x = take (unat len) q" "p' = drop (unat len) q"
    using assms by (auto simp: GetLengthPrefixedview_def split: option.splits if_splits)
  moreover obtain pre where "p = pre @ q" "1 \<le> length pre" "length pre \<le> 5"
    using GetVarint32_consumes [OF q(1)] by blast
  ultimately show ?thesis
    by (intro exI [of _ pre]) simp
qed

section \<open>Properties\<close>

text \<open>
  C39: Varints: whatever follows in the buffer, the decoders of both widths return the number that was encoded and stop behind it; the
  unrolled 32-bit encoder writes the same bytes as the 64-bit loop, \<open>VarintLength\<close> is the number of
  bytes, and it is at most 5, respectively 10.
\<close>

theorem varint_roundtrip:
  "GetVarint32 (EncodeVarint32 v @ rest) = Some (v, rest) \<and>
   GetVarint64 (EncodeVarint64 w @ rest) = Some (w, rest) \<and>
   EncodeVarint32 v = EncodeVarint64 (ucast v) \<and>
   length (EncodeVarint64 w) = VarintLength w \<and>
   length (EncodeVarint32 v) \<le> 5 \<and> length (EncodeVarint64 w) \<le> 10"
  by (intro conjI GetVarint32_Encode GetVarint64_Encode EncodeVarint32_eq_64 VarintLength_Encode
      length_EncodeVarint32_bounds(2) length_EncodeVarint64_bounds(2))

text \<open>
  C40: Decoding never leaves the buffer, whatever it holds: when a varint or a length-prefixed string is decoded, the input is a non-empty
  header, the string, and the rest that is returned; and both versions of the length-prefixed decoder
  give back what \<open>PutLengthPrefixedview\<close> appended.
\<close>

theorem length_prefixed_in_bounds:
  assumes "length value < 2 ^ 32"
  shows "PutLengthPrefixedview dst value = dst @ EncodeLengthPrefixed value \<and>
    GetLengthPrefixedview (EncodeLengthPrefixed value @ rest) = Some (value, rest) \<and>
    GetLengthPrefixedviewPtr (EncodeLengthPrefixed value @ rest) = Some (value, rest) \<and>
    (case GetLengthPrefixedview p of
       None \<Rightarrow> True
     | Some (x, p') \<Rightarrow> \<exists>pre. p = pre @ x @ p' \<and> 1 \<le> length pre \<and> length pre \<le> 5)"
  using assms GetLengthPrefixedview_consumes [of p]
  by (simp add: PutLengthPrefixedview_append split: option.splits)

theorem length_prefixed_in_bounds_witness:
  "GetLengthPrefixedview (EncodeLengthPrefixed [7, 8] @ [9]) = Some ([7, 8], [9]) \<and>
   GetLengthPrefixedview [5, 1] = None"
  using length_prefixed_in_bounds [of "[7, 8]" "[]" "[9]" "[5, 1]"]
  by (simp add: GetLengthPrefixedview_def GetVarint32_def GetVarint32Ptr_def)

end
