(* ===== verification/Keys.thy ===== *)
theory Keys
  imports Coding
begin

text \<open>
  Internal keys (src/src/util/key.h, src/src/util/key.cpp) and the two comparison functions
  \<open>cmp\<close> (key.h on \<open>InternalKey\<close>, src/src/util/options.h on \<open>std::string_view\<close>).

  An \<open>InternalKey\<close> is its only field, the string \<open>Key\<close>: a user key followed by the
  eight bytes of the tag \<open>seq << 8 | type\<close>.  .bazelrc builds with \<open>-c opt\<close>, so asserts are
  compiled out (the sources hold asserts over undeclared names, such as \<open>Vaild()\<close> in
  src/src/db/block.h, and compile only this way): they are no branch of the model.
\<close>

section \<open>Sequence numbers, types and tags\<close>

datatype Valuetype = kTypeDeletion | kTypeValue

text \<open>The number of an enumerator, and \<open>static_cast<Valuetype>\<close> of a byte (\<open>None\<close>: a value
  that is no enumerator).\<close>

fun Valuetype_code :: "Valuetype \<Rightarrow> u64" where
  "Valuetype_code kTypeDeletion = 0"
| "Valuetype_code kTypeValue = 1"

definition Valuetype_of :: "byte \<Rightarrow> Valuetype option" where
  "Valuetype_of c = (if c = 0 then Some kTypeDeletion else if c = 1 then Some kTypeValue else None)"

definition kMaxSequenceNumber :: u64 where
  "kMaxSequenceNumber = push_bit 56 1 - 1"

definition PackSequenceAndType :: "u64 \<Rightarrow> Valuetype \<Rightarrow> u64" where
  "PackSequenceAndType seq t = push_bit 8 seq OR Valuetype_code t"

section \<open>Internal keys\<close>

type_synonym InternalKey = bytes

definition InternalKey_parser :: "u64 \<Rightarrow> Valuetype \<Rightarrow> u64" where
  "InternalKey_parser num type = push_bit 8 num OR Valuetype_code type"

definition mk_InternalKey :: "bytes \<Rightarrow> u64 \<Rightarrow> Valuetype \<Rightarrow> InternalKey" where
  "mk_InternalKey str num type = PutFixed64 str (InternalKey_parser num type)"

text \<open>
  The constructor that takes a view gives \<open>data()\<close> to \<open>std::string\<close>, which reads up to the first zero byte; \<open>mem\<close> is the memory
  from there on, and \<open>None\<close> a read behind it.  The constructor that takes two pointers copies what lies between them.
\<close>

definition InternalKey_of_view :: "bytes \<Rightarrow> InternalKey option" where
  "InternalKey_of_view mem = (if 0 \<in> set mem then Some (takeWhile (\<lambda>b. b \<noteq> 0) mem) else None)"

definition InternalKey_of_pointers :: "bytes \<Rightarrow> nat \<Rightarrow> nat \<Rightarrow> InternalKey option" where
  "InternalKey_of_pointers mem p q = (if p \<le> q \<and> q \<le> length mem then Some (take (q - p) (drop p mem)) else None)"

text \<open>The views \<open>(Key.data(), Key.size() - 8)\<close>; \<open>None\<close>: \<open>Key.size() - 8\<close> wraps around.\<close>

definition InternalKey_getusrkeyview :: "InternalKey \<Rightarrow> bytes option" where
  "InternalKey_getusrkeyview Key =
     (if length Key < 8 then None else Some (take (length Key - 8) Key))"

definition InternalKey_ExtractUserKey :: "InternalKey \<Rightarrow> bytes option" where
  "InternalKey_ExtractUserKey Key =
     (if length Key < 8 then None else Some (take (length Key - 8) Key))"

definition InternalKey_Getag :: "InternalKey \<Rightarrow> u64 option" where
  "InternalKey_Getag Key =
     (if length Key < 8 then None else DecodeFixed64 (drop (length Key - 8) Key))"

definition InternalKey_DecodeFrom :: "bytes \<Rightarrow> bool \<times> InternalKey" where
  "InternalKey_DecodeFrom s = (s \<noteq> [], s)"

section \<open>Comparison\<close>

text \<open>\<open>std::string_view::compare\<close>: bytes as unsigned, a proper prefix is smaller.\<close>

fun view_compare :: "bytes \<Rightarrow> bytes \<Rightarrow> int" where
  "view_compare [] [] = 0"
| "view_compare [] (y # ys) = -1"
| "view_compare (x # xs) [] = 1"
| "view_compare (x # xs) (y # ys) =
     (if x < y then -1 else if y < x then 1 else view_compare xs ys)"

definition cmp :: "InternalKey \<Rightarrow> InternalKey \<Rightarrow> int option" where
  "cmp a b = do {
     ua \<leftarrow> InternalKey_ExtractUserKey a;
     ub \<leftarrow> InternalKey_ExtractUserKey b;
     let r = view_compare ua ub;
     if r = 0 then do {
       anum \<leftarrow> DecodeFixed64 (drop (length a - 8) a);
       bnum \<leftarrow> DecodeFixed64 (drop (length b - 8) b);
       Some (if anum > bnum then -1 else if anum < bnum then 1 else r)
     } else Some r }"

text \<open>The version of options.h; a view of fewer than eight bytes makes it read out of bounds.\<close>

definition cmp_view :: "bytes \<Rightarrow> bytes \<Rightarrow> int option" where
  "cmp_view a b =
     (if length a < 8 \<or> length b < 8 then None
      else
        (let r = view_compare (take (length a - 8) a) (take (length b - 8) b)
         in if r = 0 then do {
              anum \<leftarrow> DecodeFixed64 (drop (length a - 8) a);
              bnum \<leftarrow> DecodeFixed64 (drop (length b - 8) b);
              Some (if anum > bnum then -1 else if anum < bnum then 1 else r)
            } else Some r))"

section \<open>Parsing an internal key\<close>

record ParsedInternalKey =
  pk_user_key :: bytes
  pk_sequence :: u64
  pk_type :: "Valuetype option"

text \<open>The result of the call with the structure it leaves behind \<open>result\<close>.\<close>

definition ParseInternalKey :: "bytes \<Rightarrow> ParsedInternalKey \<Rightarrow> bool \<times> ParsedInternalKey" where
  "ParseInternalKey internal_key result =
     (let n = length internal_key
      in if n < 8 then (False, result)
         else
           (let num = le64 (drop (n - 8) internal_key);
                c = (ucast num :: byte)
            in (c \<le> 1,
                \<lparr>pk_user_key = take (n - 8) internal_key,
                 pk_sequence = drop_bit 8 num,
                 pk_type = Valuetype_of c\<rparr>)))"

section \<open>Lookup keys\<close>

text \<open>The buffer from \<open>start\<close>, with the offsets of \<open>kstart\<close> and \<open>end\<close> in it.\<close>

record Lookey =
  lk_buf :: bytes
  lk_kstart :: nat
  lk_end :: nat

definition mk_Lookey :: "bytes \<Rightarrow> u64 \<Rightarrow> Lookey" where
  "mk_Lookey key seq =
     (let usize = length key;
          prefix = EncodeVarint32 (of_nat (usize + 8));
          str = prefix @ key @ EncodeFixed64 (PackSequenceAndType seq kTypeValue)
      in \<lparr>lk_buf = str, lk_kstart = length prefix, lk_end = length str\<rparr>)"

definition Lookey_inter_key :: "Lookey \<Rightarrow> bytes" where
  "Lookey_inter_key lk = take (lk_end lk - lk_kstart lk) (drop (lk_kstart lk) (lk_buf lk))"

definition Lookey_key :: "Lookey \<Rightarrow> bytes" where
  "Lookey_key lk = take (lk_end lk - lk_kstart lk - 8) (drop (lk_kstart lk) (lk_buf lk))"

section \<open>Skip list entries in memory\<close>

text \<open>
  \<open>SkiplistKey\<close> points to \<open>klength varint32, userkey, tag, vlength varint32, value\<close>.
  \<open>getsize\<close> decodes at most five bytes and ignores a failure, which leaves its result
  uninitialised: \<open>None\<close>.
\<close>

definition getsize :: "bytes \<Rightarrow> u32 option" where
  "getsize ptr = map_option fst (GetVarint32Ptr (take 5 ptr))"

definition SkiplistKey_Key :: "bytes \<Rightarrow> InternalKey option" where
  "SkiplistKey_Key str = do {
     key_size \<leftarrow> getsize str;
     let src = drop (VarintLength (ucast key_size)) str;
     if length src < unat key_size then None else Some (take (unat key_size) src) }"

text \<open>
  \<open>Val\<close> resizes the string to \<open>val_size\<close> and then copies
  \<open>val_size + VarintLength(val_size)\<close> bytes into it, while the string owns \<open>val_size + 1\<close>
  bytes of memory: \<open>hs_view\<close> is what the string holds, \<open>hs_past\<close> the byte the copy leaves in the place of
  the terminator.  A length that needs two bytes or more makes the copy write past the memory of the
  string: \<open>None\<close>.
\<close>

record heap_string =
  hs_view :: bytes
  hs_past :: bytes

definition SkiplistKey_Val :: "bytes \<Rightarrow> heap_string option" where
  "SkiplistKey_Val str = do {
     key_size \<leftarrow> getsize str;
     val_size \<leftarrow> getsize (drop (unat key_size + VarintLength (ucast key_size)) str);
     let src = drop (VarintLength (ucast key_size) + unat key_size) str;
     let n = unat val_size + VarintLength (ucast val_size);
     if length src < n \<or> unat val_size + 1 < n then None
     else Some \<lparr>hs_view = take (unat val_size) src,
                hs_past = drop (unat val_size) (take n src)\<rparr> }"

section \<open>File metadata\<close>

record FileMate =
  fm_num :: u64
  fm_file_size :: u64
  fm_smallest :: InternalKey
  fm_largest :: InternalKey

section \<open>The order on internal keys\<close>

text \<open>
  The abstract internal key: user key ascending, tag (so sequence number) descending.
\<close>

datatype skey = SKey (sk_user: bytes) (sk_tag: u64)

instantiation skey :: linorder
begin

definition less_eq_skey :: "skey \<Rightarrow> skey \<Rightarrow> bool" where
  "less_eq_skey a b \<longleftrightarrow>
     sk_user a < sk_user b \<or> (sk_user a = sk_user b \<and> sk_tag b \<le> sk_tag a)"

definition less_skey :: "skey \<Rightarrow> skey \<Rightarrow> bool" where
  "less_skey a b \<longleftrightarrow>
     sk_user a < sk_user b \<or> (sk_user a = sk_user b \<and> sk_tag b < sk_tag a)"

instance
proof
  fix x y z :: skey
  show "x < y \<longleftrightarrow> x \<le> y \<and> \<not> y \<le> x"
    by (auto simp: less_eq_skey_def less_skey_def)
  show "x \<le> x"
    by (simp add: less_eq_skey_def)
  show "x \<le> z" if "x \<le> y" "y \<le> z"
    using that unfolding less_eq_skey_def by (metis order.strict_trans order_trans)
  show "x = y" if "x \<le> y" "y \<le> x"
    using that by (cases x; cases y) (auto simp: less_eq_skey_def)
  show "x \<le> y \<or> y \<le> x"
    by (cases "sk_user x" "sk_user y" rule: linorder_cases) (auto simp: less_eq_skey_def)
qed

end

definition ikey_abs :: "InternalKey \<Rightarrow> skey" where
  "ikey_abs k = SKey (take (length k - 8) k) (le64 (drop (length k - 8) k))"

definition ikey_wf :: "InternalKey \<Rightarrow> bool" where
  "ikey_wf k \<longleftrightarrow> 8 \<le> length k"

lemma ikey_abs_inj:
  assumes "ikey_wf a" "ikey_wf b" "ikey_abs a = ikey_abs b"
  shows "a = b"
proof -
  have "EncodeFixed64 (le64 (drop (length a - 8) a)) = drop (length a - 8) a"
      "EncodeFixed64 (le64 (drop (length b - 8) b)) = drop (length b - 8) b"
    using assms by (auto intro!: EncodeFixed64_le64 simp: ikey_wf_def)
  moreover have "le64 (drop (length a - 8) a) = le64 (drop (length b - 8) b)"
      "take (length a - 8) a = take (length b - 8) b"
    using assms(3) unfolding ikey_abs_def skey.inject by blast+
  ultimately show ?thesis
    by (metis append_take_drop_id)
qed

lemma view_compare_less:
  "view_compare a b = (if a < b then -1 else if b < a then 1 else 0)"
proof (induction a b rule: view_compare.induct)
  case (4 x xs y ys)
  then show ?case
    by (auto simp: not_less_iff_gr_or_eq)
qed simp_all

lemma cmp_abs:
  assumes "ikey_wf a" "ikey_wf b"
  shows "cmp a b = Some (if ikey_abs a < ikey_abs b then -1
                         else if ikey_abs b < ikey_abs a then 1 else 0)"
  using assms
  by (auto simp: cmp_def ikey_wf_def InternalKey_ExtractUserKey_def DecodeFixed64_def
      view_compare_less less_skey_def ikey_abs_def Let_def)

lemma cmp_view_cmp: "cmp_view a b = cmp a b"
  by (simp add: cmp_view_def cmp_def InternalKey_ExtractUserKey_def Let_def)

lemma cmp_simps:
  assumes "ikey_wf a" "ikey_wf b"
  shows "cmp a b = Some r \<Longrightarrow> r < 0 \<longleftrightarrow> ikey_abs a < ikey_abs b"
    and "cmp a b = Some r \<Longrightarrow> r = 0 \<longleftrightarrow> a = b"
    and "cmp a b = Some r \<Longrightarrow> 0 < r \<longleftrightarrow> ikey_abs b < ikey_abs a"
  using assms ikey_abs_inj [OF assms]
  by (auto simp: cmp_abs split: if_splits)

section \<open>Keys the code builds\<close>

lemma length_mk_InternalKey [simp, len_simps]: "length (mk_InternalKey u s t) = length u + 8"
  by (simp add: mk_InternalKey_def PutFixed64_def)

lemma ikey_wf_mk [simp, wf_intros]: "ikey_wf (mk_InternalKey u s t)"
  by (simp add: ikey_wf_def)

lemma ikey_abs_mk [simp]: "ikey_abs (mk_InternalKey u s t) = SKey u (InternalKey_parser s t)"
  by (simp add: ikey_abs_def mk_InternalKey_def PutFixed64_def)

lemma user_key_mk [simp]:
  "InternalKey_ExtractUserKey (mk_InternalKey u s t) = Some u"
  "InternalKey_getusrkeyview (mk_InternalKey u s t) = Some u"
  by (simp_all add: InternalKey_ExtractUserKey_def InternalKey_getusrkeyview_def
      mk_InternalKey_def PutFixed64_def)

lemma Getag_mk [simp]: "InternalKey_Getag (mk_InternalKey u s t) = Some (InternalKey_parser s t)"
  by (simp add: InternalKey_Getag_def mk_InternalKey_def PutFixed64_def)

lemma parser_eq_Pack: "InternalKey_parser s t = PackSequenceAndType s t"
  by (simp add: InternalKey_parser_def PackSequenceAndType_def)

lemma unat_kMaxSequenceNumber: "unat kMaxSequenceNumber = 2 ^ 56 - 1"
  by (simp add: kMaxSequenceNumber_def)

text \<open>The tag of a legal sequence number is \<open>256 * seq + type\<close>.\<close>

lemma unat_tag:
  assumes "s \<le> kMaxSequenceNumber"
  shows "unat (InternalKey_parser s t) = 256 * unat s + unat (Valuetype_code t)"
proof -
  have s: "unat s < 2 ^ 56"
    using assms by (simp add: word_le_nat_alt unat_kMaxSequenceNumber)
  have "push_bit 8 s OR Valuetype_code t = push_bit 8 s + Valuetype_code t"
    by (rule disjunctive_add_eq_or [symmetric], rule bit_word_eqI, cases t) (auto simp: bit_simps)
  moreover have "unat (push_bit 8 s) = 256 * unat s"
    using s by (simp add: push_bit_eq_mult unat_word_ariths)
  moreover have "unat (Valuetype_code t) \<le> 1"
    by (cases t) simp_all
  ultimately show ?thesis
    using s by (simp add: InternalKey_parser_def unat_word_ariths)
qed

lemma seq_of_tag [codec]:
  assumes "s \<le> kMaxSequenceNumber"
  shows "drop_bit 8 (InternalKey_parser s t) = s"
proof (rule bit_word_eqI)
  fix n assume "n < LENGTH(64)"
  have "n < 56" if "bit s n"
    using not_bit_less [of s 56 n] assms that
    by (auto simp: word_le_nat_alt unat_kMaxSequenceNumber intro: ccontr)
  then show "bit (drop_bit 8 (InternalKey_parser s t)) n = bit s n"
    by (cases t) (auto simp: InternalKey_parser_def bit_simps)
qed

lemma type_of_tag [codec]: "(ucast (InternalKey_parser s t) :: byte) = ucast (Valuetype_code t)"
  unfolding InternalKey_parser_def
  by (rule bit_word_eqI, cases t) (auto simp: bit_simps)

lemma Valuetype_of_code [codec, simp]:
  "Valuetype_of (ucast (Valuetype_code t)) = Some t" "(ucast (Valuetype_code t) :: byte) \<le> 1"
  by (cases t; simp add: Valuetype_of_def)+

lemma bit_15 [simp]: "bit (15::u64) n \<longleftrightarrow> n < 4" "bit (15::int) n \<longleftrightarrow> n < 4"
proof -
  have p: "(15::u64) = mask 4" "(15::int) = mask 4"
    by (simp_all add: mask_eq_exp_minus_1)
  show "bit (15::u64) n \<longleftrightarrow> n < 4" "bit (15::int) n \<longleftrightarrow> n < 4"
    unfolding p by (auto simp: bit_mask_iff)
qed

lemma tag_and_15: "InternalKey_parser s t AND 15 = Valuetype_code t"
  unfolding InternalKey_parser_def
  by (rule bit_word_eqI, cases t) (auto simp: bit_simps)

lemma ParseInternalKey_mk [codec]:
  assumes "s \<le> kMaxSequenceNumber"
  shows "ParseInternalKey (mk_InternalKey u s t) r =
    (True, \<lparr>pk_user_key = u, pk_sequence = s, pk_type = Some t\<rparr>)"
  using assms
  by (simp add: ParseInternalKey_def mk_InternalKey_def PutFixed64_def Let_def type_of_tag
      seq_of_tag)

text \<open>Lookup keys: their views are the internal key of the newest visible value, and the user key.\<close>

lemma Lookey_views [codec, simp]:
  "Lookey_inter_key (mk_Lookey key seq) = mk_InternalKey key seq kTypeValue"
  "Lookey_key (mk_Lookey key seq) = key"
  by (simp_all add: Lookey_inter_key_def Lookey_key_def mk_Lookey_def Let_def mk_InternalKey_def
      PutFixed64_def parser_eq_Pack)

lemma Lookey_pointers: "InternalKey_of_pointers (lk_buf (mk_Lookey u s)) (lk_kstart (mk_Lookey u s)) (lk_end (mk_Lookey u s)) =
  Some (mk_InternalKey u s kTypeValue)"
  by (simp add: InternalKey_of_pointers_def mk_Lookey_def Let_def mk_InternalKey_def PutFixed64_def parser_eq_Pack)

text \<open>Below sequence number \<open>2 ^ 48\<close> the highest byte of the tag is zero: the key of a view of a built key is never that key.\<close>

lemma view_constructor_cuts:
  assumes "s < 2 ^ 48"
  obtains k where "InternalKey_of_view (mk_InternalKey u s t @ rest) = Some k" "length k < length (mk_InternalKey u s t)"
proof -
  let ?k = "mk_InternalKey u s t"
  have "unat s < 2 ^ 48"
    using assms by (simp add: word_less_nat_alt)
  moreover have "unat (InternalKey_parser s t) = 256 * unat s + unat (Valuetype_code t)"
    using assms by (intro unat_tag) (simp add: kMaxSequenceNumber_def word_le_nat_alt word_less_nat_alt)
  moreover have "unat (Valuetype_code t) < 256"
    by (cases t) simp_all
  ultimately have "unat (InternalKey_parser s t) < 2 ^ 56"
    by simp
  then have "unat (drop_bit 56 (InternalKey_parser s t)) = 0"
    unfolding unat_drop_bit_eq by (simp add: drop_bit_eq_div)
  then have "drop_bit 56 (InternalKey_parser s t) = 0"
    by (simp add: unat_eq_0)
  then have "drop_bit 24 (ucast (drop_bit 32 (InternalKey_parser s t)) :: u32) = 0"
    by (simp add: bit_eq_iff bit_simps)
  then have "0 \<in> set (drop (length u) ?k)"
    by (simp add: mk_InternalKey_def PutFixed64_def EncodeFixed64_def EncodeFixed32_def)
  then have z: "0 \<in> set ?k"
    by (meson in_set_dropD)
  then obtain a b where ab: "?k = a @ 0 # b" "0 \<notin> set a"
    by (metis split_list_first)
  then have "takeWhile (\<lambda>b. b \<noteq> 0) (?k @ rest) = a"
    by (auto simp: takeWhile_tail)
  then show ?thesis
    using that [of a] z ab by (simp add: InternalKey_of_view_def)
qed

section \<open>Entries in memory\<close>

lemma getsize_Encode [codec, simp]: "getsize (EncodeVarint32 n @ rest) = Some n"
proof -
  have "take 5 (EncodeVarint32 n @ rest)
      = EncodeVarint32 n @ take (5 - length (EncodeVarint32 n)) rest"
    using length_EncodeVarint32_bounds(2) [of n] by simp
  then show ?thesis
    by (simp add: getsize_def)
qed

lemma SkiplistKey_Key_entry [codec]:
  assumes "unat n = length k"
  shows "SkiplistKey_Key (EncodeVarint32 n @ k @ rest) = Some k"
  using assms by (simp add: SkiplistKey_Key_def Let_def flip: length_EncodeVarint32)

lemma VarintLength_le_1:
  "VarintLength (ucast (m :: u32)) \<le> 1 \<longleftrightarrow> unat m < 128"
proof -
  have "(ucast m :: u64) < 128 \<longleftrightarrow> unat m < 128"
    by (simp add: word_less_nat_alt unsigned_ucast_eq take_bit_nat_eq_self unsigned_less)
  moreover have "0 < length (EncodeVarint64 (drop_bit 7 (ucast m)))"
    by (subst EncodeVarint64.simps) simp
  ultimately show ?thesis
    using VarintLength_loop_Encode [of "drop_bit 7 (ucast m)" 2]
    by (auto simp: VarintLength_def VarintLength_loop.simps [of "ucast m"] numeral_2_eq_2)
qed

lemma SkiplistKey_Val_memory:
  assumes "unat n = length k" "unat m = length v"
  shows "SkiplistKey_Val (EncodeVarint32 n @ k @ EncodeVarint32 m @ v @ rest) =
    (if length v < 128 then
       Some \<lparr>hs_view = take (length v) (EncodeVarint32 m @ v),
             hs_past = drop (length v) (EncodeVarint32 m @ v)\<rparr>
     else None)"
proof -
  have "drop (length k + length (EncodeVarint32 n)) (EncodeVarint32 n @ k @ x) = x" for x
    by (simp add: add.commute)
  moreover have "drop (length (EncodeVarint32 n) + length k) (EncodeVarint32 n @ k @ x) = x" for x
    by simp
  moreover have "take (length v) (EncodeVarint32 m @ v @ rest) = take (length v) (EncodeVarint32 m @ v)"
    by simp
  moreover have "take (length v + length (EncodeVarint32 m)) (EncodeVarint32 m @ v @ rest)
      = EncodeVarint32 m @ v"
    by (simp add: add.commute)
  moreover have "Suc 0 < length (EncodeVarint32 m) \<longleftrightarrow> \<not> length v < 128"
    using VarintLength_le_1 [of m] assms(2) by (auto simp: length_EncodeVarint32)
  ultimately show ?thesis
    using assms by (auto simp: SkiplistKey_Val_def Let_def simp flip: length_EncodeVarint32)
qed

lemma SkiplistKey_Val_entry [codec]:
  assumes "unat n = length k" "unat m = length v" "length v < 128"
  shows "SkiplistKey_Val (EncodeVarint32 n @ k @ EncodeVarint32 m @ v @ rest) =
    Some \<lparr>hs_view = take (length v) (EncodeVarint32 m @ v),
          hs_past = drop (length v) (EncodeVarint32 m @ v)\<rparr>"
  using assms by (simp add: SkiplistKey_Val_memory)

section \<open>Properties\<close>

text \<open>
  C19: The comparison of internal keys implements the order on (user key, tag) with user keys ascending and tags, hence sequence numbers,
  descending: its sign says which key is smaller, it is 0 exactly for equal keys, both versions agree, and it reads
  out of bounds exactly when one of the keys has fewer than eight bytes.
\<close>

theorem cmp_refines_order:
  "cmp a b =
     (if ikey_wf a \<and> ikey_wf b
      then Some (if ikey_abs a < ikey_abs b then -1 else if a = b then 0 else 1) else None) \<and>
   cmp_view a b = cmp a b"
proof (cases "ikey_wf a \<and> ikey_wf b")
  case True
  then show ?thesis
    using cmp_abs [of a b] ikey_abs_inj [of a b] by (auto simp: cmp_view_cmp)
next
  case False
  then have "length a < 8 \<or> length b < 8"
    by (auto simp: ikey_wf_def)
  then show ?thesis
    using False by (auto simp: cmp_view_cmp cmp_def InternalKey_ExtractUserKey_def split: bind_splits)
qed

text \<open>
  Internal keys and lookup keys: a key built from a user key, a legal sequence number and a type is parsed to exactly these,
  its user key and tag are read back, and the two views of a lookup key are the internal key of a
  value at that sequence number and the user key.
\<close>

theorem internal_key_roundtrip:
  assumes "s \<le> kMaxSequenceNumber"
  shows "ParseInternalKey (mk_InternalKey u s t) r
      = (True, \<lparr>pk_user_key = u, pk_sequence = s, pk_type = Some t\<rparr>) \<and>
    InternalKey_ExtractUserKey (mk_InternalKey u s t) = Some u \<and>
    InternalKey_Getag (mk_InternalKey u s t) = Some (PackSequenceAndType s t) \<and>
    Lookey_inter_key (mk_Lookey u s) = mk_InternalKey u s kTypeValue \<and>
    Lookey_key (mk_Lookey u s) = u"
  using assms by (simp add: ParseInternalKey_mk parser_eq_Pack)

theorem internal_key_roundtrip_witness:
  "ParseInternalKey (mk_InternalKey [107, 101] 300 kTypeDeletion)
      \<lparr>pk_user_key = [], pk_sequence = 0, pk_type = None\<rparr>
    = (True, \<lparr>pk_user_key = [107, 101], pk_sequence = 300, pk_type = Some kTypeDeletion\<rparr>)"
  using internal_key_roundtrip [of 300 "[107, 101]" kTypeDeletion]
  by (simp add: kMaxSequenceNumber_def)

end
