(* ===== verification/Arena.thy ===== *)
theory Arena
  imports Prelude
begin

text \<open>
  The bump allocator of src/src/util/arena.h and src/src/util/arena.cpp.

  Addresses are natural numbers (the null pointer is 0).  \<open>new char[n]\<close> is the parameter
  \<open>new_char\<close>: the blocks handed out so far (address and size) and \<open>n\<close> give the address of the
  new block.  The locale \<open>heap_alloc\<close> names what the arena relies on: a fresh block overlaps no
  earlier one and is aligned for every type.  \<open>bump_new\<close> is an allocator that satisfies it.
\<close>

section \<open>The allocator\<close>

definition BlockSize :: nat where
  "BlockSize = 4096"

record Arena =
  ar_alloc_ptr :: nat
  ar_alloc_bytes_remaining :: nat
  ar_blocks :: "(nat \<times> nat) list"
  ar_memory_usage :: nat

type_synonym new_char = "(nat \<times> nat) list \<Rightarrow> nat \<Rightarrow> nat"

definition mk_Arena :: Arena where
  "mk_Arena = \<lparr>ar_alloc_ptr = 0, ar_alloc_bytes_remaining = 0, ar_blocks = [], ar_memory_usage = 0\<rparr>"

definition Arena_AllocateNewBlock :: "new_char \<Rightarrow> Arena \<Rightarrow> nat \<Rightarrow> nat \<times> Arena" where
  "Arena_AllocateNewBlock new_char a block_bytes =
     (let result = new_char (ar_blocks a) block_bytes
      in (result, a\<lparr>ar_blocks := ar_blocks a @ [(result, block_bytes)],
                    ar_memory_usage := ar_memory_usage a + (block_bytes + 8)\<rparr>))"

definition Arena_AllocateFallback :: "new_char \<Rightarrow> Arena \<Rightarrow> nat \<Rightarrow> nat \<times> Arena" where
  "Arena_AllocateFallback new_char a bytes =
     (if BlockSize div 4 < bytes then Arena_AllocateNewBlock new_char a bytes
      else
        (let (p, a1) = Arena_AllocateNewBlock new_char a BlockSize
         in (p, a1\<lparr>ar_alloc_ptr := p + bytes,
                   ar_alloc_bytes_remaining := BlockSize - bytes\<rparr>)))"

definition Arena_Allocate :: "new_char \<Rightarrow> Arena \<Rightarrow> nat \<Rightarrow> nat \<times> Arena" where
  "Arena_Allocate new_char a bytes =
     (if bytes \<le> ar_alloc_bytes_remaining a
      then (ar_alloc_ptr a,
            a\<lparr>ar_alloc_ptr := ar_alloc_ptr a + bytes,
              ar_alloc_bytes_remaining := ar_alloc_bytes_remaining a - bytes\<rparr>)
      else Arena_AllocateFallback new_char a bytes)"

definition Arena_AllocateAligned :: "new_char \<Rightarrow> Arena \<Rightarrow> nat \<Rightarrow> nat \<times> Arena" where
  "Arena_AllocateAligned new_char a bytes =
     (let align = 8;
          current_mod = ar_alloc_ptr a mod align;
          slop = (if current_mod = 0 then 0 else align - current_mod);
          needed = bytes + slop
      in if needed \<le> ar_alloc_bytes_remaining a
         then (ar_alloc_ptr a + slop,
               a\<lparr>ar_alloc_ptr := ar_alloc_ptr a + needed,
                 ar_alloc_bytes_remaining := ar_alloc_bytes_remaining a - needed\<rparr>)
         else Arena_AllocateFallback new_char a bytes)"

definition Arena_MemoryUsage :: "Arena \<Rightarrow> nat" where
  "Arena_MemoryUsage a = ar_memory_usage a"

text \<open>A run of requests: the ranges handed out, in order, and the arena after them.\<close>

datatype request = Plain nat | Aligned nat

fun request_size :: "request \<Rightarrow> nat" where
  "request_size (Plain n) = n"
| "request_size (Aligned n) = n"

fun Arena_serve :: "new_char \<Rightarrow> Arena \<Rightarrow> request \<Rightarrow> nat \<times> Arena" where
  "Arena_serve new_char a (Plain n) = Arena_Allocate new_char a n"
| "Arena_serve new_char a (Aligned n) = Arena_AllocateAligned new_char a n"

fun Arena_run :: "new_char \<Rightarrow> Arena \<Rightarrow> request list \<Rightarrow> (nat \<times> nat) list \<times> Arena" where
  "Arena_run new_char a [] = ([], a)"
| "Arena_run new_char a (r # rs) =
     (let (p, a1) = Arena_serve new_char a r;
          (ps, a2) = Arena_run new_char a1 rs
      in ((p, request_size r) # ps, a2))"

section \<open>Ranges\<close>

definition range_of :: "nat \<times> nat \<Rightarrow> nat set" where
  "range_of r = {fst r ..< fst r + snd r}"

definition disjnt_ranges :: "nat \<times> nat \<Rightarrow> nat \<times> nat \<Rightarrow> bool" where
  "disjnt_ranges x y \<longleftrightarrow> range_of x \<inter> range_of y = {}"

lemma disjnt_ranges_mono:
  "disjnt_ranges x y \<Longrightarrow> range_of x' \<subseteq> range_of x \<Longrightarrow> range_of y' \<subseteq> range_of y \<Longrightarrow> disjnt_ranges x' y'"
  by (auto simp: disjnt_ranges_def)

lemma disjnt_ranges_sym: "disjnt_ranges x y \<longleftrightarrow> disjnt_ranges y x"
  by (auto simp: disjnt_ranges_def)

lemma range_of_split:
  assumes "i + n \<le> m"
  shows "range_of (p + i, n) \<subseteq> range_of (p, m)"
  using assms by (auto simp: range_of_def)

section \<open>What the arena needs of the heap\<close>

locale heap_alloc =
  fixes new_char :: new_char
  assumes fresh: "\<And>bs n b. b \<in> set bs \<Longrightarrow> disjnt_ranges b (new_char bs n, n)"
    and aligned: "\<And>bs n. new_char bs n mod 16 = 0"
begin

lemma aligned_8: "new_char bs n mod 8 = 0"
  using aligned [of bs n] by presburger

end

text \<open>The arena invariant, with the ranges handed out so far as a ghost argument.\<close>

definition ar_free :: "Arena \<Rightarrow> nat \<times> nat" where
  "ar_free a = (ar_alloc_ptr a, ar_alloc_bytes_remaining a)"

definition in_block :: "Arena \<Rightarrow> nat \<times> nat \<Rightarrow> bool" where
  "in_block a r \<longleftrightarrow> range_of r = {} \<or> (\<exists>b \<in> set (ar_blocks a). range_of r \<subseteq> range_of b)"

definition Arena_inv :: "Arena \<Rightarrow> (nat \<times> nat) list \<Rightarrow> bool" where
  "Arena_inv a live \<longleftrightarrow>
     sorted_wrt disjnt_ranges live
     \<and> (\<forall>r \<in> set live. disjnt_ranges r (ar_free a) \<and> in_block a r)
     \<and> in_block a (ar_free a)
     \<and> ar_memory_usage a = (\<Sum>b \<leftarrow> ar_blocks a. snd b + 8)"

lemma Arena_inv_mk: "Arena_inv mk_Arena []"
  by (simp add: Arena_inv_def mk_Arena_def in_block_def ar_free_def range_of_def)

lemma in_block_subset: "in_block a r \<Longrightarrow> range_of r' \<subseteq> range_of r \<Longrightarrow> in_block a r'"
  by (auto simp: in_block_def)

lemma in_block_more [simp]:
  "in_block (a\<lparr>ar_alloc_ptr := p, ar_alloc_bytes_remaining := m\<rparr>) r = in_block a r"
  by (simp add: in_block_def)

text \<open>Carving a range from the free part of the current block.\<close>

lemma Arena_inv_carve:
  assumes inv: "Arena_inv a live" and le: "n + slop \<le> ar_alloc_bytes_remaining a"
  shows "Arena_inv (a\<lparr>ar_alloc_ptr := ar_alloc_ptr a + (n + slop),
           ar_alloc_bytes_remaining := ar_alloc_bytes_remaining a - (n + slop)\<rparr>)
         (live @ [(ar_alloc_ptr a + slop, n)])"
proof -
  let ?r = "(ar_alloc_ptr a + slop, n)"
  let ?f = "(ar_alloc_ptr a + (n + slop), ar_alloc_bytes_remaining a - (n + slop))"
  have sub: "range_of ?r \<subseteq> range_of (ar_free a)" "range_of ?f \<subseteq> range_of (ar_free a)"
    using le by (auto simp: ar_free_def intro!: range_of_split)
  moreover have "disjnt_ranges ?r ?f"
    by (auto simp: disjnt_ranges_def range_of_def)
  ultimately show ?thesis
    using inv
    by (auto simp: Arena_inv_def sorted_wrt_append ar_free_def
        intro: in_block_subset disjnt_ranges_mono [OF _ subset_refl])
qed

text \<open>Adding a fresh block and carving the request from its start.\<close>

definition with_block :: "Arena \<Rightarrow> nat \<Rightarrow> nat \<Rightarrow> Arena" where
  "with_block a p m = a\<lparr>ar_blocks := ar_blocks a @ [(p, m)],
                       ar_memory_usage := ar_memory_usage a + (m + 8)\<rparr>"

lemma in_block_disjnt:
  assumes "in_block a r" "\<And>b. b \<in> set (ar_blocks a) \<Longrightarrow> disjnt_ranges b x"
  shows "disjnt_ranges r x"
  using assms by (fastforce simp: in_block_def disjnt_ranges_def)

lemma in_block_with_block:
  "in_block (with_block a p m) r \<longleftrightarrow> in_block a r \<or> range_of r \<subseteq> range_of (p, m)"
  by (auto simp: in_block_def with_block_def)

lemma Arena_inv_big:
  assumes inv: "Arena_inv a live"
    and fresh: "\<And>b. b \<in> set (ar_blocks a) \<Longrightarrow> disjnt_ranges b (p, n)"
  shows "Arena_inv (with_block a p n) (live @ [(p, n)])"
proof -
  have f: "ar_free (with_block a p n) = ar_free a"
    by (simp add: ar_free_def with_block_def)
  have "disjnt_ranges r (p, n)" if "in_block a r" for r
    by (rule in_block_disjnt [OF that fresh])
  moreover have "ar_memory_usage (with_block a p n) = (\<Sum>b \<leftarrow> ar_blocks (with_block a p n). snd b + 8)"
    using inv by (simp add: Arena_inv_def with_block_def)
  ultimately show ?thesis
    using inv
    by (auto simp: Arena_inv_def sorted_wrt_append f in_block_with_block
        disjnt_ranges_sym [of "(p, n)"])
qed

lemma Arena_inv_small:
  assumes inv: "Arena_inv a live" and le: "n \<le> m"
    and fresh: "\<And>b. b \<in> set (ar_blocks a) \<Longrightarrow> disjnt_ranges b (p, m)"
  shows "Arena_inv ((with_block a p m)\<lparr>ar_alloc_ptr := p + n, ar_alloc_bytes_remaining := m - n\<rparr>)
           (live @ [(p, n)])"
proof -
  let ?f = "(p + n, m - n)"
  have sub: "range_of (p, n) \<subseteq> range_of (p, m)" "range_of ?f \<subseteq> range_of (p, m)"
    using le range_of_split [of 0 n m p] range_of_split [of n "m - n" m p] by simp_all
  have d: "disjnt_ranges r (p, n)" "disjnt_ranges r ?f" if "in_block a r" for r
    using in_block_disjnt [OF that fresh] sub by (blast intro: disjnt_ranges_mono)+
  moreover have "disjnt_ranges (p, n) ?f"
    by (auto simp: disjnt_ranges_def range_of_def)
  moreover have "ar_memory_usage (with_block a p m) = (\<Sum>b \<leftarrow> ar_blocks (with_block a p m). snd b + 8)"
    using inv by (simp add: Arena_inv_def with_block_def)
  ultimately show ?thesis
    using inv sub
    by (auto simp: Arena_inv_def sorted_wrt_append in_block_with_block ar_free_def)
qed

context heap_alloc begin

lemma Fallback_inv:
  assumes "Arena_inv a live" "Arena_AllocateFallback new_char a n = (p, a')"
  shows "Arena_inv a' (live @ [(p, n)])" "p mod 8 = 0"
proof -
  show "p mod 8 = 0"
    using assms(2)
    by (auto simp: Arena_AllocateFallback_def Arena_AllocateNewBlock_def Let_def aligned_8
        split: if_splits)
  show "Arena_inv a' (live @ [(p, n)])"
  proof (cases "BlockSize div 4 < n")
    case True
    then have "p = new_char (ar_blocks a) n" "a' = with_block a p n"
      using assms(2)
      by (auto simp: Arena_AllocateFallback_def Arena_AllocateNewBlock_def Let_def with_block_def)
    with assms(1) show ?thesis
      by (auto intro!: Arena_inv_big fresh)
  next
    case False
    then have "p = new_char (ar_blocks a) BlockSize"
        "a' = (with_block a p BlockSize)\<lparr>ar_alloc_ptr := p + n,
                 ar_alloc_bytes_remaining := BlockSize - n\<rparr>"
      using assms(2)
      by (auto simp: Arena_AllocateFallback_def Arena_AllocateNewBlock_def Let_def with_block_def)
    moreover have "n \<le> BlockSize"
      using False by (simp add: BlockSize_def)
    ultimately show ?thesis
      using assms(1) by (auto intro!: Arena_inv_small fresh)
  qed
qed

lemma Allocate_inv:
  assumes "Arena_inv a live" "Arena_Allocate new_char a n = (p, a')"
  shows "Arena_inv a' (live @ [(p, n)])"
  using assms Arena_inv_carve [of a live n 0]
  by (auto simp: Arena_Allocate_def split: if_splits intro: Fallback_inv)

lemma AllocateAligned_inv:
  assumes "Arena_inv a live" "Arena_AllocateAligned new_char a n = (p, a')"
  shows "Arena_inv a' (live @ [(p, n)])" "p mod 8 = 0"
proof -
  let ?slop = "if ar_alloc_ptr a mod 8 = 0 then 0 else 8 - ar_alloc_ptr a mod 8"
  have "(q + (8 - q mod 8)) mod 8 = 0" for q :: nat
    by presburger
  then have m: "(ar_alloc_ptr a + ?slop) mod 8 = 0"
    by simp
  show "p mod 8 = 0"
    using assms(2) m
    by (auto simp: Arena_AllocateAligned_def Let_def simp del: mod_0_imp_dvd
        split: if_splits intro: Fallback_inv(2) [OF assms(1)])
  show "Arena_inv a' (live @ [(p, n)])"
    using assms Arena_inv_carve [of a live n ?slop]
    by (auto simp: Arena_AllocateAligned_def Let_def split: if_splits intro: Fallback_inv)
qed

lemma serve_inv:
  assumes "Arena_inv a live" "Arena_serve new_char a r = (p, a')"
  shows "Arena_inv a' (live @ [(p, request_size r)])"
  using assms by (cases r) (auto intro: Allocate_inv AllocateAligned_inv)

lemma run_inv:
  assumes "Arena_inv a live" "Arena_run new_char a rs = (ps, a')"
  shows "Arena_inv a' (live @ ps)"
  using assms
proof (induction rs arbitrary: a live ps)
  case (Cons r rs)
  then obtain p a1 qs where "Arena_serve new_char a r = (p, a1)"
      "Arena_run new_char a1 rs = (qs, a')" "ps = (p, request_size r) # qs"
    by (auto split: prod.splits)
  with Cons.IH [OF serve_inv [OF Cons.prems(1)]] show ?case
    by simp
qed simp

lemma run_aligned:
  assumes "Arena_inv a live" "Arena_run new_char a rs = (ps, a')" "i < length rs"
    "rs ! i = Aligned n"
  shows "fst (ps ! i) mod 8 = 0"
  using assms
proof (induction rs arbitrary: a live ps i)
  case (Cons r rs)
  then obtain p a1 qs where s: "Arena_serve new_char a r = (p, a1)"
      "Arena_run new_char a1 rs = (qs, a')" "ps = (p, request_size r) # qs"
    by (auto split: prod.splits)
  show ?case
  proof (cases i)
    case 0
    with Cons.prems s AllocateAligned_inv(2) [OF Cons.prems(1)] show ?thesis
      by auto
  next
    case (Suc j)
    with Cons.IH [OF serve_inv [OF Cons.prems(1) s(1)] s(2)] Cons.prems s(3) show ?thesis
      by simp
  qed
qed simp

end

text \<open>An allocator that satisfies the interface: the next multiple of 16 past every block.\<close>

definition bump_new :: new_char where
  "bump_new bs n = 16 * Suc (sum_list (map (\<lambda>b. fst b + snd b) bs))"

lemma bump_new_ge: "b \<in> set bs \<Longrightarrow> fst b + snd b \<le> bump_new bs n"
  by (induction bs) (auto simp: bump_new_def)

interpretation bump: heap_alloc bump_new
proof
  show "disjnt_ranges b (bump_new bs n, n)" if "b \<in> set bs" for bs n b
    using bump_new_ge [OF that, of n] by (auto simp: disjnt_ranges_def range_of_def)
  show "bump_new bs n mod 16 = 0" for bs n
    by (simp add: bump_new_def)
qed

section \<open>Properties\<close>

lemma Arena_run_sizes: "map snd (fst (Arena_run new_char a rs)) = map request_size rs"
  by (induction rs arbitrary: a) (auto split: prod.splits, metis fst_conv)

text \<open>C27: over any sequence of requests to a fresh arena, every request gets a range of its size,
  no two ranges overlap, aligned requests are 8-aligned, every range lies inside one block the
  arena owns, and \<open>MemoryUsage\<close> is the size of the blocks with one pointer for each.\<close>

theorem Arena_run_sound:
  assumes "heap_alloc new_char" and "Arena_run new_char mk_Arena rs = (ps, a)"
  shows "map snd ps = map request_size rs \<and> sorted_wrt disjnt_ranges ps
    \<and> (\<forall>i < length rs. \<forall>n. rs ! i = Aligned n \<longrightarrow> fst (ps ! i) mod 8 = 0)
    \<and> (\<forall>r \<in> set ps. in_block a r)
    \<and> Arena_MemoryUsage a = (\<Sum>b \<leftarrow> ar_blocks a. snd b + 8)"
proof -
  note inv = heap_alloc.run_inv [OF assms(1) Arena_inv_mk assms(2)]
  show ?thesis
    using inv Arena_run_sizes [of new_char mk_Arena rs] assms(2)
      heap_alloc.run_aligned [OF assms(1) Arena_inv_mk assms(2)]
    by (auto simp: Arena_inv_def Arena_MemoryUsage_def)
qed

text \<open>Three requests, of which the second gets a block of its own.\<close>

lemma Arena_run_sound_witness:
  "Arena_run bump_new mk_Arena [Plain 10, Aligned 5000, Aligned 30]
     = ([(16, 10), (65808, 5000), (32, 30)],
        \<lparr>ar_alloc_ptr = 62, ar_alloc_bytes_remaining = 4050, ar_blocks = [(16, 4096), (65808, 5000)],
         ar_memory_usage = 9112\<rparr>)
   \<and> sorted_wrt disjnt_ranges [(16, 10), (65808, 5000), (32, 30)]"
proof -
  have r: "Arena_run bump_new mk_Arena [Plain 10, Aligned 5000, Aligned 30]
     = ([(16, 10), (65808, 5000), (32, 30)],
        \<lparr>ar_alloc_ptr = 62, ar_alloc_bytes_remaining = 4050, ar_blocks = [(16, 4096), (65808, 5000)],
         ar_memory_usage = 9112\<rparr>)"
    by (simp add: Arena_Allocate_def Arena_AllocateAligned_def Arena_AllocateFallback_def
        Arena_AllocateNewBlock_def mk_Arena_def bump_new_def BlockSize_def Let_def)
  show ?thesis
    using r Arena_run_sound [OF bump.heap_alloc_axioms r] by blast
qed

end
