(* ===== verification/Memtable.thy ===== *)
theory Memtable
  imports Keys Arena "HOL-Library.Multiset"
begin

text \<open>
  The skip list package (src/src/util/skiplistpg.h, src/src/util/skiplistpg.cpp) and the
  memtable on top of it (src/src/db/memtable.h, src/src/db/memtable.cpp).

  The lock-free skip list itself (skiplist.h) is not part of the repository: the record
  \<open>skiplist_ops\<close> holds the calls the code makes, and every operation takes it as an argument.
  The locale \<open>skiplist_lib\<close> states what the code relies on: the list keeps every inserted node,
  in the order of the comparison function it was given, and \<open>skiplist_find_greater_or_equal\<close> is the
  first node that is not smaller.  \<open>list_skiplist\<close> is a concrete list that satisfies it.
\<close>

section \<open>The skip list\<close>

record node =
  nd_key :: InternalKey
  nd_val :: heap_string

text \<open>\<open>sl_nodes\<close> is the sequence \<open>skiplist_begin\<close>, \<open>skiplist_next\<close>, ... visits.\<close>

record 's skiplist_ops =
  sl_init :: 's
  sl_insert :: "node \<Rightarrow> 's \<Rightarrow> 's"
  sl_find_ge :: "node \<Rightarrow> 's \<Rightarrow> node option"
  sl_nodes :: "'s \<Rightarrow> node list"

text \<open>\<open>my_cmp\<close>, the comparison function the list is initialised with.\<close>

definition my_cmp :: "node \<Rightarrow> node \<Rightarrow> int option" where
  "my_cmp a b = cmp (nd_key a) (nd_key b)"

text \<open>The constructors of \<open>node\<close>: from an entry in memory, and from a key alone.\<close>

definition mk_node :: "bytes \<Rightarrow> node option" where
  "mk_node str = do {
     key \<leftarrow> SkiplistKey_Key str;
     val \<leftarrow> SkiplistKey_Val str;
     Some \<lparr>nd_key = key, nd_val = val\<rparr> }"

definition mk_key_node :: "InternalKey \<Rightarrow> node" where
  "mk_key_node key = \<lparr>nd_key = key, nd_val = \<lparr>hs_view = [], hs_past = []\<rparr>\<rparr>"

definition Skiplist_Insert :: "'s skiplist_ops \<Rightarrow> 's \<Rightarrow> bytes \<Rightarrow> 's option" where
  "Skiplist_Insert L table skiplistkv = do {
     p \<leftarrow> mk_node skiplistkv;
     Some (sl_insert L p table) }"

definition Skiplist_Equal :: "bytes \<Rightarrow> bytes \<Rightarrow> bool option" where
  "Skiplist_Equal a b = do {
     a1 \<leftarrow> SkiplistKey_Key a;
     b1 \<leftarrow> SkiplistKey_Key b;
     r \<leftarrow> cmp a1 b1;
     Some (r = 0) }"

definition Skiplist_SeekToFirst :: "'s skiplist_ops \<Rightarrow> 's \<Rightarrow> node option" where
  "Skiplist_SeekToFirst L table = (case sl_nodes L table of [] \<Rightarrow> None | n # _ \<Rightarrow> Some n)"

definition Skiplist_SeekToLast :: "'s skiplist_ops \<Rightarrow> 's \<Rightarrow> node option" where
  "Skiplist_SeekToLast L table = (case rev (sl_nodes L table) of [] \<Rightarrow> None | n # _ \<Rightarrow> Some n)"

text \<open>\<open>Some None\<close> is the null pointer: no node at or after \<open>key\<close>, or one of another user key.\<close>

definition Skiplist_Seek :: "'s skiplist_ops \<Rightarrow> 's \<Rightarrow> InternalKey \<Rightarrow> node option option" where
  "Skiplist_Seek L table key =
     (case sl_find_ge L (mk_key_node key) table of
        None \<Rightarrow> Some None
      | Some pp \<Rightarrow> do {
          u \<leftarrow> InternalKey_ExtractUserKey key;
          v \<leftarrow> InternalKey_ExtractUserKey (nd_key pp);
          Some (if view_compare u v \<noteq> 0 then None else Some pp) })"

definition Skiplist_GreaterEqual :: "'s skiplist_ops \<Rightarrow> 's \<Rightarrow> bytes \<Rightarrow> bool option" where
  "Skiplist_GreaterEqual L table a = do {
     p \<leftarrow> mk_node a;
     Some (sl_find_ge L p table \<noteq> None) }"

definition Skiplist_KeyIsAfterNode :: "bytes \<Rightarrow> node option \<Rightarrow> bool option" where
  "Skiplist_KeyIsAfterNode key n = do {
     p \<leftarrow> SkiplistKey_Key key;
     (case n of
        None \<Rightarrow> Some False
      | Some nd \<Rightarrow> do { r \<leftarrow> cmp (nd_key nd) p; Some (r < 0) }) }"

text \<open>
  \<open>Flushlevel0\<close> of the list, which nothing calls: both bounds come from the first node, and the loop waits for that node, which stays in the list, to
  become invalid.  A loop that ended would leave a function without its result: \<open>None\<close>, too.
\<close>

partial_function (option) Flushlevel0_wait :: "node list \<Rightarrow> node \<Rightarrow> FileMate \<Rightarrow> (State \<times> FileMate) option" where
  "Flushlevel0_wait ns beg meta = (if beg \<in> set ns then Flushlevel0_wait ns beg meta else None)"

definition Skiplist_Flushlevel0 :: "'s skiplist_ops \<Rightarrow> 's \<Rightarrow> FileMate \<Rightarrow> (State \<times> FileMate) option" where
  "Skiplist_Flushlevel0 L table meta = do {
     beg \<leftarrow> Skiplist_SeekToFirst L table;
     let meta1 = meta\<lparr>fm_smallest := snd (InternalKey_DecodeFrom (nd_key beg))\<rparr>;
     nend \<leftarrow> Skiplist_SeekToFirst L table;
     let meta2 = meta1\<lparr>fm_largest := snd (InternalKey_DecodeFrom (nd_key nend))\<rparr>;
     Flushlevel0_wait (sl_nodes L table) beg meta2 }"

lemma Flushlevel0_wait_never: "Flushlevel0_wait ns beg meta = None"
proof -
  have "False" if "Flushlevel0_wait ns beg meta = Some r" for r
    by (rule Flushlevel0_wait.raw_induct [OF _ that, of "\<lambda>_ _ _ _. False"]) (auto split: if_splits)
  then show ?thesis
    by (metis option.exhaust)
qed

section \<open>The memtable\<close>

record 's memtable =
  mt_arena :: Arena
  mt_table :: 's

definition mk_Memtable :: "'s skiplist_ops \<Rightarrow> 's memtable" where
  "mk_Memtable L = \<lparr>mt_arena = mk_Arena, mt_table = sl_init L\<rparr>"

definition Memtable_ApproximateMemoryUsage :: "'s memtable \<Rightarrow> u32" where
  "Memtable_ApproximateMemoryUsage m = of_nat (Arena_MemoryUsage (mt_arena m))"

text \<open>\<open>None\<close>: the entry does not fit the \<open>uint32_t\<close> length, and the copies overrun the buffer.\<close>

definition Memtable_Add ::
  "new_char \<Rightarrow> 's skiplist_ops \<Rightarrow> 's memtable \<Rightarrow> u64 \<Rightarrow> Valuetype \<Rightarrow> bytes \<Rightarrow> bytes
   \<Rightarrow> 's memtable option" where
  "Memtable_Add new_char L m seq type key value =
     (let key_size = (of_nat (length key) :: u32);
          val_size = (of_nat (length value) :: u32);
          internal_size = key_size + 8;
          encond_len = of_nat (VarintLength (ucast internal_size)) + internal_size
                       + of_nat (VarintLength (ucast val_size)) + val_size;
          (buf, arena) = Arena_AllocateAligned new_char (mt_arena m) (unat encond_len);
          entry = EncodeVarint32 internal_size @ take (unat key_size) key
                  @ EncodeFixed64 (push_bit 8 seq OR Valuetype_code type)
                  @ EncodeVarint32 val_size @ take (unat val_size) value
      in if unat encond_len < length entry then None
         else do {
           table \<leftarrow> Skiplist_Insert L (mt_table m) entry;
           Some \<lparr>mt_arena = arena, mt_table = table\<rparr> })"

text \<open>
  The result, with what the call leaves in \<open>*value\<close> and \<open>*s\<close>.  The bytes at
  \<open>found->val.data()\<close> are those of the string and those the copy in \<open>SkiplistKey::Val\<close> left behind
  its end.
\<close>

definition Memtable_Get ::
  "'s skiplist_ops \<Rightarrow> 's memtable \<Rightarrow> Lookey \<Rightarrow> bytes \<Rightarrow> State \<Rightarrow> (bool \<times> bytes \<times> State) option" where
  "Memtable_Get L m key value s = do {
     t \<leftarrow> Skiplist_Seek L (mt_table m) (Lookey_inter_key key);
     (case t of
        None \<Rightarrow> Some (False, value, s)
      | Some found \<Rightarrow> do {
          tag \<leftarrow> InternalKey_Getag (nd_key found);
          let data = hs_view (nd_val found) @ hs_past (nd_val found);
          if tag AND 15 = Valuetype_code kTypeValue then do {
            val_size \<leftarrow> getsize data;
            let src = drop (VarintLength (ucast val_size)) data;
            if length src < unat val_size then None
            else Some (True, take (unat val_size) src, s)
          } else if tag AND 15 = Valuetype_code kTypeDeletion then Some (True, value, knotfound)
          else Some (True, value, s) }) }"

section \<open>What the code needs of the skip list library\<close>

abbreviation nd_abs :: "node \<Rightarrow> skey" where
  "nd_abs n \<equiv> ikey_abs (nd_key n)"

definition nodes_ok :: "node list \<Rightarrow> bool" where
  "nodes_ok ns \<longleftrightarrow> (\<forall>n \<in> set ns. ikey_wf (nd_key n)) \<and> sorted (map nd_abs ns)"

locale skiplist_lib =
  fixes L :: "'s skiplist_ops"
  assumes init: "sl_nodes L (sl_init L) = []"
    and insert_mset: "nodes_ok (sl_nodes L s) \<Longrightarrow> ikey_wf (nd_key n) \<Longrightarrow>
      mset (sl_nodes L (sl_insert L n s)) = add_mset n (mset (sl_nodes L s))"
    and insert_sorted: "nodes_ok (sl_nodes L s) \<Longrightarrow> ikey_wf (nd_key n) \<Longrightarrow>
      sorted (map nd_abs (sl_nodes L (sl_insert L n s)))"
    and find_ge: "nodes_ok (sl_nodes L s) \<Longrightarrow> ikey_wf (nd_key n) \<Longrightarrow>
      sl_find_ge L n s = List.find (\<lambda>x. nd_abs n \<le> nd_abs x) (sl_nodes L s)"
begin

lemma insert_ok:
  assumes "nodes_ok (sl_nodes L s)" "ikey_wf (nd_key n)"
  shows "nodes_ok (sl_nodes L (sl_insert L n s))"
proof -
  have "set (sl_nodes L (sl_insert L n s)) = insert n (set (sl_nodes L s))"
    using insert_mset [OF assms] by (metis set_mset_add_mset_insert set_mset_mset)
  then show ?thesis
    using assms insert_sorted [OF assms] by (auto simp: nodes_ok_def)
qed

text \<open>\<open>Seek\<close> finds the newest node of the user key that is not newer than the target.\<close>

lemma Seek_spec:
  assumes ok: "nodes_ok (sl_nodes L s)" and key: "ikey_wf key"
  shows "\<exists>r. Skiplist_Seek L s key = Some r \<and>
    (case r of
       None \<Rightarrow> \<forall>n \<in> set (sl_nodes L s).
                 sk_user (nd_abs n) = sk_user (ikey_abs key) \<longrightarrow> \<not> ikey_abs key \<le> nd_abs n
     | Some n \<Rightarrow> n \<in> set (sl_nodes L s) \<and> sk_user (nd_abs n) = sk_user (ikey_abs key)
                 \<and> ikey_abs key \<le> nd_abs n
                 \<and> (\<forall>m \<in> set (sl_nodes L s). ikey_abs key \<le> nd_abs m \<longrightarrow> nd_abs n \<le> nd_abs m))"
proof -
  let ?ns = "sl_nodes L s"
  have srt: "sorted (map nd_abs ?ns)"
    using ok by (simp add: nodes_ok_def)
  have fg: "sl_find_ge L (mk_key_node key) s = List.find (\<lambda>x. ikey_abs key \<le> nd_abs x) ?ns"
    using find_ge [OF ok, of "mk_key_node key"] key by (simp add: mk_key_node_def)
  show ?thesis
  proof (cases "List.find (\<lambda>x. ikey_abs key \<le> nd_abs x) ?ns")
    case None
    then show ?thesis
      using fg find_sorted_None [of "ikey_abs key" nd_abs ?ns] by (auto simp: Skiplist_Seek_def)
  next
    case (Some n)
    note f = find_sorted_Some [OF srt Some]
    have n: "ikey_wf (nd_key n)"
      using ok f(1) by (auto simp: nodes_ok_def)
    have u: "InternalKey_ExtractUserKey key = Some (sk_user (ikey_abs key))"
        "InternalKey_ExtractUserKey (nd_key n) = Some (sk_user (nd_abs n))"
      using key n by (simp_all add: InternalKey_ExtractUserKey_def ikey_wf_def ikey_abs_def)
    show ?thesis
    proof (cases "sk_user (nd_abs n) = sk_user (ikey_abs key)")
      case True
      then show ?thesis
        using f by (auto simp: Skiplist_Seek_def fg Some u view_compare_less)
    next
      case False
      have "\<not> ikey_abs key \<le> nd_abs m"
        if "m \<in> set ?ns" "sk_user (nd_abs m) = sk_user (ikey_abs key)" for m
      proof
        assume "ikey_abs key \<le> nd_abs m"
        then have "nd_abs n \<le> nd_abs m"
          using f(3) that(1) by blast
        with f(2) that(2) False show False
          by (auto simp: less_eq_skey_def)
      qed
      moreover have "view_compare (sk_user (ikey_abs key)) (sk_user (nd_abs n)) \<noteq> 0"
        using False by (auto simp: view_compare_less)
      ultimately show ?thesis
        by (auto simp: Skiplist_Seek_def fg Some u)
    qed
  qed
qed

end

text \<open>A list kept sorted, new nodes before equal ones.\<close>

definition list_skiplist :: "node list skiplist_ops" where
  "list_skiplist = \<lparr>
     sl_init = [],
     sl_insert = insort_key nd_abs,
     sl_find_ge = (\<lambda>n s. List.find (\<lambda>x. nd_abs n \<le> nd_abs x) s),
     sl_nodes = (\<lambda>s. s)\<rparr>"

interpretation list_lib: skiplist_lib list_skiplist
  by unfold_locales (auto simp: list_skiplist_def nodes_ok_def sorted_insort_key)

section \<open>The memtable as a multiset of entries\<close>

record mentry =
  me_seq :: u64
  me_type :: Valuetype
  me_key :: bytes
  me_value :: bytes

text \<open>Entries the 32-bit lengths of the format can describe.\<close>

definition mentry_fits :: "mentry \<Rightarrow> bool" where
  "mentry_fits e \<longleftrightarrow>
     me_seq e \<le> kMaxSequenceNumber \<and> length (me_key e) + length (me_value e) + 18 < 2 ^ 32"

text \<open>Entries whose value \<open>SkiplistKey::Val\<close> can copy inside the memory of its string.\<close>

definition mentry_short :: "mentry \<Rightarrow> bool" where
  "mentry_short e \<longleftrightarrow> length (me_value e) < 128"

definition mentry_val :: "mentry \<Rightarrow> bytes" where
  "mentry_val e = EncodeVarint32 (of_nat (length (me_value e))) @ me_value e"

definition mentry_node :: "mentry \<Rightarrow> node" where
  "mentry_node e =
     \<lparr>nd_key = mk_InternalKey (me_key e) (me_seq e) (me_type e),
      nd_val = \<lparr>hs_view = take (length (me_value e)) (mentry_val e),
                hs_past = drop (length (me_value e)) (mentry_val e)\<rparr>\<rparr>"

definition Memtable_rep :: "'s skiplist_ops \<Rightarrow> 's memtable \<Rightarrow> mentry list \<Rightarrow> bool" where
  "Memtable_rep L m es \<longleftrightarrow>
     nodes_ok (sl_nodes L (mt_table m))
     \<and> mset (sl_nodes L (mt_table m)) = image_mset mentry_node (mset es)
     \<and> (\<forall>e \<in> set es. mentry_fits e)"

text \<open>The entry a read of \<open>k\<close> at sequence number \<open>seq\<close> is about.\<close>

definition newest :: "mentry list \<Rightarrow> bytes \<Rightarrow> u64 \<Rightarrow> mentry \<Rightarrow> bool" where
  "newest es k seq e \<longleftrightarrow>
     e \<in> set es \<and> me_key e = k \<and> me_seq e \<le> seq
     \<and> (\<forall>e' \<in> set es. me_key e' = k \<and> me_seq e' \<le> seq \<longrightarrow>
          me_seq e' < me_seq e
          \<or> (me_seq e' = me_seq e \<and> (me_type e' = kTypeValue \<longrightarrow> me_type e = kTypeValue)))"

fun read_entry :: "mentry \<Rightarrow> bytes \<Rightarrow> State \<Rightarrow> bool \<times> bytes \<times> State" where
  "read_entry e v s =
     (case me_type e of
        kTypeValue \<Rightarrow> (True, me_value e, s)
      | kTypeDeletion \<Rightarrow> (True, v, knotfound))"

lemma ikey_wf_mentry_node [simp]: "ikey_wf (nd_key (mentry_node e))"
  by (simp add: mentry_node_def)

lemma nd_abs_mentry_node [simp]:
  "nd_abs (mentry_node e) = SKey (me_key e) (InternalKey_parser (me_seq e) (me_type e))"
  by (simp add: mentry_node_def)

text \<open>The memory of a node's value: the length and the value, the end of it past the string.\<close>

lemma mentry_node_val [simp]:
  "hs_view (nd_val (mentry_node e)) @ hs_past (nd_val (mentry_node e)) = mentry_val e"
  by (simp add: mentry_node_def)

lemma mentry_val_read:
  "getsize (mentry_val e) = Some (of_nat (length (me_value e)))"
  "drop (VarintLength (ucast (of_nat (length (me_value e)) :: u32))) (mentry_val e) = me_value e"
  "length (mentry_val e) - VarintLength (ucast (of_nat (length (me_value e)) :: u32))
     = length (me_value e)"
  by (simp_all add: mentry_val_def flip: length_EncodeVarint32)

lemma mentry_node_tag [simp]:
  "InternalKey_Getag (nd_key (mentry_node e)) = Some (InternalKey_parser (me_seq e) (me_type e))"
  by (simp add: mentry_node_def)

lemma tag_le_iff:
  assumes "s \<le> kMaxSequenceNumber" "s' \<le> kMaxSequenceNumber"
  shows "InternalKey_parser s t \<le> InternalKey_parser s' t' \<longleftrightarrow>
    s < s' \<or> (s = s' \<and> (t = kTypeValue \<longrightarrow> t' = kTypeValue))"
proof -
  have "InternalKey_parser s t \<le> InternalKey_parser s' t' \<longleftrightarrow>
      256 * unat s + unat (Valuetype_code t) \<le> 256 * unat s' + unat (Valuetype_code t')"
    by (simp add: word_le_nat_alt unat_tag [OF assms(1)] unat_tag [OF assms(2)])
  also have "\<dots> \<longleftrightarrow> unat s < unat s' \<or>
      (unat s = unat s' \<and> (t = kTypeValue \<longrightarrow> t' = kTypeValue))"
    by (cases t; cases t') auto
  finally show ?thesis
    by (simp add: word_less_nat_alt word_unat_eq_iff)
qed

lemma entry_node:
  assumes "mentry_fits e"
  shows "mk_node (EncodeVarint32 (of_nat (length (me_key e) + 8)) @ me_key e
           @ EncodeFixed64 (InternalKey_parser (me_seq e) (me_type e)) @ mentry_val e)
       = (if mentry_short e then Some (mentry_node e) else None)"
proof -
  let ?n = "of_nat (length (me_key e) + 8) :: u32" and ?m = "of_nat (length (me_value e)) :: u32"
  let ?k = "mk_InternalKey (me_key e) (me_seq e) (me_type e)"
  have n: "unat ?n = length ?k"
    using assms unat_of_nat_len [of "length (me_key e) + 8"]
    by (simp add: mentry_fits_def del: of_nat_add)
  have m: "unat ?m = length (me_value e)"
    using assms unat_of_nat_len [of "length (me_value e)"] by (simp add: mentry_fits_def)
  have "SkiplistKey_Key (EncodeVarint32 ?n @ ?k @ mentry_val e) = Some ?k"
    by (rule SkiplistKey_Key_entry [OF n])
  moreover have "SkiplistKey_Val (EncodeVarint32 ?n @ ?k @ mentry_val e) =
      (if mentry_short e then Some (nd_val (mentry_node e)) else None)"
    using SkiplistKey_Val_memory [OF n m, of "[]"]
    by (simp add: mentry_val_def mentry_node_def mentry_short_def)
  ultimately show ?thesis
    by (simp add: mk_node_def mentry_node_def mk_InternalKey_def PutFixed64_def)
qed

text \<open>
  \<open>Add\<close> with both outcomes: an entry whose value has 128 bytes or more makes the constructor of the node
  write past the memory of its string.
\<close>

lemma Memtable_Add_cases:
  assumes "mentry_fits e"
  shows "Memtable_Add new_char L m (me_seq e) (me_type e) (me_key e) (me_value e) =
    (if \<not> mentry_short e then None else Some \<lparr>mt_arena = snd (Arena_AllocateAligned new_char (mt_arena m)
             (length (EncodeVarint32 (of_nat (length (me_key e) + 8))) + (length (me_key e) + 8)
              + length (mentry_val e))),
          mt_table = sl_insert L (mentry_node e) (mt_table m)\<rparr>)"
proof -
  let ?k = "me_key e" and ?v = "me_value e"
  let ?n = "of_nat (length ?k + 8) :: u32" and ?m = "of_nat (length ?v) :: u32"
  let ?total = "length (EncodeVarint32 ?n) + (length ?k + 8) + length (mentry_val e)"
  have b: "length (EncodeVarint32 ?n) \<le> 5" "length (EncodeVarint32 ?m) \<le> 5"
    by (rule length_EncodeVarint32_bounds)+
  have fits: "length ?k + length ?v + 18 < 2 ^ 32"
    using assms by (simp add: mentry_fits_def)
  then have u: "unat (of_nat (length ?k) :: u32) = length ?k" "unat ?m = length ?v"
    by (simp_all add: unat_of_nat_len)
  have n: "(of_nat (length ?k) :: u32) + 8 = ?n"
    by simp
  have len: "of_nat (VarintLength (ucast ?n)) + ?n + of_nat (VarintLength (ucast ?m)) + ?m
      = (of_nat ?total :: u32)"
    by (simp add: mentry_val_def flip: length_EncodeVarint32)
  have "unat (of_nat ?total :: u32) = ?total"
    using b fits by (intro unat_of_nat_len) (simp add: mentry_val_def)
  moreover have "length (EncodeVarint32 ?n @ ?k
      @ EncodeFixed64 (push_bit 8 (me_seq e) OR Valuetype_code (me_type e))
      @ EncodeVarint32 ?m @ ?v) = ?total"
    by (simp add: mentry_val_def)
  moreover have "Skiplist_Insert L (mt_table m) (EncodeVarint32 ?n @ ?k
      @ EncodeFixed64 (push_bit 8 (me_seq e) OR Valuetype_code (me_type e))
      @ EncodeVarint32 ?m @ ?v) =
        (if mentry_short e then Some (sl_insert L (mentry_node e) (mt_table m)) else None)"
    using entry_node [OF assms]
    by (simp add: Skiplist_Insert_def InternalKey_parser_def mentry_val_def del: of_nat_add)
  ultimately show ?thesis
    unfolding Memtable_Add_def Let_def n len u take_all [OF order_refl]
    by (simp split: prod.splits del: of_nat_add)
qed

lemma Memtable_Add_eq:
  assumes "mentry_fits e" "mentry_short e"
  shows "Memtable_Add new_char L m (me_seq e) (me_type e) (me_key e) (me_value e) =
    Some \<lparr>mt_arena = snd (Arena_AllocateAligned new_char (mt_arena m)
             (length (EncodeVarint32 (of_nat (length (me_key e) + 8))) + (length (me_key e) + 8)
              + length (mentry_val e))),
          mt_table = sl_insert L (mentry_node e) (mt_table m)\<rparr>"
  using Memtable_Add_cases [OF assms(1), of new_char L m] assms(2) by simp

context skiplist_lib begin

lemma rep_mk: "Memtable_rep L (mk_Memtable L) []"
  by (simp add: Memtable_rep_def mk_Memtable_def init nodes_ok_def)

lemma Add_rep:
  assumes "Memtable_rep L m es" "mentry_fits e" "mentry_short e"
  shows "\<exists>m'. Memtable_Add new_char L m (me_seq e) (me_type e) (me_key e) (me_value e) = Some m'
    \<and> Memtable_rep L m' (es @ [e])"
  using assms insert_ok [of "mt_table m" "mentry_node e"]
    insert_mset [of "mt_table m" "mentry_node e"]
  by (auto simp: Memtable_Add_eq Memtable_rep_def)

lemma Get_rep:
  assumes rep: "Memtable_rep L m es" and seq: "seq \<le> kMaxSequenceNumber"
  shows "\<exists>r. Memtable_Get L m (mk_Lookey k seq) v s = Some r \<and>
    (((\<exists>e. newest es k seq e \<and> r = read_entry e v s))
     \<or> ((\<forall>e \<in> set es. me_key e = k \<longrightarrow> \<not> me_seq e \<le> seq) \<and> r = (False, v, s)))"
proof -
  let ?ns = "sl_nodes L (mt_table m)" and ?key = "mk_InternalKey k seq kTypeValue"
  have nodes: "set ?ns = mentry_node ` set es"
    using rep unfolding Memtable_rep_def
    by (metis set_image_mset set_mset_mset)
  have fits: "mentry_fits e" if "e \<in> set es" for e
    using rep that by (auto simp: Memtable_rep_def)
  have ge: "ikey_abs ?key \<le> nd_abs (mentry_node e) \<longleftrightarrow> k < me_key e \<or> (k = me_key e \<and> me_seq e \<le> seq)"
    if "e \<in> set es" for e
    using tag_le_iff [of "me_seq e" seq "me_type e" kTypeValue] fits [OF that] seq
    by (auto simp: less_eq_skey_def mentry_fits_def)
  have le: "nd_abs (mentry_node e) \<le> nd_abs (mentry_node e') \<longleftrightarrow>
      me_key e < me_key e' \<or> (me_key e = me_key e' \<and> (me_seq e' < me_seq e
        \<or> (me_seq e' = me_seq e \<and> (me_type e' = kTypeValue \<longrightarrow> me_type e = kTypeValue))))"
    if "e \<in> set es" "e' \<in> set es" for e e'
    using tag_le_iff [of "me_seq e'" "me_seq e" "me_type e'" "me_type e"] fits [OF that(1)]
      fits [OF that(2)]
    by (auto simp: less_eq_skey_def mentry_fits_def)
  obtain t where t: "Skiplist_Seek L (mt_table m) ?key = Some t"
    and spec: "case t of
       None \<Rightarrow> \<forall>n \<in> set ?ns. sk_user (nd_abs n) = sk_user (ikey_abs ?key) \<longrightarrow> \<not> ikey_abs ?key \<le> nd_abs n
     | Some n \<Rightarrow> n \<in> set ?ns \<and> sk_user (nd_abs n) = sk_user (ikey_abs ?key)
                 \<and> ikey_abs ?key \<le> nd_abs n
                 \<and> (\<forall>m \<in> set ?ns. ikey_abs ?key \<le> nd_abs m \<longrightarrow> nd_abs n \<le> nd_abs m)"
    using Seek_spec [of "mt_table m" ?key] rep by (auto simp: Memtable_rep_def)
  show ?thesis
  proof (cases t)
    case None
    have "\<not> me_seq e \<le> seq" if "e \<in> set es" "me_key e = k" for e
      using spec None that ge [OF that(1)] by (auto simp: nodes)
    with None t show ?thesis
      by (auto simp: Memtable_Get_def)
  next
    case (Some n)
    then obtain e where e: "e \<in> set es" "n = mentry_node e" "me_key e = k"
      using spec nodes by auto
    have "newest es k seq e"
      using spec Some e ge [OF e(1)] ge le [OF e(1)] by (auto simp: newest_def nodes)
    moreover have "Memtable_Get L m (mk_Lookey k seq) v s = Some (read_entry e v s)"
      using t Some e fits [OF e(1)]
      by (cases "me_type e")
        (auto simp: Memtable_Get_def Let_def tag_and_15 mentry_val_read mentry_fits_def
          unat_of_nat_len)
    ultimately show ?thesis
      by blast
  qed
qed

end

section \<open>Properties\<close>

fun Memtable_Add_all ::
  "new_char \<Rightarrow> 's skiplist_ops \<Rightarrow> 's memtable \<Rightarrow> mentry list \<Rightarrow> 's memtable option" where
  "Memtable_Add_all new_char L m [] = Some m"
| "Memtable_Add_all new_char L m (e # es) = do {
     m' \<leftarrow> Memtable_Add new_char L m (me_seq e) (me_type e) (me_key e) (me_value e);
     Memtable_Add_all new_char L m' es }"

context skiplist_lib begin

lemma Add_all_rep:
  assumes "Memtable_rep L m es0" "\<forall>e \<in> set es. mentry_fits e" "\<forall>e \<in> set es. mentry_short e"
  shows "\<exists>m'. Memtable_Add_all new_char L m es = Some m' \<and> Memtable_rep L m' (es0 @ es)"
  using assms
proof (induction es arbitrary: m es0)
  case (Cons e es)
  obtain m1 where "Memtable_Add new_char L m (me_seq e) (me_type e) (me_key e) (me_value e) = Some m1"
      "Memtable_rep L m1 (es0 @ [e])"
    using Add_rep [OF Cons.prems(1), of e new_char] Cons.prems(2,3) by auto
  with Cons.IH [of m1 "es0 @ [e]"] Cons.prems(2,3) show ?case
    by simp
qed simp

end

text \<open>A sequence of \<open>Add\<close>s that returns had short values only.\<close>

lemma Add_all_short:
  assumes "Memtable_Add_all new_char L m es = Some m'" "\<forall>e \<in> set es. mentry_fits e"
  shows "\<forall>e \<in> set es. mentry_short e"
  using assms
  by (induction es arbitrary: m) (auto simp: Memtable_Add_cases split: bind_splits if_splits)

text \<open>C2: reading the memtable.  After any sequence of \<open>Add\<close>s of entries that fit the format and whose
  values have fewer than 128 bytes, \<open>Get\<close> of key \<open>k\<close> at sequence number \<open>seq\<close> answers from an entry of
  \<open>k\<close> that no visible entry of \<open>k\<close> is newer than: its value, or \<open>NotFound\<close> for a deletion; and it reports
  "not here" exactly when no entry of \<open>k\<close> is visible at \<open>seq\<close>.  The bound on the values is the code's:
  a longer value is copied past the memory of the node's string.\<close>

theorem Memtable_get_after_adds:
  assumes "skiplist_lib L" and "\<forall>e \<in> set es. mentry_fits e" and "\<forall>e \<in> set es. mentry_short e"
    and "seq \<le> kMaxSequenceNumber"
  shows "\<exists>m r. Memtable_Add_all new_char L (mk_Memtable L) es = Some m
    \<and> Memtable_Get L m (mk_Lookey k seq) v s = Some r
    \<and> ((\<exists>e. newest es k seq e \<and> r = read_entry e v s)
       \<or> ((\<forall>e \<in> set es. me_key e = k \<longrightarrow> seq < me_seq e) \<and> r = (False, v, s)))"
proof -
  obtain m where m: "Memtable_Add_all new_char L (mk_Memtable L) es = Some m" "Memtable_rep L m es"
    using skiplist_lib.Add_all_rep [OF assms(1) skiplist_lib.rep_mk [OF assms(1)] assms(2,3), of new_char]
    by auto
  with skiplist_lib.Get_rep [OF assms(1) m(2) assms(4), of k v s] show ?thesis
    by (auto simp: not_le)
qed

text \<open>Two versions and a deletion of one key, read at the sequence number of the second.\<close>

lemma Memtable_get_after_adds_witness:
  "\<exists>m. Memtable_Add_all bump_new list_skiplist (mk_Memtable list_skiplist)
         [\<lparr>me_seq = 1, me_type = kTypeValue, me_key = [107], me_value = [1]\<rparr>,
          \<lparr>me_seq = 2, me_type = kTypeValue, me_key = [107], me_value = [2, 2]\<rparr>,
          \<lparr>me_seq = 3, me_type = kTypeDeletion, me_key = [107], me_value = []\<rparr>] = Some m
     \<and> Memtable_Get list_skiplist m (mk_Lookey [107] 2) [] kok = Some (True, [2, 2], kok)"
proof -
  let ?es = "[\<lparr>me_seq = 1, me_type = kTypeValue, me_key = [107], me_value = [1]\<rparr>,
          \<lparr>me_seq = 2, me_type = kTypeValue, me_key = [107], me_value = [2, 2]\<rparr>,
          \<lparr>me_seq = 3, me_type = kTypeDeletion, me_key = [107], me_value = []\<rparr>]"
  have "\<forall>e \<in> set ?es. mentry_fits e" "\<forall>e \<in> set ?es. mentry_short e" "(2::u64) \<le> kMaxSequenceNumber"
    by (simp_all add: mentry_fits_def mentry_short_def kMaxSequenceNumber_def)
  from Memtable_get_after_adds [OF list_lib.skiplist_lib_axioms this, of bump_new "[107]" "[]" kok]
  show ?thesis
    by (auto simp: newest_def)
qed

end
