(* ===== verification/WriteBatch.thy ===== *)
theory WriteBatch
  imports Memtable
begin

text \<open>
  Write batches (src/src/db/writebatch.h, src/src/db/writebatch.cpp): a string \<open>mate\<close> of an
  8-byte sequence number, a 4-byte count and the operations, and its replay into a memtable.
\<close>

section \<open>The batch\<close>

definition Headsize :: nat where
  "Headsize = 12"

record WriteBatch =
  wb_mate :: bytes
  wb_seq :: u64

text \<open>The member \<open>seq\<close> is never initialised: \<open>seq0\<close> is whatever it holds.\<close>

definition WriteBatch_Clear :: "WriteBatch \<Rightarrow> WriteBatch" where
  "WriteBatch_Clear b = b\<lparr>wb_mate := replicate Headsize 0\<rparr>"

definition mk_WriteBatch :: "u64 \<Rightarrow> WriteBatch" where
  "mk_WriteBatch seq0 = WriteBatch_Clear \<lparr>wb_mate = [], wb_seq = seq0\<rparr>"

text \<open>\<open>int\<close> counts are kept in the 32 bits they are stored in.\<close>

definition WriteBatch_Count :: "WriteBatch \<Rightarrow> u32 option" where
  "WriteBatch_Count b = DecodeFixed32 (drop 8 (wb_mate b))"

definition WriteBatch_SetCount :: "WriteBatch \<Rightarrow> u32 \<Rightarrow> WriteBatch option" where
  "WriteBatch_SetCount b n =
     (if length (wb_mate b) < 12 then None
      else Some (b\<lparr>wb_mate := take 8 (wb_mate b) @ EncodeFixed32 n @ drop 12 (wb_mate b)\<rparr>))"

definition WriteBatch_Sequence :: "WriteBatch \<Rightarrow> u64 option" where
  "WriteBatch_Sequence b = DecodeFixed64 (wb_mate b)"

definition WriteBatch_SetSequence :: "WriteBatch \<Rightarrow> u64 \<Rightarrow> WriteBatch option" where
  "WriteBatch_SetSequence b seq =
     (if length (wb_mate b) < 8 then None
      else Some (b\<lparr>wb_mate := EncodeFixed64 seq @ drop 8 (wb_mate b)\<rparr>))"

definition WriteBatch_Contents :: "WriteBatch \<Rightarrow> bytes" where
  "WriteBatch_Contents b = wb_mate b"

definition WriteBatch_ByteSize :: "WriteBatch \<Rightarrow> u32" where
  "WriteBatch_ByteSize b = of_nat (length (wb_mate b))"

definition WriteBatch_SetContents :: "WriteBatch \<Rightarrow> bytes \<Rightarrow> WriteBatch" where
  "WriteBatch_SetContents b contents = b\<lparr>wb_mate := contents\<rparr>"

definition WriteBatch_Put :: "WriteBatch \<Rightarrow> bytes \<Rightarrow> bytes \<Rightarrow> WriteBatch option" where
  "WriteBatch_Put b key value = do {
     n \<leftarrow> WriteBatch_Count b;
     b1 \<leftarrow> WriteBatch_SetCount b (n + 1);
     let mate = wb_mate b1 @ [ucast (Valuetype_code kTypeValue)];
     Some (b1\<lparr>wb_mate := PutLengthPrefixedview (PutLengthPrefixedview mate key) value\<rparr>) }"

definition WriteBatch_Delete :: "WriteBatch \<Rightarrow> bytes \<Rightarrow> WriteBatch option" where
  "WriteBatch_Delete b key = do {
     n \<leftarrow> WriteBatch_Count b;
     b1 \<leftarrow> WriteBatch_SetCount b (n + 1);
     let mate = wb_mate b1 @ [ucast (Valuetype_code kTypeDeletion)];
     Some (b1\<lparr>wb_mate := PutLengthPrefixedview mate key\<rparr>) }"

text \<open>\<open>mate.append(const char*)\<close> copies up to the first zero byte.\<close>

definition WriteBatch_Append :: "WriteBatch \<Rightarrow> WriteBatch \<Rightarrow> WriteBatch option" where
  "WriteBatch_Append b source = do {
     n \<leftarrow> WriteBatch_Count source;
     n' \<leftarrow> WriteBatch_Count b;
     b1 \<leftarrow> WriteBatch_SetCount b (n + n');
     Some (b1\<lparr>wb_mate := wb_mate b1 @ takeWhile (\<lambda>c. c \<noteq> 0) (drop Headsize (wb_mate source))\<rparr>) }"

section \<open>Replay\<close>

text \<open>
  The loop of \<open>InsertInto\<close> over the unread bytes \<open>ptr\<close>: the status, the memtable, the batch
  member \<open>seq\<close> and the number of operations read.
\<close>

function InsertInto_loop ::
  "new_char \<Rightarrow> 's skiplist_ops \<Rightarrow> u64 \<Rightarrow> bytes \<Rightarrow> 's memtable \<Rightarrow> u64 \<Rightarrow> u32
   \<Rightarrow> (State \<times> 's memtable \<times> u64 \<times> u32) option" where
  "InsertInto_loop new_char L now_seq ptr mem seq now_cnt =
     (case ptr of
        [] \<Rightarrow> Some (kok, mem, seq, now_cnt)
      | type # ptr1 \<Rightarrow>
          if type = ucast (Valuetype_code kTypeValue) then
            (case GetLengthPrefixedview ptr1 of
               None \<Rightarrow> Some (kcorruption, mem, seq, now_cnt + 1)
             | Some (key, ptr2) \<Rightarrow>
                 (case GetLengthPrefixedview ptr2 of
                    None \<Rightarrow> Some (kcorruption, mem, seq, now_cnt + 1)
                  | Some (value, ptr3) \<Rightarrow>
                      (case Memtable_Add new_char L mem now_seq kTypeValue key value of
                         None \<Rightarrow> None
                       | Some mem' \<Rightarrow>
                           InsertInto_loop new_char L now_seq ptr3 mem' (seq + 1) (now_cnt + 1))))
          else if type = ucast (Valuetype_code kTypeDeletion) then
            (case GetLengthPrefixedview ptr1 of
               None \<Rightarrow> Some (kcorruption, mem, seq, now_cnt + 1)
             | Some (key, ptr2) \<Rightarrow>
                 (case Memtable_Add new_char L mem now_seq kTypeDeletion key [] of
                    None \<Rightarrow> None
                  | Some mem' \<Rightarrow>
                      InsertInto_loop new_char L now_seq ptr2 mem' (seq + 1) (now_cnt + 1)))
          else Some (kcorruption, mem, seq, now_cnt + 1))"
  by pat_completeness auto
termination
  by (relation "measure (\<lambda>(new_char, L, now_seq, ptr, mem, seq, now_cnt). length ptr)")
    (auto dest!: GetLengthPrefixedview_consumes)

declare InsertInto_loop.simps [simp del]

definition WriteBatch_InsertInto ::
  "new_char \<Rightarrow> 's skiplist_ops \<Rightarrow> WriteBatch \<Rightarrow> 's memtable
   \<Rightarrow> (State \<times> WriteBatch \<times> 's memtable) option" where
  "WriteBatch_InsertInto new_char L b memtable =
     (if length (wb_mate b) < Headsize then None
      else do {
        now_seq \<leftarrow> WriteBatch_Sequence b;
        (st, mem, seq, now_cnt) \<leftarrow>
          InsertInto_loop new_char L now_seq (drop Headsize (wb_mate b)) memtable (wb_seq b) 0;
        let b' = b\<lparr>wb_seq := seq\<rparr>;
        if State_ok st then do {
          n \<leftarrow> WriteBatch_Count b;
          Some (if now_cnt \<noteq> n then kcorruption else kok, b', mem)
        } else Some (st, b', mem) })"

section \<open>The operations a batch holds\<close>

datatype wop = WPut bytes bytes | WDel bytes

fun WriteBatch_op :: "WriteBatch \<Rightarrow> wop \<Rightarrow> WriteBatch option" where
  "WriteBatch_op b (WPut k v) = WriteBatch_Put b k v"
| "WriteBatch_op b (WDel k) = WriteBatch_Delete b k"

fun WriteBatch_ops :: "WriteBatch \<Rightarrow> wop list \<Rightarrow> WriteBatch option" where
  "WriteBatch_ops b [] = Some b"
| "WriteBatch_ops b (x # xs) = do { b' \<leftarrow> WriteBatch_op b x; WriteBatch_ops b' xs }"

fun wop_encode :: "wop \<Rightarrow> bytes" where
  "wop_encode (WPut k v) = 1 # EncodeLengthPrefixed k @ EncodeLengthPrefixed v"
| "wop_encode (WDel k) = 0 # EncodeLengthPrefixed k"

fun wop_entry :: "u64 \<Rightarrow> wop \<Rightarrow> mentry" where
  "wop_entry s (WPut k v) = \<lparr>me_seq = s, me_type = kTypeValue, me_key = k, me_value = v\<rparr>"
| "wop_entry s (WDel k) = \<lparr>me_seq = s, me_type = kTypeDeletion, me_key = k, me_value = []\<rparr>"

text \<open>A batch in memory: the header and the encoded operations.\<close>

definition wb_image :: "u64 \<Rightarrow> wop list \<Rightarrow> bytes" where
  "wb_image s xs =
     EncodeFixed64 s @ EncodeFixed32 (of_nat (length xs)) @ concat (map wop_encode xs)"

lemma wb_image_parts:
  "take 8 (wb_image s xs) = EncodeFixed64 s"
  "drop 8 (wb_image s xs) = EncodeFixed32 (of_nat (length xs)) @ concat (map wop_encode xs)"
  "drop 12 (wb_image s xs) = concat (map wop_encode xs)"
  "12 \<le> length (wb_image s xs)"
  by (simp_all add: wb_image_def)

lemma mk_WriteBatch_image: "wb_mate (mk_WriteBatch q) = wb_image 0 []"
  by (simp add: mk_WriteBatch_def WriteBatch_Clear_def wb_image_def EncodeFixed64_def
      EncodeFixed32_def Headsize_def numeral_eq_Suc)

lemma WriteBatch_op_image:
  assumes "wb_mate b = wb_image s xs"
  shows "WriteBatch_op b x = Some (b\<lparr>wb_mate := wb_image s (xs @ [x])\<rparr>)"
  using assms
  by (cases x)
    (simp_all add: WriteBatch_Put_def WriteBatch_Delete_def WriteBatch_Count_def
      WriteBatch_SetCount_def wb_image_parts PutLengthPrefixedview_append wb_image_def Let_def
      add.commute)

lemma WriteBatch_ops_image:
  assumes "wb_mate b = wb_image s xs"
  shows "WriteBatch_ops b ys = Some (b\<lparr>wb_mate := wb_image s (xs @ ys)\<rparr>)"
  using assms
proof (induction ys arbitrary: b xs)
  case (Cons y ys)
  then show ?case
    using Cons.IH [of "b\<lparr>wb_mate := wb_image s (xs @ [y])\<rparr>" "xs @ [y]"]
    by (simp add: WriteBatch_op_image)
qed simp

section \<open>Replay of a batch\<close>

lemma InsertInto_loop_encode:
  assumes "\<forall>x \<in> set xs. mentry_fits (wop_entry s x)"
  shows "InsertInto_loop new_char L s (concat (map wop_encode xs)) mem q c =
    map_option (\<lambda>m. (kok, m, q + of_nat (length xs), c + of_nat (length xs)))
      (Memtable_Add_all new_char L mem (map (wop_entry s) xs))"
  using assms
proof (induction xs arbitrary: mem q c)
  case Nil
  then show ?case
    by (simp add: InsertInto_loop.simps)
next
  case (Cons x xs)
  show ?case
  proof (cases x)
    case (WPut k v)
    with Cons.prems have "length k < 2 ^ 32" "length v < 2 ^ 32"
      by (simp_all add: mentry_fits_def)
    with WPut show ?thesis
      using Cons.IH Cons.prems
      by (subst InsertInto_loop.simps)
        (auto simp: algebra_simps split: option.splits)
  next
    case (WDel k)
    with Cons.prems have "length k < 2 ^ 32"
      by (simp add: mentry_fits_def)
    with WDel show ?thesis
      using Cons.IH Cons.prems
      by (subst InsertInto_loop.simps)
        (auto simp: algebra_simps split: option.splits)
  qed
qed

lemma InsertInto_image:
  assumes "\<forall>x \<in> set xs. mentry_fits (wop_entry s x)" "wb_mate b = wb_image s xs"
  shows "WriteBatch_InsertInto new_char L b mem =
    map_option (\<lambda>m. (kok, b\<lparr>wb_seq := wb_seq b + of_nat (length xs)\<rparr>, m))
      (Memtable_Add_all new_char L mem (map (wop_entry s) xs))"
  using assms
  by (cases "Memtable_Add_all new_char L mem (map (wop_entry s) xs)")
    (simp_all add: WriteBatch_InsertInto_def WriteBatch_Sequence_def WriteBatch_Count_def
      Headsize_def wb_image_parts InsertInto_loop_encode Let_def
      DecodeFixed64_def wb_image_def)

lemma SetSequence_image:
  assumes "wb_mate b = wb_image s xs"
  shows "WriteBatch_SetSequence b s' = Some (b\<lparr>wb_mate := wb_image s' xs\<rparr>)"
  using assms by (simp add: WriteBatch_SetSequence_def wb_image_def)

lemma Count_image:
  assumes "wb_mate b = wb_image s xs"
  shows "WriteBatch_Count b = Some (of_nat (length xs))"
  using assms by (simp add: WriteBatch_Count_def wb_image_parts)

text \<open>Appending is right only where the appended operations hold no zero byte.\<close>

lemma Append_image:
  assumes "wb_mate b = wb_image s xs" "wb_mate b' = wb_image s' ys"
    "0 \<notin> set (concat (map wop_encode ys))"
  shows "WriteBatch_Append b b' = Some (b\<lparr>wb_mate := wb_image s (xs @ ys)\<rparr>)"
proof -
  have "takeWhile (\<lambda>c. c \<noteq> 0) (concat (map wop_encode ys)) = concat (map wop_encode ys)"
    using assms(3) by (auto simp: takeWhile_eq_all_conv)
  then show ?thesis
    using assms(1,2)
    by (simp add: WriteBatch_Append_def Count_image WriteBatch_SetCount_def wb_image_parts
        Headsize_def wb_image_def add.commute)
qed

text \<open>A batch that starts with a deletion appends nothing but still adds to the count.\<close>

lemma Append_deletion:
  assumes "wb_mate b = wb_image s xs" "wb_mate b' = wb_image s' (WDel k # ys)"
  shows "WriteBatch_Append b b' =
    Some (b\<lparr>wb_mate := EncodeFixed64 s @ EncodeFixed32 (of_nat (length xs + Suc (length ys)))
             @ concat (map wop_encode xs)\<rparr>)"
proof -
  have "WriteBatch_Count b' = Some (of_nat (Suc (length ys)))"
    using Count_image [OF assms(2)] by simp
  moreover have "takeWhile (\<lambda>c. c \<noteq> 0) (drop 12 (wb_mate b')) = []"
    by (simp add: assms(2) wb_image_parts)
  moreover note Count_image [OF assms(1)]
  ultimately show ?thesis
    using assms(1)
    by (simp add: WriteBatch_Append_def WriteBatch_SetCount_def Headsize_def wb_image_def
        algebra_simps)
qed

lemma InsertInto_wrong_count:
  assumes "\<forall>x \<in> set xs. mentry_fits (wop_entry s x)"
    and "wb_mate b = EncodeFixed64 s @ EncodeFixed32 n @ concat (map wop_encode xs)"
    and "n \<noteq> of_nat (length xs)"
  shows "WriteBatch_InsertInto new_char L b mem =
    map_option (\<lambda>m. (kcorruption, b\<lparr>wb_seq := wb_seq b + of_nat (length xs)\<rparr>, m))
      (Memtable_Add_all new_char L mem (map (wop_entry s) xs))"
  using assms
  by (cases "Memtable_Add_all new_char L mem (map (wop_entry s) xs)")
    (simp_all add: WriteBatch_InsertInto_def WriteBatch_Sequence_def WriteBatch_Count_def
      Headsize_def InsertInto_loop_encode Let_def DecodeFixed64_def)

section \<open>Properties\<close>

text \<open>C3: a batch built by \<open>Put\<close>s and \<open>Delete\<close>s and given a sequence number replays them into a
  memtable one by one, in order, all under that one sequence number, and reports success.\<close>

theorem WriteBatch_roundtrip:
  assumes "\<forall>x \<in> set xs. mentry_fits (wop_entry s x)"
  shows "\<exists>b b'. WriteBatch_ops (mk_WriteBatch q) xs = Some b \<and> WriteBatch_SetSequence b s = Some b'
    \<and> WriteBatch_Count b' = Some (of_nat (length xs))
    \<and> WriteBatch_InsertInto new_char L b' mem =
        map_option (\<lambda>m. (kok, b'\<lparr>wb_seq := wb_seq b' + of_nat (length xs)\<rparr>, m))
          (Memtable_Add_all new_char L mem (map (wop_entry s) xs))"
  using assms
  by (simp add: WriteBatch_ops_image [OF mk_WriteBatch_image] SetSequence_image
      Count_image InsertInto_image)

lemma WriteBatch_roundtrip_witness:
  "\<exists>b b'. WriteBatch_ops (mk_WriteBatch 0) [WPut [1] [2, 3], WDel [4]] = Some b
    \<and> WriteBatch_SetSequence b 7 = Some b'
    \<and> WriteBatch_Count b' = Some 2
    \<and> WriteBatch_InsertInto bump_new list_skiplist b' (mk_Memtable list_skiplist) =
        map_option (\<lambda>m. (kok, b'\<lparr>wb_seq := wb_seq b' + 2\<rparr>, m))
          (Memtable_Add_all bump_new list_skiplist (mk_Memtable list_skiplist)
             [\<lparr>me_seq = 7, me_type = kTypeValue, me_key = [1], me_value = [2, 3]\<rparr>,
              \<lparr>me_seq = 7, me_type = kTypeDeletion, me_key = [4], me_value = []\<rparr>])"
proof -
  have "\<forall>x \<in> set [WPut [1] [2, 3], WDel [4]]. mentry_fits (wop_entry 7 x)"
    by (simp add: mentry_fits_def kMaxSequenceNumber_def)
  from WriteBatch_roundtrip [OF this, of 0 bump_new list_skiplist "mk_Memtable list_skiplist"]
  show ?thesis
    by simp
qed

text \<open>C38: the group commit appends batches with \<open>std::string::append(const char*)\<close>, which stops at
  a zero byte, and a deletion starts with one.  So appending a batch that starts with a deletion
  loses every operation of it but counts them: the replay of the grown batch inserts only the first
  batch and reports corruption.\<close>

theorem Append_deletion_corrupts:
  assumes "\<forall>x \<in> set xs. mentry_fits (wop_entry s x)"
    and "wb_mate b = wb_image s xs" and "wb_mate b' = wb_image s' (WDel k # ys)"
    and "length ys < 2 ^ 32 - 1"
  shows "\<exists>c. WriteBatch_Append b b' = Some c
    \<and> WriteBatch_InsertInto new_char L c mem =
        map_option (\<lambda>m. (kcorruption, c\<lparr>wb_seq := wb_seq c + of_nat (length xs)\<rparr>, m))
          (Memtable_Add_all new_char L mem (map (wop_entry s) xs))"
proof -
  have "unat (of_nat (Suc (length ys)) :: u32) = Suc (length ys)"
    using assms(4) by (intro unat_of_nat_len) simp
  then have "(of_nat (Suc (length ys)) :: u32) \<noteq> 0"
    by (metis nat.distinct(1) unat_0)
  then have "(of_nat (length xs + Suc (length ys)) :: u32) \<noteq> of_nat (length xs)"
    by (simp add: add.commute add.left_commute)
  note count = this
  show ?thesis
    by (rule exI, rule conjI, rule Append_deletion [OF assms(2,3)],
        rule InsertInto_wrong_count [OF assms(1) _ count]) simp
qed

lemma Append_deletion_corrupts_witness:
  "\<exists>c. WriteBatch_Append \<lparr>wb_mate = wb_image 5 [WPut [1] [2]], wb_seq = 0\<rparr>
          \<lparr>wb_mate = wb_image 0 [WDel [1]], wb_seq = 0\<rparr> = Some c
    \<and> WriteBatch_InsertInto bump_new list_skiplist c (mk_Memtable list_skiplist) =
        map_option (\<lambda>m. (kcorruption, c\<lparr>wb_seq := wb_seq c + 1\<rparr>, m))
          (Memtable_Add_all bump_new list_skiplist (mk_Memtable list_skiplist)
             [\<lparr>me_seq = 5, me_type = kTypeValue, me_key = [1], me_value = [2]\<rparr>])"
proof -
  have "\<forall>x \<in> set [WPut [1] [2]]. mentry_fits (wop_entry 5 x)"
    by (simp add: mentry_fits_def kMaxSequenceNumber_def)
  from Append_deletion_corrupts [OF this, of "\<lparr>wb_mate = wb_image 5 [WPut [1] [2]], wb_seq = 0\<rparr>"
      "\<lparr>wb_mate = wb_image 0 [WDel [1]], wb_seq = 0\<rparr>" 0 "[1]" "[]" bump_new list_skiplist
      "mk_Memtable list_skiplist"]
  show ?thesis
    by simp
qed

end
