(* ===== verification/Bloom.thy ===== *)
theory Bloom
  imports Coding
begin

text \<open>
  The Bloom filter of src/src/util/bloom.h and src/src/util/bloom.cpp.

  \<open>std::hash<std::string_view>\<close> has no specified value: it is the parameter \<open>hash\<close>, any function
  of the bytes.  A filter is the string \<open>array\<close> of bits followed by one byte, the number of probes.
\<close>

section \<open>The filter\<close>

record BloomFilter =
  bf_bits_key :: nat
  bf_hash_size :: nat

text \<open>
  \<open>static_cast<size_t>(bits * 0.69)\<close>, cut to 1..30.  The rounding of the floating-point product can
  matter only where \<open>bits * 69 / 100\<close> is a whole number, from \<open>bits = 100\<close> on, and is cut to 30 there.
  \<open>bits\<close> is not negative, and \<open>bits_key * n\<close> fits a \<open>size_t\<close>: it is the size of a string in memory.
\<close>

definition mk_BloomFilter :: "nat \<Rightarrow> BloomFilter" where
  "mk_BloomFilter bits =
     (let h = bits * 69 div 100
      in \<lparr>bf_bits_key = bits, bf_hash_size = (if h < 1 then 1 else if 30 < h then 30 else h)\<rparr>)"

definition BloomHash :: "(bytes \<Rightarrow> u64) \<Rightarrow> bytes \<Rightarrow> u32" where
  "BloomHash hash key = ucast (hash key)"

text \<open>\<open>array[bitpos / 8] |= (1 << (bitpos % 8))\<close> on the array that starts at \<open>base\<close>.\<close>

definition set_filter_bit :: "nat \<Rightarrow> nat \<Rightarrow> bytes \<Rightarrow> bytes" where
  "set_filter_bit base bitpos arr =
     arr[base + bitpos div 8 := arr ! (base + bitpos div 8) OR push_bit (bitpos mod 8) 1]"

fun create_probes :: "nat \<Rightarrow> nat \<Rightarrow> nat \<Rightarrow> u32 \<Rightarrow> u32 \<Rightarrow> bytes \<Rightarrow> bytes" where
  "create_probes 0 base bits h delta arr = arr"
| "create_probes (Suc j) base bits h delta arr =
     create_probes j base bits (h + delta) delta (set_filter_bit base (unat h mod bits) arr)"

definition create_key :: "BloomFilter \<Rightarrow> (bytes \<Rightarrow> u64) \<Rightarrow> nat \<Rightarrow> nat \<Rightarrow> bytes \<Rightarrow> bytes \<Rightarrow> bytes" where
  "create_key F hash base bits key arr =
     (let h = BloomHash hash key;
          delta = drop_bit 17 h OR push_bit 15 h
      in create_probes (bf_hash_size F) base bits h delta arr)"

definition CreateFiler :: "BloomFilter \<Rightarrow> (bytes \<Rightarrow> u64) \<Rightarrow> bytes list \<Rightarrow> bytes \<Rightarrow> bytes" where
  "CreateFiler F hash key flt =
     (let bits0 = bf_bits_key F * length key;
          bits1 = (if bits0 < 64 then 64 else bits0);
          nbytes = (bits1 + 7) div 8;
          bits = nbytes * 8;
          init_size = length flt;
          filter1 = (flt @ replicate nbytes 0) @ [of_nat (bf_hash_size F)]
      in fold (create_key F hash init_size bits) key filter1)"

fun match_probes :: "nat \<Rightarrow> nat \<Rightarrow> u32 \<Rightarrow> u32 \<Rightarrow> bytes \<Rightarrow> bool" where
  "match_probes 0 bits h delta arr = True"
| "match_probes (Suc j) bits h delta arr =
     (let bitpos = unat h mod bits
      in if arr ! (bitpos div 8) AND push_bit (bitpos mod 8) 1 = 0 then False
         else match_probes j bits (h + delta) delta arr)"

definition BloomFilter_KeyMayMatch :: "(bytes \<Rightarrow> u64) \<Rightarrow> bytes \<Rightarrow> bytes \<Rightarrow> bool" where
  "BloomFilter_KeyMayMatch hash key flt =
     (let len = length flt
      in if len < 2 then False
         else
           (let bits = (len - 1) * 8;
                hash_size = unat (flt ! (len - 1))
            in if 30 < hash_size then True
               else
                 (let h = BloomHash hash key;
                      delta = drop_bit 17 h OR push_bit 15 h
                  in match_probes hash_size bits h delta flt)))"

section \<open>Bits of the array\<close>

definition filter_bit :: "nat \<Rightarrow> bytes \<Rightarrow> nat \<Rightarrow> bool" where
  "filter_bit base arr p \<longleftrightarrow> bit (arr ! (base + p div 8)) (p mod 8)"

fun probes :: "nat \<Rightarrow> nat \<Rightarrow> u32 \<Rightarrow> u32 \<Rightarrow> nat list" where
  "probes 0 bits h delta = []"
| "probes (Suc j) bits h delta = unat h mod bits # probes j bits (h + delta) delta"

definition key_probes :: "nat \<Rightarrow> (bytes \<Rightarrow> u64) \<Rightarrow> nat \<Rightarrow> bytes \<Rightarrow> nat list" where
  "key_probes n hash bits key =
     (let h = BloomHash hash key in probes n bits h (drop_bit 17 h OR push_bit 15 h))"

lemma probes_bound: "0 < bits \<Longrightarrow> p \<in> set (probes n bits h d) \<Longrightarrow> p < bits"
  by (induction n arbitrary: h) auto

lemma create_probes_fold:
  "create_probes n base bits h d arr = fold (set_filter_bit base) (probes n bits h d) arr"
  by (induction n arbitrary: h arr) auto

lemma create_key_fold:
  "create_key F hash base bits key arr =
     fold (set_filter_bit base) (key_probes (bf_hash_size F) hash bits key) arr"
  by (simp add: create_key_def key_probes_def Let_def create_probes_fold)

lemma length_fold_set [simp]: "length (fold (set_filter_bit base) ps arr) = length arr"
  by (induction ps arbitrary: arr) (simp_all add: set_filter_bit_def)

lemma and_bit_zero: "(b::byte) AND 2 ^ k = 0 \<longleftrightarrow> \<not> bit b k"
  by (simp add: and_exp_eq_0_iff_not_bit)

lemma match_probes_all:
  "match_probes n bits h d arr \<longleftrightarrow> (\<forall>p \<in> set (probes n bits h d). filter_bit 0 arr p)"
  by (induction n arbitrary: h) (auto simp: Let_def and_bit_zero filter_bit_def)

lemma filter_bit_set:
  assumes "base + q div 8 < length arr"
  shows "filter_bit base (set_filter_bit base q arr) p \<longleftrightarrow> filter_bit base arr p \<or> p = q"
proof -
  have "p = q" if "p div 8 = q div 8" "p mod 8 = q mod 8"
    using that by (metis div_mult_mod_eq)
  moreover have "p mod 8 < 8"
    by simp
  ultimately show ?thesis
    using assms
    by (auto simp: filter_bit_def set_filter_bit_def nth_list_update bit_or_iff bit_push_bit_iff
        bit_1_iff simp del: push_bit_of_1)
qed

lemma filter_bit_fold:
  assumes "\<forall>q \<in> set ps. base + q div 8 < length arr"
  shows "filter_bit base (fold (set_filter_bit base) ps arr) p \<longleftrightarrow>
    filter_bit base arr p \<or> p \<in> set ps"
  using assms
proof (induction ps arbitrary: arr)
  case (Cons q ps)
  have "length (set_filter_bit base q arr) = length arr"
    by (simp add: set_filter_bit_def)
  then show ?case
    using Cons by (auto simp: filter_bit_set)
qed simp

section \<open>No false negatives\<close>

text \<open>The number of bits of a filter over \<open>n\<close> keys.\<close>

definition filter_bytes :: "BloomFilter \<Rightarrow> nat \<Rightarrow> nat" where
  "filter_bytes F n =
     ((if bf_bits_key F * n < 64 then 64 else bf_bits_key F * n) + 7) div 8"

lemma filter_bytes_ge_8: "8 \<le> filter_bytes F n"
proof -
  have "(64 + 7) div 8 \<le> ((if bf_bits_key F * n < 64 then 64 else bf_bits_key F * n) + 7) div 8"
    by (rule div_le_mono) simp
  then show ?thesis
    by (simp add: filter_bytes_def)
qed

lemma fold_create_key:
  "fold (create_key F hash base bits) ks arr =
     fold (set_filter_bit base) (concat (map (key_probes (bf_hash_size F) hash bits) ks)) arr"
  by (induction ks arbitrary: arr) (simp_all add: create_key_fold)

lemma CreateFiler_fold:
  "CreateFiler F hash ks flt =
     fold (set_filter_bit (length flt))
       (concat (map (key_probes (bf_hash_size F) hash (8 * filter_bytes F (length ks))) ks))
       (flt @ replicate (filter_bytes F (length ks)) 0 @ [of_nat (bf_hash_size F)])"
  by (simp add: CreateFiler_def Let_def fold_create_key filter_bytes_def mult.commute)

lemma key_probes_bound:
  "0 < bits \<Longrightarrow> p \<in> set (key_probes n hash bits k) \<Longrightarrow> p < bits"
  by (auto simp: key_probes_def Let_def probes_bound)

text \<open>Setting a bit of the array leaves the bytes before it alone.\<close>

lemma fold_set_prefix:
  "fold (set_filter_bit (length flt)) ps (flt @ arr) = flt @ fold (set_filter_bit 0) ps arr"
proof (induction ps arbitrary: arr)
  case (Cons p ps)
  have "set_filter_bit (length flt) p (flt @ arr) = flt @ set_filter_bit 0 p arr"
    by (simp add: set_filter_bit_def list_update_append)
  then show ?case
    using Cons by simp
qed simp

lemma CreateFiler_append: "CreateFiler F hash ks flt = flt @ CreateFiler F hash ks []"
  by (simp add: CreateFiler_fold fold_set_prefix)

lemma length_CreateFiler [len_simps]:
  "length (CreateFiler F hash ks []) = filter_bytes F (length ks) + 1"
  by (simp add: CreateFiler_fold)

text \<open>The probe count byte survives: bit positions stay below it.\<close>

lemma fold_set_last:
  assumes "\<forall>q \<in> set ps. q div 8 < length arr"
  shows "fold (set_filter_bit 0) ps (arr @ [c]) = fold (set_filter_bit 0) ps arr @ [c]"
  using assms
proof (induction ps arbitrary: arr)
  case (Cons p ps)
  have "set_filter_bit 0 p (arr @ [c]) = set_filter_bit 0 p arr @ [c]"
    using Cons.prems by (simp add: set_filter_bit_def list_update_append nth_append)
  moreover have "length (set_filter_bit 0 p arr) = length arr"
    by (simp add: set_filter_bit_def)
  ultimately show ?case
    using Cons by simp
qed simp

lemma CreateFiler_match:
  assumes n: "bf_hash_size F \<le> 30"
  shows "BloomFilter_KeyMayMatch hash k (CreateFiler F hash ks []) \<longleftrightarrow>
    set (key_probes (bf_hash_size F) hash (8 * filter_bytes F (length ks)) k)
      \<subseteq> (\<Union>x \<in> set ks. set (key_probes (bf_hash_size F) hash (8 * filter_bytes F (length ks)) x))"
proof -
  let ?nb = "filter_bytes F (length ks)" and ?n = "bf_hash_size F"
  let ?pr = "key_probes ?n hash (8 * ?nb)"
  let ?ps = "concat (map ?pr ks)"
  let ?arr = "fold (set_filter_bit 0) ?ps (replicate ?nb 0)"
  have pos: "0 < 8 * ?nb"
    using filter_bytes_ge_8 [of F "length ks"] by simp
  have b: "q div 8 < ?nb" if "q \<in> set (?pr x)" for q x
    using key_probes_bound [OF pos that] by (simp add: less_mult_imp_div_less mult.commute)
  have c: "CreateFiler F hash ks [] = ?arr @ [of_nat ?n]"
    using fold_set_last [of ?ps "replicate ?nb 0"] b by (auto simp: CreateFiler_fold)
  have last8: "unat (of_nat ?n :: byte) = ?n"
    using n by (simp add: unat_of_nat)
  have bits: "filter_bit 0 (?arr @ [of_nat ?n]) p \<longleftrightarrow> p \<in> set ?ps" if "p div 8 < ?nb" for p
  proof -
    have "filter_bit 0 ?arr p \<longleftrightarrow> filter_bit 0 (replicate ?nb 0) p \<or> p \<in> set ?ps"
      by (rule filter_bit_fold) (use b in auto)
    moreover have "\<not> filter_bit 0 (replicate ?nb 0) p"
      using that by (simp add: filter_bit_def)
    moreover have "filter_bit 0 (?arr @ [of_nat ?n]) p = filter_bit 0 ?arr p"
      using that by (simp add: filter_bit_def nth_append)
    ultimately show ?thesis
      by simp
  qed
  have "BloomFilter_KeyMayMatch hash k (?arr @ [of_nat ?n]) \<longleftrightarrow>
      (\<forall>p \<in> set (?pr k). filter_bit 0 (?arr @ [of_nat ?n]) p)"
    using n filter_bytes_ge_8 [of F "length ks"]
    by (simp add: BloomFilter_KeyMayMatch_def Let_def last8 nth_append match_probes_all
        key_probes_def mult.commute)
  then show ?thesis
    using bits b unfolding c by auto
qed

lemma CreateFiler_no_false_negative:
  assumes "bf_hash_size F \<le> 30" "k \<in> set ks"
  shows "BloomFilter_KeyMayMatch hash k (CreateFiler F hash ks [])"
  using assms by (auto simp: CreateFiler_match)

lemma mk_BloomFilter_bounds: "1 \<le> bf_hash_size (mk_BloomFilter bits)" "bf_hash_size (mk_BloomFilter bits) \<le> 30"
  by (simp_all add: mk_BloomFilter_def Let_def)

section \<open>Properties\<close>

text \<open>
  The filter the code builds over any list of keys, appended to any string, recognises every one of these keys,
  whatever \<open>std::hash\<close> is and whatever the number of bits per key: no key that was added is ever
  reported absent.  The bytes that were there before are kept.
\<close>

theorem Bloom_no_false_negatives:
  assumes "k \<in> set ks"
  shows "take (length flt) (CreateFiler (mk_BloomFilter bits) hash ks flt) = flt \<and>
    BloomFilter_KeyMayMatch hash k (drop (length flt) (CreateFiler (mk_BloomFilter bits) hash ks flt))"
proof -
  have "CreateFiler (mk_BloomFilter bits) hash ks flt
      = flt @ CreateFiler (mk_BloomFilter bits) hash ks []"
    by (rule CreateFiler_append)
  then show ?thesis
    using assms by (simp add: CreateFiler_no_false_negative mk_BloomFilter_bounds)
qed

theorem Bloom_no_false_negatives_witness:
  "BloomFilter_KeyMayMatch (\<lambda>k. of_nat (length k)) [1, 2]
     (drop (length [9 :: byte]) (CreateFiler (mk_BloomFilter 10) (\<lambda>k. of_nat (length k)) [[1, 2], [3]] [9]))"
  using Bloom_no_false_negatives [of "[1, 2]" "[[1, 2], [3]]" "[9]"] by simp

text \<open>
  What a filter accepts, exactly: a key is reported as possibly present if and only if each of its probe
  positions is a probe position of one of the keys the filter was built over.  In particular an
  empty key list gives a filter that rejects everything.
\<close>

theorem Bloom_accepts_iff:
  "BloomFilter_KeyMayMatch hash k (CreateFiler (mk_BloomFilter bits) hash ks []) =
     (let n = bf_hash_size (mk_BloomFilter bits);
          m = 8 * filter_bytes (mk_BloomFilter bits) (length ks)
      in set (key_probes n hash m k) \<subseteq> (\<Union>x \<in> set ks. set (key_probes n hash m x)))
   \<and> \<not> BloomFilter_KeyMayMatch hash k (CreateFiler (mk_BloomFilter bits) hash [] [])"
proof -
  have "key_probes (bf_hash_size (mk_BloomFilter bits)) hash m k \<noteq> []" for m
    using mk_BloomFilter_bounds(1) [of bits]
    by (cases "bf_hash_size (mk_BloomFilter bits)") (simp_all add: key_probes_def Let_def)
  then show ?thesis
    by (simp add: CreateFiler_match mk_BloomFilter_bounds Let_def)
qed

end
