(* ===== verification/FilterBlock.thy ===== *)
theory FilterBlock
  imports Bloom
begin

text \<open>
  The filter block of a table: \<open>FilterBlockbuilder\<close> and \<open>FilterBlockReader\<close> of
  src/src/db/filterblock.h and src/src/db/filterblock.cpp.

  The global \<open>bloomfit\<close> is the parameter \<open>F\<close>, and \<open>hash\<close> is \<open>std::hash\<close>
  as in the theory Bloom.  A filter block is the filters one after the other, the offset of each as
  a fixed 32-bit integer, the offset of that array, and one byte, the base-2 logarithm of the range of file offsets
  that share a filter.
\<close>

section \<open>Builder\<close>

definition kFilterBaseLg :: nat where
  "kFilterBaseLg = 11"

definition kFilterBase :: nat where
  "kFilterBase = 2 ^ kFilterBaseLg"

record FilterBlockbuilder =
  fb_keys :: bytes
  fb_start :: "nat list"
  fb_result :: bytes
  fb_tmp_keys :: "bytes list"
  fb_filter_offsets :: "u32 list"

definition mk_FilterBlockbuilder :: FilterBlockbuilder where
  "mk_FilterBlockbuilder =
     \<lparr>fb_keys = [], fb_start = [], fb_result = [], fb_tmp_keys = [], fb_filter_offsets = []\<rparr>"

text \<open>The loop over \<open>start_\<close> with the moving pointer \<open>p\<close> into \<open>keys_\<close>.\<close>

fun split_keys :: "bytes \<Rightarrow> nat list \<Rightarrow> bytes list" where
  "split_keys p [] = []"
| "split_keys p (n # ns) = take n p # split_keys (drop n p) ns"

definition CreateNewfilter ::
  "BloomFilter \<Rightarrow> (bytes \<Rightarrow> u64) \<Rightarrow> FilterBlockbuilder \<Rightarrow> FilterBlockbuilder" where
  "CreateNewfilter F hash b =
     (let num_key = length (fb_start b);
          offsets = fb_filter_offsets b @ [of_nat (length (fb_result b))]
      in if num_key = 0 then b\<lparr>fb_filter_offsets := offsets\<rparr>
         else
           (let tmp_keys = fb_tmp_keys b @ split_keys (fb_keys b) (fb_start b)
            in b\<lparr>fb_filter_offsets := offsets,
                 fb_result := CreateFiler F hash tmp_keys (fb_result b),
                 fb_tmp_keys := [], fb_keys := [], fb_start := []\<rparr>))"

lemma length_offsets_CreateNewfilter [simp]:
  "length (fb_filter_offsets (CreateNewfilter F hash b)) = Suc (length (fb_filter_offsets b))"
  by (simp add: CreateNewfilter_def Let_def)

function StartBlock_loop ::
  "BloomFilter \<Rightarrow> (bytes \<Rightarrow> u64) \<Rightarrow> nat \<Rightarrow> FilterBlockbuilder \<Rightarrow> FilterBlockbuilder" where
  "StartBlock_loop F hash filter_index b =
     (if filter_index > length (fb_filter_offsets b)
      then StartBlock_loop F hash filter_index (CreateNewfilter F hash b) else b)"
  by pat_completeness auto
termination
  by (relation "measure (\<lambda>(F, hash, n, b). n - length (fb_filter_offsets b))") auto

declare StartBlock_loop.simps [simp del]

definition StartBlock ::
  "BloomFilter \<Rightarrow> (bytes \<Rightarrow> u64) \<Rightarrow> u64 \<Rightarrow> FilterBlockbuilder \<Rightarrow> FilterBlockbuilder" where
  "StartBlock F hash block_offset b = StartBlock_loop F hash (unat block_offset div kFilterBase) b"

definition AddKey :: "bytes \<Rightarrow> FilterBlockbuilder \<Rightarrow> FilterBlockbuilder" where
  "AddKey key b = b\<lparr>fb_start := fb_start b @ [length key], fb_keys := fb_keys b @ key\<rparr>"

text \<open>The builder afterwards; the returned view is its \<open>result_\<close>.\<close>

definition FilterBlock_Finish ::
  "BloomFilter \<Rightarrow> (bytes \<Rightarrow> u64) \<Rightarrow> FilterBlockbuilder \<Rightarrow> FilterBlockbuilder" where
  "FilterBlock_Finish F hash b0 =
     (let b = (if fb_start b0 \<noteq> [] then CreateNewfilter F hash b0 else b0);
          bengoffset = of_nat (length (fb_result b));
          result1 = fold (\<lambda>off r. PutFixed32 r off) (fb_filter_offsets b) (fb_result b);
          result2 = PutFixed32 result1 bengoffset
      in b\<lparr>fb_result := result2 @ [of_nat kFilterBaseLg]\<rparr>)"

section \<open>Reader\<close>

text \<open>
  \<open>fr_offset\<close> is \<open>offset - data\<close> where \<open>offset\<close> is set.  \<open>base_lg\<close> is assigned from a
  signed \<open>char\<close>.
\<close>

record FilterBlockReader =
  fr_data :: bytes
  fr_offset :: "nat option"
  fr_num :: nat
  fr_base_lg :: u64

definition mk_FilterBlockReader :: "bytes \<Rightarrow> FilterBlockReader" where
  "mk_FilterBlockReader contents =
     (let n = length contents
      in if n < 5 then \<lparr>fr_data = [], fr_offset = None, fr_num = 0, fr_base_lg = 0\<rparr>
         else
           (let base_lg = scast (contents ! (n - 1));
                index_offset = unat (le32 (drop (n - 5) contents))
            in if index_offset > n - 5
               then \<lparr>fr_data = contents, fr_offset = None, fr_num = 0, fr_base_lg = base_lg\<rparr>
               else \<lparr>fr_data = contents, fr_offset = Some index_offset,
                     fr_num = (n - 5 - index_offset) div 4, fr_base_lg = base_lg\<rparr>))"

text \<open>
  Both bounds are read with \<open>DecodeFixed64\<close> and cut to 32 bits, so that the last one reads four bytes
  beyond its place: \<open>past\<close> is the memory behind the contents (the block trailer and what follows).  A shift by 64
  or more is undefined.
\<close>

definition FilterBlockReader_KeyMayMatch ::
  "(bytes \<Rightarrow> u64) \<Rightarrow> bytes \<Rightarrow> FilterBlockReader \<Rightarrow> u64 \<Rightarrow> bytes \<Rightarrow> bool option" where
  "FilterBlockReader_KeyMayMatch hash past r block_offset key =
     (if 64 \<le> unat (fr_base_lg r) then None
      else
        (let index = unat (drop_bit (unat (fr_base_lg r)) block_offset)
         in if index < fr_num r then do {
              offset \<leftarrow> fr_offset r;
              let mem = fr_data r @ past;
              start64 \<leftarrow> DecodeFixed64 (drop (offset + index * 4) mem);
              limit64 \<leftarrow> DecodeFixed64 (drop (offset + index * 4 + 4) mem);
              let start = (ucast start64 :: u32);
              let limit = (ucast limit64 :: u32);
              if start \<le> limit \<and> unat limit \<le> offset
              then Some (BloomFilter_KeyMayMatch hash key
                          (take (unat limit - unat start) (drop (unat start) (fr_data r))))
              else if start = limit then Some False
              else Some True
            } else Some True))"

section \<open>What the builder holds\<close>

text \<open>
  The groups of keys that have their filter, and the keys waiting for one.
\<close>

definition group_filter :: "BloomFilter \<Rightarrow> (bytes \<Rightarrow> u64) \<Rightarrow> bytes list \<Rightarrow> bytes" where
  "group_filter F hash ks = (if ks = [] then [] else CreateFiler F hash ks [])"

definition groups_len :: "BloomFilter \<Rightarrow> (bytes \<Rightarrow> u64) \<Rightarrow> bytes list list \<Rightarrow> nat \<Rightarrow> nat" where
  "groups_len F hash gs i = length (concat (map (group_filter F hash) (take i gs)))"

definition builder_rep ::
  "BloomFilter \<Rightarrow> (bytes \<Rightarrow> u64) \<Rightarrow> FilterBlockbuilder \<Rightarrow> bytes list list \<Rightarrow> bytes list \<Rightarrow> bool" where
  "builder_rep F hash b gs ks \<longleftrightarrow>
     fb_keys b = concat ks \<and> fb_start b = map length ks \<and> fb_tmp_keys b = [] \<and>
     fb_result b = concat (map (group_filter F hash) gs) \<and>
     fb_filter_offsets b = map (\<lambda>i. of_nat (groups_len F hash gs i)) [0..<length gs]"

lemma split_keys_concat: "split_keys (concat ks) (map length ks) = ks"
  by (induction ks) simp_all

lemma groups_len_snoc: "i \<le> length gs \<Longrightarrow> groups_len F hash (gs @ [ks]) i = groups_len F hash gs i"
  by (simp add: groups_len_def)

lemma fb_rep_mk: "builder_rep F hash mk_FilterBlockbuilder [] []"
  by (simp add: builder_rep_def mk_FilterBlockbuilder_def)

lemma rep_AddKey: "builder_rep F hash b gs ks \<Longrightarrow> builder_rep F hash (AddKey k b) gs (ks @ [k])"
  by (simp add: builder_rep_def AddKey_def)

lemma rep_CreateNewfilter:
  assumes "builder_rep F hash b gs ks"
  shows "builder_rep F hash (CreateNewfilter F hash b) (gs @ [ks]) []"
proof -
  have "map (\<lambda>i. of_nat (groups_len F hash (gs @ [ks]) i) :: u32) [0..<length gs]
      = map (\<lambda>i. of_nat (groups_len F hash gs i)) [0..<length gs]"
    by (simp add: groups_len_snoc)
  moreover have "groups_len F hash (gs @ [ks]) (length gs)
      = length (concat (map (group_filter F hash) gs))"
    by (simp add: groups_len_def)
  moreover have "CreateFiler F hash ks (fb_result b) = fb_result b @ CreateFiler F hash ks []"
    by (rule CreateFiler_append)
  ultimately show ?thesis
    using assms
    by (cases "ks = []")
      (simp_all add: builder_rep_def CreateNewfilter_def Let_def split_keys_concat
        group_filter_def groups_len_snoc)
qed

lemma rep_length: "builder_rep F hash b gs ks \<Longrightarrow> length (fb_filter_offsets b) = length gs"
  by (simp add: builder_rep_def)

text \<open>The first new filter takes the waiting keys, the further ones are empty.\<close>

lemma rep_StartBlock_loop:
  assumes "builder_rep F hash b gs ks"
  shows "builder_rep F hash (StartBlock_loop F hash n b)
    (if length gs < n then gs @ [ks] @ replicate (n - length gs - 1) [] else gs)
    (if length gs < n then [] else ks)"
  using assms
proof (induction "n - length gs" arbitrary: b gs ks)
  case 0
  then show ?case
    by (simp add: StartBlock_loop.simps [of F hash n b] rep_length)
next
  case (Suc m)
  have "builder_rep F hash (StartBlock_loop F hash n (CreateNewfilter F hash b))
    (if length (gs @ [ks]) < n then (gs @ [ks]) @ [[]] @ replicate (n - length (gs @ [ks]) - 1) []
     else gs @ [ks]) (if length (gs @ [ks]) < n then [] else [])"
    using Suc by (intro Suc.hyps(1) rep_CreateNewfilter) auto
  moreover have "n - length gs - 1 = (if Suc (length gs) < n then Suc (n - Suc (length gs) - 1) else 0)"
    using Suc(2) by auto
  moreover have "StartBlock_loop F hash n b = StartBlock_loop F hash n (CreateNewfilter F hash b)"
    using Suc by (simp add: StartBlock_loop.simps [of F hash n b] rep_length)
  ultimately show ?case
    using Suc(2) by (auto split: if_splits)
qed

section \<open>Histories\<close>

text \<open>
  A table builder's calls: the keys of a data block are added before \<open>StartBlock\<close> announces
  the offset of the next one; the first block is at offset 0.
\<close>

datatype fop = FStartBlock u64 | FAddKey bytes

fun fop_step ::
  "BloomFilter \<Rightarrow> (bytes \<Rightarrow> u64) \<Rightarrow> fop \<Rightarrow> FilterBlockbuilder \<Rightarrow> FilterBlockbuilder" where
  "fop_step F hash (FStartBlock off) b = StartBlock F hash off b"
| "fop_step F hash (FAddKey k) b = AddKey k b"

fun fop_added :: "u64 \<Rightarrow> fop list \<Rightarrow> (u64 \<times> bytes) list" where
  "fop_added cur [] = []"
| "fop_added cur (FStartBlock off # ops) = fop_added off ops"
| "fop_added cur (FAddKey k # ops) = (cur, k) # fop_added cur ops"

fun fop_mono :: "u64 \<Rightarrow> fop list \<Rightarrow> bool" where
  "fop_mono cur [] = True"
| "fop_mono cur (FStartBlock off # ops) = (cur \<le> off \<and> fop_mono off ops)"
| "fop_mono cur (FAddKey k # ops) = fop_mono cur ops"

definition filter_block ::
  "BloomFilter \<Rightarrow> (bytes \<Rightarrow> u64) \<Rightarrow> fop list \<Rightarrow> bytes" where
  "filter_block F hash ops =
     fb_result (FilterBlock_Finish F hash (fold (fop_step F hash) ops mk_FilterBlockbuilder))"

text \<open>Where a key added for the block at \<open>off\<close> is.\<close>

definition placed :: "bytes list list \<Rightarrow> bytes list \<Rightarrow> u64 \<Rightarrow> bytes \<Rightarrow> bool" where
  "placed gs ks off k \<longleftrightarrow>
     (let i = unat off div 2048
      in (i < length gs \<and> k \<in> set (gs ! i)) \<or> (i = length gs \<and> k \<in> set ks))"

lemma kFilterBase_val [simp]: "kFilterBase = 2048" "kFilterBaseLg = 11"
  by (simp_all add: kFilterBase_def kFilterBaseLg_def)

lemma rep_StartBlock:
  assumes "builder_rep F hash b gs ks" "length gs = unat cur div 2048" "cur \<le> off"
  obtains gs' ks' where "builder_rep F hash (StartBlock F hash off b) gs' ks'"
    "length gs' = unat off div 2048" "\<And>o' k. placed gs ks o' k \<Longrightarrow> placed gs' ks' o' k"
proof -
  let ?n = "unat off div 2048"
  have le: "length gs \<le> ?n"
    using assms(2,3) by (simp add: word_le_nat_alt div_le_mono)
  show ?thesis
  proof (cases "length gs < ?n")
    case False
    then show ?thesis
      using that [of gs ks] rep_StartBlock_loop [OF assms(1), of ?n] le
      by (simp add: StartBlock_def)
  next
    case True
    show ?thesis
    proof (rule that)
      show "builder_rep F hash (StartBlock F hash off b)
          (gs @ [ks] @ replicate (?n - length gs - 1) []) []"
        using rep_StartBlock_loop [OF assms(1), of ?n] True by (simp add: StartBlock_def)
      show "length (gs @ [ks] @ replicate (?n - length gs - 1) []) = ?n"
        using True by simp
      show "placed (gs @ [ks] @ replicate (?n - length gs - 1) []) [] o' k"
        if "placed gs ks o' k" for o' k
        using that by (auto simp: placed_def Let_def nth_append)
    qed
  qed
qed

lemma rep_ops:
  assumes "builder_rep F hash b gs ks" "length gs = unat cur div 2048" "fop_mono cur ops"
  shows "\<exists>gs' ks'. builder_rep F hash (fold (fop_step F hash) ops b) gs' ks' \<and>
    (\<forall>o' k. placed gs ks o' k \<longrightarrow> placed gs' ks' o' k) \<and>
    (\<forall>(o', k) \<in> set (fop_added cur ops). placed gs' ks' o' k)"
  using assms
proof (induction cur ops arbitrary: b gs ks rule: fop_added.induct)
  case (1 cur)
  then show ?case
    by auto
next
  case (2 cur off ops)
  obtain gs1 ks1 where 1: "builder_rep F hash (StartBlock F hash off b) gs1 ks1"
    "length gs1 = unat off div 2048" "\<And>o' k. placed gs ks o' k \<Longrightarrow> placed gs1 ks1 o' k"
    using "2.prems" by (auto elim: rep_StartBlock)
  show ?case
    using 1(3) "2.IH" [OF 1(1,2)] "2.prems"(3)
    unfolding fop_mono.simps fop_added.simps fold_simps fop_step.simps by blast
next
  case (3 cur k ops)
  have "placed gs (ks @ [k]) cur k" "placed gs ks o' j \<Longrightarrow> placed gs (ks @ [k]) o' j" for o' j
    using "3.prems"(2) by (auto simp: placed_def Let_def)
  moreover obtain gs' ks' where
    "builder_rep F hash (fold (fop_step F hash) ops (AddKey k b)) gs' ks'"
    "\<forall>o' j. placed gs (ks @ [k]) o' j \<longrightarrow> placed gs' ks' o' j"
    "\<forall>(o', j) \<in> set (fop_added cur ops). placed gs' ks' o' j"
    using "3.IH" [OF rep_AddKey [OF "3.prems"(1)] "3.prems"(2)] "3.prems"(3)
    unfolding fop_mono.simps by blast
  ultimately show ?case
    by (intro exI [of _ gs'] exI [of _ ks']) auto
qed

section \<open>Reading the block back\<close>

lemma fold_PutFixed32: "fold (\<lambda>off r. PutFixed32 r off) ws r = r @ concat (map EncodeFixed32 ws)"
  by (induction ws arbitrary: r) (simp_all add: PutFixed32_def)

definition groups_index ::
  "BloomFilter \<Rightarrow> (bytes \<Rightarrow> u64) \<Rightarrow> bytes list list \<Rightarrow> u32 list" where
  "groups_index F hash gs = map (\<lambda>i. of_nat (groups_len F hash gs i)) [0..<Suc (length gs)]"

lemma rep_Finish:
  assumes "builder_rep F hash b gs ks"
  defines "gs' \<equiv> (if ks = [] then gs else gs @ [ks])"
  shows "fb_result (FilterBlock_Finish F hash b) =
    concat (map (group_filter F hash) gs')
      @ concat (map EncodeFixed32 (groups_index F hash gs')) @ [11]"
proof -
  define b' where "b' = (if fb_start b \<noteq> [] then CreateNewfilter F hash b else b)"
  have "fb_start b \<noteq> [] \<longleftrightarrow> ks \<noteq> []"
    using assms(1) by (simp add: builder_rep_def)
  then have "builder_rep F hash b' gs' []"
    using rep_CreateNewfilter [OF assms(1)] assms(1) by (cases "ks = []") (simp_all add: b'_def gs'_def)
  then have r: "fb_result b' = concat (map (group_filter F hash) gs')"
    "fb_filter_offsets b' = map (\<lambda>i. of_nat (groups_len F hash gs' i)) [0..<length gs']"
    by (simp_all add: builder_rep_def)
  have "groups_index F hash gs' = fb_filter_offsets b' @ [of_nat (length (fb_result b'))]"
    by (simp add: r groups_index_def) (simp add: groups_len_def)
  moreover have "fb_result (FilterBlock_Finish F hash b) =
      fb_result b' @ concat (map EncodeFixed32 (fb_filter_offsets b' @ [of_nat (length (fb_result b'))])) @ [11]"
    by (simp add: FilterBlock_Finish_def Let_def fold_PutFixed32 PutFixed32_def
        flip: b'_def) (simp add: fold_PutFixed32 [unfolded PutFixed32_def])
  ultimately show ?thesis
    by (simp only: r(1))
qed

lemma length_index [simp]: "length (groups_index F hash gs) = Suc (length gs)"
  by (simp add: groups_index_def)

lemma concat_Encode_drop:
  "i \<le> length ws \<Longrightarrow>
    drop (i * 4) (concat (map EncodeFixed32 ws) @ r) = concat (map EncodeFixed32 (drop i ws)) @ r"
  by (induction ws arbitrary: i) (auto simp: le_Suc_eq drop_Cons split: nat.split)

lemma length_concat_Encode: "length (concat (map EncodeFixed32 ws)) = 4 * length ws"
  by (induction ws) simp_all

lemma le32_index:
  assumes "i < length ws"
  shows "le32 (drop (i * 4) (concat (map EncodeFixed32 ws) @ r)) = ws ! i"
proof -
  have "drop i ws = ws ! i # drop (Suc i) ws"
    using assms by (simp add: Cons_nth_drop_Suc)
  then show ?thesis
    unfolding concat_Encode_drop [OF less_imp_le [OF assms]] by simp
qed

lemma groups_len_mono: "i \<le> j \<Longrightarrow> groups_len F hash gs i \<le> groups_len F hash gs j"
proof -
  assume "i \<le> j"
  then obtain d where "j = i + d"
    by (auto simp: le_iff_add)
  then show ?thesis
    by (simp add: groups_len_def take_add)
qed

lemma groups_slice:
  assumes "i < length gs"
  shows "take (groups_len F hash gs (Suc i) - groups_len F hash gs i)
    (drop (groups_len F hash gs i) (concat (map (group_filter F hash) gs) @ r)) = group_filter F hash (gs ! i)"
proof -
  let ?f = "group_filter F hash"
  have "gs = take i gs @ gs ! i # drop (Suc i) gs"
    using assms by (simp add: id_take_nth_drop)
  then have "concat (map ?f gs) = concat (map ?f (take i gs)) @ ?f (gs ! i) @ concat (map ?f (drop (Suc i) gs))"
    by (metis concat.simps(2) concat_append list.simps(9) map_append)
  moreover have "groups_len F hash gs (Suc i) = groups_len F hash gs i + length (?f (gs ! i))"
    using assms by (simp add: groups_len_def take_Suc_conv_app_nth)
  ultimately show ?thesis
    by (simp add: groups_len_def)
qed

lemma base_lg_11: "unat (scast (11 :: byte) :: u64) = 11"
  by simp

text \<open>A read of the index array, eight bytes wide.\<close>

lemma index_read:
  assumes "i < length ws" "3 \<le> length past \<or> Suc i < length ws" "length body = off"
  shows "\<exists>w. DecodeFixed64 (drop (off + i * 4) ((body @ concat (map EncodeFixed32 ws) @ [c]) @ past)) = Some w
    \<and> (ucast w :: u32) = ws ! i"
proof -
  let ?m = "drop (off + i * 4) ((body @ concat (map EncodeFixed32 ws) @ [c]) @ past)"
  have m: "?m = drop (i * 4) (concat (map EncodeFixed32 ws) @ c # past)"
    using assms(3) by simp
  have "8 \<le> length ?m"
    using assms by (auto simp: length_concat_Encode)
  moreover have "(ucast (le64 ?m) :: u32) = ws ! i"
    unfolding ucast_le64 m by (rule le32_index [OF assms(1)])
  ultimately show ?thesis
    unfolding DecodeFixed64_def not_less [symmetric] by metis
qed

text \<open>The reader of a block over the groups \<open>gs\<close>.\<close>

lemma mk_reader:
  fixes F hash gs
  defines "body \<equiv> concat (map (group_filter F hash) gs)"
  defines "c \<equiv> body @ concat (map EncodeFixed32 (groups_index F hash gs)) @ [11]"
  assumes len: "length body < 2 ^ 32"
  shows "mk_FilterBlockReader c = \<lparr>fr_data = c, fr_offset = Some (length body), fr_num = length gs, fr_base_lg = 11\<rparr>"
proof -
  let ?ws = "groups_index F hash gs"
  have n: "length c = length body + 4 * length gs + 5"
    by (simp add: c_def length_concat_Encode)
  have "drop (length c - 5) c = drop (length gs * 4) (concat (map EncodeFixed32 ?ws) @ [11])"
    unfolding n by (simp add: c_def mult.commute)
  then have "le32 (drop (length c - 5) c) = ?ws ! length gs"
    by (simp only: le32_index length_index lessI)
  also have "\<dots> = of_nat (length body)"
    by (simp add: groups_index_def groups_len_def body_def nth_append)
  finally have off: "unat (le32 (drop (length c - 5) c)) = length body"
    using len by (simp add: unat_of_nat_u32)
  have "c ! (length c - 1) = 11"
    by (simp add: c_def nth_append)
  then show ?thesis
    using off n by (simp add: mk_FilterBlockReader_def Let_def)
qed

lemma KeyMayMatch_groups:
  fixes F hash gs
  defines "body \<equiv> concat (map (group_filter F hash) gs)"
  defines "c \<equiv> body @ concat (map EncodeFixed32 (groups_index F hash gs)) @ [11]"
  assumes len: "length body < 2 ^ 32"
  shows "FilterBlockReader_KeyMayMatch hash past (mk_FilterBlockReader c) off k =
    (if Suc (unat off div 2048) = length gs \<and> length past < 3 then None
     else Some (unat off div 2048 < length gs \<longrightarrow>
          BloomFilter_KeyMayMatch hash k (group_filter F hash (gs ! (unat off div 2048)))))"
proof -
  let ?ws = "groups_index F hash gs" and ?i = "unat off div 2048" and ?L = "groups_len F hash gs"
  have idx: "unat (drop_bit 11 off) = ?i"
    unfolding unat_drop_bit_eq by (simp add: drop_bit_eq_div)
  have r: "mk_FilterBlockReader c = \<lparr>fr_data = c, fr_offset = Some (length body), fr_num = length gs, fr_base_lg = 11\<rparr>"
    unfolding c_def body_def by (rule mk_reader) (use len in \<open>simp add: body_def\<close>)
  show ?thesis
  proof (cases "?i < length gs")
    case False
    then show ?thesis
      by (simp add: FilterBlockReader_KeyMayMatch_def r idx)
  next
    case True
    have L: "?L j \<le> length body" if "j \<le> length gs" for j
      using groups_len_mono [OF that, of F hash gs] by (simp add: groups_len_def body_def)
    have ws: "unat (?ws ! j) = ?L j" if "j \<le> length gs" for j
    proof -
      have "?ws ! j = of_nat (?L j)"
        using that by (simp add: groups_index_def nth_append del: upt_Suc)
      then show ?thesis
        using L [OF that] len by (simp add: unat_of_nat_u32)
    qed
    obtain w1 where w1: "DecodeFixed64 (drop (length body + ?i * 4) (c @ past)) = Some w1"
        "(ucast w1 :: u32) = ?ws ! ?i"
      using index_read [of ?i ?ws past body "length body" 11] True by (auto simp: c_def)
    have over: "DecodeFixed64 (drop (length body + ?i * 4 + 4) (c @ past)) = None" if "Suc ?i = length gs" "length past < 3"
      using that by (simp add: DecodeFixed64_def c_def length_concat_Encode flip: that(1))
    show ?thesis
    proof (cases "Suc ?i = length gs \<and> length past < 3")
      case True
      then show ?thesis
        using \<open>?i < length gs\<close> over by (simp add: FilterBlockReader_KeyMayMatch_def r idx w1 Let_def del: drop_append)
    next
      case False
      then have past: "3 \<le> length past \<or> Suc (Suc ?i) < length ?ws"
        using True by auto
      obtain w2 where w2: "DecodeFixed64 (drop (length body + ?i * 4 + 4) (c @ past)) = Some w2"
          "(ucast w2 :: u32) = ?ws ! Suc ?i"
        using index_read [of "Suc ?i" ?ws past body "length body" 11] True past
        by (auto simp: c_def algebra_simps)
      have le: "?ws ! ?i \<le> ?ws ! Suc ?i"
        using True by (simp add: word_le_nat_alt ws groups_len_mono)
      have "take (?L (Suc ?i) - ?L ?i) (drop (?L ?i) c) = group_filter F hash (gs ! ?i)"
        unfolding c_def body_def by (rule groups_slice [OF True])
      then show ?thesis
        using True False le L [of "Suc ?i"]
        by (simp add: FilterBlockReader_KeyMayMatch_def r idx w1 w2 ws Let_def del: drop_append)
    qed
  qed
qed

lemma unat_ge_64:
  fixes y :: "'a::len word"
  shows "64 \<le> unat y \<longleftrightarrow> drop_bit 6 y \<noteq> 0"
  using unat_less_exp_drop [of y 6] by (simp add: not_less [symmetric])

lemma scast_ge_64:
  fixes x :: byte
  shows "64 \<le> unat (scast x :: u64) \<longleftrightarrow> 64 \<le> unat x"
proof -
  have "drop_bit 6 (scast x :: u64) = 0 \<longleftrightarrow> \<not> bit x 6 \<and> \<not> bit x 7"
  proof
    assume "drop_bit 6 (scast x :: u64) = 0"
    then have "\<not> bit (drop_bit 6 (scast x :: u64)) 0" "\<not> bit (drop_bit 6 (scast x :: u64)) 1"
      by simp_all
    then show "\<not> bit x 6 \<and> \<not> bit x 7"
      by (simp add: bit_simps)
  next
    assume b: "\<not> bit x 6 \<and> \<not> bit x 7"
    show "drop_bit 6 (scast x :: u64) = 0"
    proof (rule bit_word_eqI)
      fix n assume "n < LENGTH(64)"
      with b show "bit (drop_bit 6 (scast x :: u64)) n = bit 0 n"
        by (cases n) (auto simp: bit_simps min_def)
    qed
  qed
  moreover have "drop_bit 6 x = 0 \<longleftrightarrow> \<not> bit x 6 \<and> \<not> bit x 7"
  proof
    assume "drop_bit 6 x = 0"
    then have "\<not> bit (drop_bit 6 x) 0" "\<not> bit (drop_bit 6 x) 1"
      by simp_all
    then show "\<not> bit x 6 \<and> \<not> bit x 7"
      by (simp add: bit_simps)
  next
    assume a: "\<not> bit x 6 \<and> \<not> bit x 7"
    show "drop_bit 6 x = 0"
    proof (rule bit_word_eqI)
      fix n assume "n < LENGTH(8)"
      have "n + 6 = 6 \<or> n + 6 = 7 \<or> 8 \<le> n + 6"
        by linarith
      then show "bit (drop_bit 6 x) n = bit 0 n"
        using a by (auto simp: bit_simps dest: bit_imp_le_length)
    qed
  qed
  ultimately show ?thesis
    unfolding unat_ge_64 by blast
qed

section \<open>Properties\<close>

lemma placed_match:
  assumes "builder_rep F hash b gs ks" "placed gs ks off k" "bf_hash_size F \<le> 30"
    "length (fb_result (FilterBlock_Finish F hash b)) \<le> 2 ^ 32"
  shows "FilterBlockReader_KeyMayMatch hash past (mk_FilterBlockReader (fb_result (FilterBlock_Finish F hash b))) off k =
    (if Suc (unat off div 2048) = fr_num (mk_FilterBlockReader (fb_result (FilterBlock_Finish F hash b))) \<and> length past < 3
     then None else Some True)"
proof -
  let ?gs = "if ks = [] then gs else gs @ [ks]" and ?i = "unat off div 2048"
  have "?i < length ?gs \<and> k \<in> set (?gs ! ?i)"
    using assms(2) by (auto simp: placed_def Let_def nth_append split: if_splits)
  then have k: "k \<in> set (?gs ! ?i)"
    by blast
  then have "BloomFilter_KeyMayMatch hash k (group_filter F hash (?gs ! ?i))"
    using assms(3) by (auto simp: group_filter_def CreateFiler_no_false_negative)
  moreover have fit: "length (concat (map (group_filter F hash) ?gs)) < 2 ^ 32"
    using assms(4) unfolding rep_Finish [OF assms(1)] by simp
  moreover have num: "fr_num (mk_FilterBlockReader (fb_result (FilterBlock_Finish F hash b))) = length ?gs"
    unfolding rep_Finish [OF assms(1)] mk_reader [OF fit] by simp
  ultimately show ?thesis
    unfolding num unfolding rep_Finish [OF assms(1)] KeyMayMatch_groups [OF fit] by (simp only: simp_thms)
qed

text \<open>
  C24: End to end, the filter block has no false negatives: after any history of \<open>AddKey\<close> and \<open>StartBlock\<close> calls with
  non-decreasing block offsets, from a new builder, the reader of the finished block answers true for every key that was
  added and the offset of the block it was added for.  For the keys of the last filter it reads three bytes behind the block: its
  bounds are read eight bytes wide; it is undefined for them exactly when fewer than three bytes follow the block in memory.
  The block has at most 4 GB (its offsets are 32-bit).
\<close>

theorem FilterBlock_no_false_negatives:
  assumes "fop_mono 0 ops" "(off, k) \<in> set (fop_added 0 ops)"
    and "length (filter_block (mk_BloomFilter bits) hash ops) \<le> 2 ^ 32"
  shows "FilterBlockReader_KeyMayMatch hash past
      (mk_FilterBlockReader (filter_block (mk_BloomFilter bits) hash ops)) off k =
    (if Suc (unat off div 2048) = fr_num (mk_FilterBlockReader (filter_block (mk_BloomFilter bits) hash ops)) \<and> length past < 3
     then None else Some True)"
proof -
  let ?F = "mk_BloomFilter bits"
  obtain gs ks where "builder_rep ?F hash (fold (fop_step ?F hash) ops mk_FilterBlockbuilder) gs ks"
    "placed gs ks off k"
    using rep_ops [OF fb_rep_mk _ assms(1), of ?F hash] assms(2) by auto
  then show ?thesis
    using assms(3) unfolding filter_block_def
    by (intro placed_match) (simp_all add: mk_BloomFilter_bounds)
qed

lemma filter_block_example:
  "length (filter_block (mk_BloomFilter 10) (\<lambda>k. 5)
     [FAddKey [1], FStartBlock 5000, FAddKey [2, 3]]) = 35"
proof -
  have "length (CreateFiler F h ks flt) = length flt + filter_bytes F (length ks) + 1" for F h ks flt
    by (subst CreateFiler_append) (simp add: length_CreateFiler)
  moreover have "filter_bytes (mk_BloomFilter 10) 1 = 8"
    by (simp add: filter_bytes_def mk_BloomFilter_def)
  ultimately show ?thesis
    by (simp add: filter_block_def FilterBlock_Finish_def StartBlock_def StartBlock_loop.simps
        CreateNewfilter_def mk_FilterBlockbuilder_def AddKey_def PutFixed32_def Let_def)
qed

lemma filter_block_example_index:
  "drop 30 (filter_block (mk_BloomFilter 10) (\<lambda>k. 5) [FAddKey [1], FStartBlock 5000, FAddKey [2, 3]]) = EncodeFixed32 18 @ [11]"
proof -
  have c: "CreateFiler F h ks flt = flt @ CreateFiler F h ks []" for F h ks flt
    by (rule CreateFiler_append)
  have l: "length (CreateFiler (mk_BloomFilter 10) (\<lambda>k. 5) [x] []) = 9" for x :: bytes
    by (simp add: length_CreateFiler filter_bytes_def mk_BloomFilter_def)
  have "\<exists>X. length X = 30 \<and> filter_block (mk_BloomFilter 10) (\<lambda>k. 5) [FAddKey [1], FStartBlock 5000, FAddKey [2, 3]] =
      X @ EncodeFixed32 18 @ [11]"
    using l by (simp add: filter_block_def FilterBlock_Finish_def StartBlock_def StartBlock_loop.simps
        CreateNewfilter_def mk_FilterBlockbuilder_def AddKey_def PutFixed32_def Let_def c [of _ _ _ "CreateFiler F h ks []" for F h ks])
  then show ?thesis
    by auto
qed

text \<open>A block in memory that ends with it, and one with a trailer of five bytes.\<close>

theorem FilterBlock_no_false_negatives_witness:
  "FilterBlockReader_KeyMayMatch (\<lambda>k. 5) []
     (mk_FilterBlockReader (filter_block (mk_BloomFilter 10) (\<lambda>k. 5) [FAddKey [1], FStartBlock 5000, FAddKey [2, 3]])) 0 [1] = Some True \<and>
   FilterBlockReader_KeyMayMatch (\<lambda>k. 5) []
     (mk_FilterBlockReader (filter_block (mk_BloomFilter 10) (\<lambda>k. 5) [FAddKey [1], FStartBlock 5000, FAddKey [2, 3]])) 5000 [2, 3] = None \<and>
   FilterBlockReader_KeyMayMatch (\<lambda>k. 5) [0, 0, 0, 0, 0]
     (mk_FilterBlockReader (filter_block (mk_BloomFilter 10) (\<lambda>k. 5) [FAddKey [1], FStartBlock 5000, FAddKey [2, 3]])) 5000 [2, 3] = Some True"
proof -
  let ?ops = "[FAddKey [1], FStartBlock 5000, FAddKey [2, 3]]"
  have "fr_num (mk_FilterBlockReader (filter_block (mk_BloomFilter 10) (\<lambda>k. 5) ?ops)) = 3"
    using filter_block_example_index by (simp add: mk_FilterBlockReader_def filter_block_example Let_def le32_Encode)
  then show ?thesis
    using FilterBlock_no_false_negatives [of ?ops 0 "[1]" 10 "\<lambda>k. 5" "[]"]
      FilterBlock_no_false_negatives [of ?ops 5000 "[2, 3]" 10 "\<lambda>k. 5" "[]"]
      FilterBlock_no_false_negatives [of ?ops 5000 "[2, 3]" 10 "\<lambda>k. 5" "[0, 0, 0, 0, 0]"]
    by (simp add: filter_block_example)
qed

text \<open>
  A filter block that is too short, or whose index offset points outside it, never hides a key: the reader answers
  true without touching memory, as long as the shift it reads from the last byte is below 64.  For a
  larger one the shift in \<open>KeyMayMatch\<close> is undefined behaviour, whatever the rest of the block is.
\<close>

theorem FilterBlockReader_damaged:
  "(length c < 5 \<longrightarrow>
      FilterBlockReader_KeyMayMatch hash past (mk_FilterBlockReader c) off k = Some True) \<and>
   (5 \<le> length c \<and> length c - 5 < unat (le32 (drop (length c - 5) c)) \<and> unat (last c) < 64 \<longrightarrow>
      FilterBlockReader_KeyMayMatch hash past (mk_FilterBlockReader c) off k = Some True) \<and>
   (5 \<le> length c \<and> 64 \<le> unat (last c) \<longrightarrow>
      FilterBlockReader_KeyMayMatch hash past (mk_FilterBlockReader c) off k = None)"
proof -
  have last_c: "c ! (length c - 1) = last c" if "5 \<le> length c"
    using that by (cases c) (simp_all add: last_conv_nth)
  show ?thesis
    using last_c by (auto simp: scast_ge_64 mk_FilterBlockReader_def FilterBlockReader_KeyMayMatch_def Let_def)
qed

theorem FilterBlockReader_damaged_witness:
  "FilterBlockReader_KeyMayMatch (\<lambda>k. 5) [] (mk_FilterBlockReader [1, 2, 3]) 7 [1] = Some True \<and>
   FilterBlockReader_KeyMayMatch (\<lambda>k. 5) [] (mk_FilterBlockReader [9, 0, 0, 0, 11]) 7 [1] = Some True \<and>
   FilterBlockReader_KeyMayMatch (\<lambda>k. 5) [] (mk_FilterBlockReader [0, 0, 0, 0, 64]) 7 [1] = None"
  using FilterBlockReader_damaged [of "[1, 2, 3]" "\<lambda>k. 5" "[]" 7 "[1]"]
    FilterBlockReader_damaged [of "[9, 0, 0, 0, 11]" "\<lambda>k. 5" "[]" 7 "[1]"]
    FilterBlockReader_damaged [of "[0, 0, 0, 0, 64]" "\<lambda>k. 5" "[]" 7 "[1]"]
  by simp

end
