(* ===== verification/Block.thy ===== *)
theory Block
  imports Keys
begin

text \<open>
  The blocks of a table: \<open>BlockHandle\<close>, \<open>Blockbuilder\<close>, \<open>Block\<close> and its iterator
  \<open>Block::Iter\<close> of src/src/db/block.h and src/src/db/block.cpp.

  A block is the entries one after the other, each with the part of its key that the key before does
  not have, then the restart array (the offsets of entries with a full key) and its length.
  The iterator's views into the block are offsets from \<open>data_\<close>; its 32-bit members are words.
\<close>

section \<open>Block handles\<close>

record BlockHandle =
  bh_offset :: u64
  bh_size :: u64

definition BlockHandle_EncodeTo :: "BlockHandle \<Rightarrow> bytes \<Rightarrow> bytes" where
  "BlockHandle_EncodeTo h dst = PutVarint64 (PutVarint64 dst (bh_offset h)) (bh_size h)"

text \<open>The status, the handle and the rest of the input; a failing second read keeps what the first did.\<close>

definition BlockHandle_DecodeFrom :: "bytes \<Rightarrow> BlockHandle \<Rightarrow> State \<times> BlockHandle \<times> bytes" where
  "BlockHandle_DecodeFrom input h =
     (case GetVarint64 input of
        None \<Rightarrow> (kcorruption, h, input)
      | Some (off, input1) \<Rightarrow>
          (case GetVarint64 input1 of
             None \<Rightarrow> (kcorruption, h\<lparr>bh_offset := off\<rparr>, input1)
           | Some (sz, input2) \<Rightarrow> (kok, \<lparr>bh_offset = off, bh_size = sz\<rparr>, input2)))"

section \<open>Builder\<close>

record Blockbuilder =
  bb_buffer :: bytes
  bb_restarts :: "u32 list"
  bb_entrynum :: int
  bb_finished :: bool
  bb_last_key :: bytes

definition mk_Blockbuilder :: Blockbuilder where
  "mk_Blockbuilder =
     \<lparr>bb_buffer = [], bb_restarts = [0], bb_entrynum = 0, bb_finished = False, bb_last_key = []\<rparr>"

definition Blockbuilder_Reset :: "Blockbuilder \<Rightarrow> Blockbuilder" where
  "Blockbuilder_Reset b =
     b\<lparr>bb_buffer := [], bb_restarts := [0], bb_entrynum := 0, bb_finished := False,
       bb_last_key := []\<rparr>"

definition CurrentSizeEstimate :: "Blockbuilder \<Rightarrow> nat" where
  "CurrentSizeEstimate b = length (bb_buffer b) + length (bb_restarts b) * 4 + 4"

definition Blockbuilder_empty :: "Blockbuilder \<Rightarrow> bool" where
  "Blockbuilder_empty b \<longleftrightarrow> bb_buffer b = []"

text \<open>The loop that counts the bytes the key has in common with the last one.\<close>

fun shared_len :: "bytes \<Rightarrow> bytes \<Rightarrow> nat" where
  "shared_len (x # xs) (y # ys) = (if x = y then Suc (shared_len xs ys) else 0)"
| "shared_len _ _ = 0"

text \<open>\<open>interval\<close> is \<open>opt->block_restart_interval\<close>.\<close>

definition Blockbuilder_Add :: "int \<Rightarrow> bytes \<Rightarrow> bytes \<Rightarrow> Blockbuilder \<Rightarrow> Blockbuilder" where
  "Blockbuilder_Add interval key value b =
     (let restart = \<not> bb_entrynum b < interval;
          shared = (if restart then 0 else shared_len (bb_last_key b) key);
          restarts = (if restart then bb_restarts b @ [of_nat (length (bb_buffer b))]
                      else bb_restarts b);
          entrynum = (if restart then 0 else bb_entrynum b);
          non_shared = length key - shared;
          buffer1 = PutVarint32 (bb_buffer b) (of_nat shared);
          buffer2 = PutVarint32 buffer1 (of_nat non_shared);
          buffer3 = PutVarint32 buffer2 (of_nat (length value));
          buffer4 = buffer3 @ take non_shared (drop shared key);
          buffer5 = buffer4 @ value
      in b\<lparr>bb_buffer := buffer5, bb_restarts := restarts, bb_entrynum := entrynum + 1,
           bb_last_key := take shared (bb_last_key b) @ take non_shared (drop shared key)\<rparr>)"

text \<open>The builder afterwards; the returned view is its \<open>buffer\<close>.\<close>

definition Blockbuilder_Finish :: "Blockbuilder \<Rightarrow> Blockbuilder" where
  "Blockbuilder_Finish b =
     (let buffer1 = fold (\<lambda>r buf. PutFixed32 buf r) (bb_restarts b) (bb_buffer b)
      in b\<lparr>bb_buffer := PutFixed32 buffer1 (of_nat (length (bb_restarts b))),
           bb_finished := True\<rparr>)"

section \<open>Block\<close>

text \<open>\<open>blk_restart_offset\<close> is \<open>None\<close> where the constructor leaves it uninitialised.\<close>

record Block =
  blk_data :: bytes
  blk_size :: nat
  blk_restart_offset :: "u32 option"

definition NumRestarts :: "bytes \<Rightarrow> nat \<Rightarrow> u32 option" where
  "NumRestarts data sz = (if sz < 4 then None else DecodeFixed32 (drop (sz - 4) data))"

definition mk_Block :: "bytes \<Rightarrow> Block option" where
  "mk_Block data =
     (if length data < 4 then Some \<lparr>blk_data = data, blk_size = 0, blk_restart_offset = None\<rparr>
      else do {
        let max_restarts_allowed = (length data - 4) div 4;
        n \<leftarrow> NumRestarts data (length data);
        if unat n > max_restarts_allowed
        then Some \<lparr>blk_data = data, blk_size = 0, blk_restart_offset = None\<rparr>
        else Some \<lparr>blk_data = data, blk_size = length data,
                   blk_restart_offset = Some (of_nat (length data - unat (1 + n) * 4))\<rparr> })"

text \<open>
  The entry header at \<open>p\<close>: the three lengths and the offset of what follows; \<open>None\<close> is the null pointer.
  The sum of the two lengths is a 32-bit sum.  \<open>limit\<close> is an offset of \<open>data\<close> or its end.
\<close>

definition entry_header :: "bytes \<Rightarrow> (u32 \<times> u32 \<times> u32 \<times> bytes) option" where
  "entry_header s =
     (if (ucast (s ! 0) OR ucast (s ! 1) OR ucast (s ! 2) :: u32) < 128
      then Some (ucast (s ! 0), ucast (s ! 1), ucast (s ! 2), drop 3 s)
      else do {
        (shared, s1) \<leftarrow> GetVarint32Ptr s;
        (non_shared, s2) \<leftarrow> GetVarint32Ptr s1;
        (value_length, s3) \<leftarrow> GetVarint32Ptr s2;
        Some (shared, non_shared, value_length, s3) })"

definition DecodeEntry :: "bytes \<Rightarrow> nat \<Rightarrow> nat \<Rightarrow> (u32 \<times> u32 \<times> u32 \<times> nat) option" where
  "DecodeEntry data p limit =
     (if limit < p + 3 then None
      else
        (case entry_header (take (limit - p) (drop p data)) of
           None \<Rightarrow> None
         | Some (shared, non_shared, value_length, rest) \<Rightarrow>
             if (of_nat (length rest) :: u32) < non_shared + value_length then None
             else Some (shared, non_shared, value_length, limit - length rest)))"

section \<open>Iterator\<close>

text \<open>\<open>it_value\<close> is the offset and the length of \<open>value_\<close>; \<open>None\<close> the null view before the first seek.\<close>

record Iter =
  it_data :: bytes
  it_restarts :: u32
  it_num_restarts :: u32
  it_current :: u32
  it_restart_index :: u32
  it_key :: bytes
  it_value :: "(nat \<times> nat) option"

definition mk_Iter :: "bytes \<Rightarrow> u32 \<Rightarrow> u32 \<Rightarrow> Iter" where
  "mk_Iter data restarts num_restarts =
     \<lparr>it_data = data, it_restarts = restarts, it_num_restarts = num_restarts,
      it_current = restarts, it_restart_index = num_restarts, it_key = [], it_value = None\<rparr>"

text \<open>Outer \<open>None\<close>: a read out of bounds or an uninitialised member; inner \<open>None\<close>: the null pointer.\<close>

definition Block_NewIterator :: "Block \<Rightarrow> Iter option option" where
  "Block_NewIterator b =
     (if blk_size b < 4 then Some None
      else do {
        n \<leftarrow> NumRestarts (blk_data b) (blk_size b);
        if n > 0 then do {
          off \<leftarrow> blk_restart_offset b;
          Some (Some (mk_Iter (blk_data b) off n))
        } else Some None })"

definition Iter_Valid :: "Iter \<Rightarrow> bool" where
  "Iter_Valid it \<longleftrightarrow> it_current it < it_restarts it"

definition Iter_key :: "Iter \<Rightarrow> bytes" where
  "Iter_key it = it_key it"

definition Iter_value :: "Iter \<Rightarrow> bytes option" where
  "Iter_value it = do {
     (off, len) \<leftarrow> it_value it;
     if length (it_data it) < off + len then None else Some (take len (drop off (it_data it))) }"

definition NextEntryOffset :: "Iter \<Rightarrow> u32 option" where
  "NextEntryOffset it = map_option (\<lambda>(off, len). of_nat (off + len)) (it_value it)"

definition GetRestartPoint :: "Iter \<Rightarrow> u32 \<Rightarrow> u32 option" where
  "GetRestartPoint it index =
     DecodeFixed32 (drop (unat (it_restarts it) + unat index * 4) (it_data it))"

definition SeekToRestartPoint :: "u32 \<Rightarrow> Iter \<Rightarrow> Iter option" where
  "SeekToRestartPoint index it = do {
     offset \<leftarrow> GetRestartPoint it index;
     Some (it\<lparr>it_key := [], it_restart_index := index, it_value := Some (unat offset, 0)\<rparr>) }"

lemma iter_simps:
  "it_restart_index (it\<lparr>it_restart_index := i\<rparr>) = i"
  "it_num_restarts (it\<lparr>it_restart_index := i\<rparr>) = it_num_restarts it"
  by simp_all

lemma restart_index_step:
  fixes i n :: u32
  assumes "i + 1 < n"
  shows "(if i + 1 + 1 = 0 then Suc (unat n) else unat n - unat (i + 1))
    < (if i + 1 = 0 then Suc (unat n) else unat n - unat i)"
proof (cases "i + 1 = 0")
  case True
  then show ?thesis
    using assms by simp
next
  case False
  then have i: "unat (i + 1) = Suc (unat i)"
    by (metis Suc_eq_plus1 add.commute unatSuc)
  moreover have "i + 1 + 1 \<noteq> 0"
  proof
    assume "i + 1 + 1 = 0"
    then have "i + 1 = -1"
      by (simp only: eq_neg_iff_add_eq_0)
    then show False
      using assms by (metis word_order.extremum_strict)
  qed
  moreover have "unat (i + 1) < unat n"
    using assms by (simp add: word_less_nat_alt)
  ultimately show ?thesis
    using False by simp
qed

text \<open>The loop at the end of \<open>ParseNextKey\<close>.\<close>

function advance_restart :: "Iter \<Rightarrow> Iter option" where
  "advance_restart it =
     (if it_restart_index it + 1 < it_num_restarts it
      then do {
        r \<leftarrow> GetRestartPoint it (it_restart_index it + 1);
        if r < it_current it
        then advance_restart (it\<lparr>it_restart_index := it_restart_index it + 1\<rparr>)
        else Some it }
      else Some it)"
  by pat_completeness auto

termination
  by (relation "measure (\<lambda>it. if it_restart_index it + 1 = 0 then Suc (unat (it_num_restarts it))
      else unat (it_num_restarts it) - unat (it_restart_index it))")
    (simp, simp only: in_measure iter_simps restart_index_step)

declare advance_restart.simps [simp del]

definition ParseNextKey :: "Iter \<Rightarrow> (bool \<times> Iter) option" where
  "ParseNextKey it0 = do {
     current \<leftarrow> NextEntryOffset it0;
     let it = it0\<lparr>it_current := current\<rparr>;
     if length (it_data it) < unat (it_restarts it) then None
     else if it_restarts it \<le> current
     then Some (False, it\<lparr>it_current := it_restarts it, it_restart_index := it_num_restarts it\<rparr>)
     else
       (case DecodeEntry (it_data it) (unat current) (unat (it_restarts it)) of
          None \<Rightarrow> Some (False, it\<lparr>it_key := []\<rparr>)
        | Some (shared, non_shared, value_len, p) \<Rightarrow>
            if length (it_key it) < unat shared then Some (False, it\<lparr>it_key := []\<rparr>)
            else if length (it_data it) < p + unat non_shared then None
            else do {
              it' \<leftarrow> advance_restart
                (it\<lparr>it_key := take (unat shared) (it_key it)
                               @ take (unat non_shared) (drop p (it_data it)),
                    it_value := Some (p + unat non_shared, unat value_len)\<rparr>);
              Some (True, it') }) }"

text \<open>Decoding an entry that is accepted moves forward and stays within the limit.\<close>

lemma get_varint_loop_shorter:
  "get_varint_loop b s r p = Some (v, rest) \<Longrightarrow> length rest < length p"
proof (induction b s r p rule: get_varint_loop.induct)
  case (1 b s r p)
  then show ?case
    by (subst (asm) (2) get_varint_loop.simps)
      (fastforce split: if_splits list.splits)
qed

lemma GetVarint32Ptr_shorter: "GetVarint32Ptr p = Some (v, rest) \<Longrightarrow> length rest < length p"
  by (auto simp: GetVarint32Ptr_def GetVarint32PtrFallback_def Let_def
      dest: get_varint_loop_shorter split: list.splits if_splits)

lemma entry_header_shorter:
  assumes "entry_header s = Some (a, b, c, rest)" "3 \<le> length s"
  shows "length rest < length s"
  using assms by (auto simp: entry_header_def split: if_splits bind_splits
      dest!: GetVarint32Ptr_shorter)

lemma DecodeEntry_bounds:
  assumes "DecodeEntry data p limit = Some (shared, non_shared, value_length, q)" "limit \<le> length data"
  shows "p < q" "q \<le> limit" "limit - q < 2 ^ 32 \<Longrightarrow> unat (non_shared + value_length) \<le> limit - q"
proof -
  let ?s = "take (limit - p) (drop p data)"
  obtain rest where rest: "q = limit - length rest" "p + 3 \<le> limit"
    "entry_header ?s = Some (shared, non_shared, value_length, rest)"
    "\<not> (of_nat (length rest) :: u32) < non_shared + value_length"
    using assms(1)
    by (auto simp: DecodeEntry_def simp del: take_drop drop_take split: if_splits option.splits)
  have s: "length ?s = limit - p"
    using assms(2) by simp
  have "length rest < length ?s"
    by (rule entry_header_shorter [OF rest(3)]) (use s rest(2) in linarith)
  then show "p < q" "q \<le> limit"
    using rest(1,2) s by linarith+
  have "limit - q = length rest"
    using rest(1,2) s \<open>length rest < length ?s\<close> by linarith
  then show "unat (non_shared + value_length) \<le> limit - q" if "limit - q < 2 ^ 32"
    using rest(4) that by (simp add: not_less word_le_nat_alt unat_of_nat)
qed

text \<open>A successful \<open>ParseNextKey\<close> moves the next entry offset forward.\<close>

lemma advance_restart_keeps:
  "advance_restart it = Some it' \<Longrightarrow> \<exists>i. it' = it\<lparr>it_restart_index := i\<rparr>"
proof (induction it rule: advance_restart.induct)
  case (1 it)
  have self: "\<exists>i. it = it\<lparr>it_restart_index := i\<rparr>"
    by (rule exI [of _ "it_restart_index it"]) simp
  show ?case
  proof (cases "it_restart_index it + 1 < it_num_restarts it")
    case True
    then obtain r where r: "GetRestartPoint it (it_restart_index it + 1) = Some r"
      using "1.prems" by (auto simp: advance_restart.simps [of it] split: bind_splits)
    show ?thesis
      using "1.IH" [OF True r] "1.prems" True r self
      by (auto simp: advance_restart.simps [of it] split: if_splits)
  next
    case False
    then show ?thesis
      using "1.prems" self by (simp add: advance_restart.simps [of it])
  qed
qed

lemma ParseNextKey_True:
  assumes "ParseNextKey it = Some (True, it')"
  obtains c shared ns vl p i where "NextEntryOffset it = Some c" "c < it_restarts it"
    "unat (it_restarts it) \<le> length (it_data it)"
    "DecodeEntry (it_data it) (unat c) (unat (it_restarts it)) = Some (shared, ns, vl, p)"
    "unat shared \<le> length (it_key it)" "p + unat ns \<le> length (it_data it)"
    "it' = it\<lparr>it_current := c,
              it_key := take (unat shared) (it_key it) @ take (unat ns) (drop p (it_data it)),
              it_value := Some (p + unat ns, unat vl), it_restart_index := i\<rparr>"
  using assms unfolding ParseNextKey_def Let_def
  by (fastforce split: bind_splits if_splits option.splits dest!: advance_restart_keeps
      simp: not_le not_less)

lemma ParseNextKey_progress:
  assumes "ParseNextKey it = Some (True, it')"
  shows "it_restarts it' = it_restarts it" "it_data it' = it_data it"
    "it_num_restarts it' = it_num_restarts it"
    "\<exists>c c'. NextEntryOffset it = Some c \<and> NextEntryOffset it' = Some c' \<and> c < c' \<and>
      c < it_restarts it"
proof -
  from assms obtain c shared ns vl p i where *: "NextEntryOffset it = Some c" "c < it_restarts it"
    "unat (it_restarts it) \<le> length (it_data it)"
    "DecodeEntry (it_data it) (unat c) (unat (it_restarts it)) = Some (shared, ns, vl, p)"
    "it' = it\<lparr>it_current := c,
              it_key := take (unat shared) (it_key it) @ take (unat ns) (drop p (it_data it)),
              it_value := Some (p + unat ns, unat vl), it_restart_index := i\<rparr>"
    by (rule ParseNextKey_True)
  show "it_restarts it' = it_restarts it" "it_data it' = it_data it"
    "it_num_restarts it' = it_num_restarts it"
    by (simp_all add: *(5))
  have lim: "unat (it_restarts it) < 2 ^ 32"
    using unsigned_less [of "it_restarts it"] by simp
  note b = DecodeEntry_bounds [OF *(4) *(3)]
  have le: "p + unat (ns + vl) \<le> unat (it_restarts it)"
  proof -
    have "unat (it_restarts it) - p < 2 ^ 32"
      using lim by linarith
    then show ?thesis
      using b(2) b(3) by linarith
  qed
  have "(of_nat (p + unat ns + unat vl) :: u32) = of_nat (p + unat (ns + vl))"
    by simp
  then have "unat (of_nat (p + unat ns + unat vl) :: u32) = p + unat (ns + vl)"
    using le lim by (simp add: unat_of_nat del: of_nat_add)
  then have "c < of_nat (p + unat ns + unat vl)"
    using b(1) by (simp add: word_less_nat_alt del: of_nat_add)
  moreover have "NextEntryOffset it' = Some (of_nat (p + unat ns + unat vl))"
    by (simp add: *(5) NextEntryOffset_def)
  ultimately show "\<exists>c c'. NextEntryOffset it = Some c \<and> NextEntryOffset it' = Some c' \<and> c < c' \<and>
      c < it_restarts it"
    using *(1,2) by blast
qed

definition scan_measure :: "Iter \<Rightarrow> nat" where
  "scan_measure it = unat (it_restarts it) - (case NextEntryOffset it of None \<Rightarrow> 0 | Some c \<Rightarrow> unat c)"

lemma scan_measure_less:
  assumes "ParseNextKey it = Some (True, it')"
  shows "scan_measure it' < scan_measure it"
  using ParseNextKey_progress [OF assms] by (auto simp: scan_measure_def word_less_nat_alt)

section \<open>Moving the iterator\<close>

definition Iter_SeekToFirst :: "Iter \<Rightarrow> Iter option" where
  "Iter_SeekToFirst it0 = do {
     it \<leftarrow> SeekToRestartPoint 0 it0;
     (_, it') \<leftarrow> ParseNextKey it;
     Some it' }"

text \<open>\<open>while (ParseNextKey() && NextEntryOffset() < bound)\<close>.\<close>

function parse_until :: "u32 \<Rightarrow> Iter \<Rightarrow> Iter option" where
  "parse_until bound it =
     (case ParseNextKey it of
        None \<Rightarrow> None
      | Some (False, it') \<Rightarrow> Some it'
      | Some (True, it') \<Rightarrow>
          (case NextEntryOffset it' of
             None \<Rightarrow> None
           | Some c \<Rightarrow> if c < bound then parse_until bound it' else Some it'))"
  by pat_completeness auto
termination
  by (relation "measure (scan_measure \<circ> snd)") (auto dest: scan_measure_less)

declare parse_until.simps [simp del]

definition Iter_SeekToLast :: "Iter \<Rightarrow> Iter option" where
  "Iter_SeekToLast it0 = do {
     it \<leftarrow> SeekToRestartPoint (it_num_restarts it0 - 1) it0;
     parse_until (it_restarts it) it }"

text \<open>
  The binary search over the restart points; \<open>Inr left\<close> is its result, \<open>Inl ()\<close> the early return on a
  bad entry.  The number of restart points is at most a quarter of the block's size, so the sum in \<open>mid\<close>
  does not wrap: the indices are numbers.
\<close>

function seek_restart :: "bytes \<Rightarrow> Iter \<Rightarrow> nat \<Rightarrow> nat \<Rightarrow> (unit + nat) option" where
  "seek_restart target it left right =
     (if left < right then
        (let mid = (left + right + 1) div 2
         in case GetRestartPoint it (of_nat mid) of
              None \<Rightarrow> None
            | Some region_offset \<Rightarrow>
                if length (it_data it) < unat (it_restarts it) then None
                else
                  (case DecodeEntry (it_data it) (unat region_offset) (unat (it_restarts it)) of
                     None \<Rightarrow> Some (Inl ())
                   | Some (shared, non_shared, value_length, key_ptr) \<Rightarrow>
                       if shared \<noteq> 0 then Some (Inl ())
                       else if length (it_data it) < key_ptr + unat non_shared then None
                       else
                         (case cmp_view (take (unat non_shared) (drop key_ptr (it_data it))) target of
                            None \<Rightarrow> None
                          | Some r \<Rightarrow>
                              if r < 0 then seek_restart target it mid right
                              else seek_restart target it left (mid - 1))))
      else Some (Inr left))"
  by pat_completeness auto
termination
  by (relation "measure (\<lambda>(target, it, left, right). right - left)") auto

declare seek_restart.simps [simp del]

text \<open>The linear scan for the first key at or after \<open>target\<close>.\<close>

function seek_scan :: "bytes \<Rightarrow> Iter \<Rightarrow> Iter option" where
  "seek_scan target it =
     (case ParseNextKey it of
        None \<Rightarrow> None
      | Some (False, it') \<Rightarrow> Some it'
      | Some (True, it') \<Rightarrow>
          (case cmp_view (it_key it') target of
             None \<Rightarrow> None
           | Some r \<Rightarrow> if r \<ge> 0 then Some it' else seek_scan target it'))"
  by pat_completeness auto
termination
  by (relation "measure (scan_measure \<circ> snd)") (auto dest: scan_measure_less)

declare seek_scan.simps [simp del]

definition Iter_Seek :: "bytes \<Rightarrow> Iter \<Rightarrow> Iter option" where
  "Iter_Seek target it0 = do {
     res \<leftarrow> seek_restart target it0 0 (unat (it_num_restarts it0 - 1));
     (case res of
        Inl _ \<Rightarrow> Some it0
      | Inr left \<Rightarrow> do {
          it \<leftarrow> SeekToRestartPoint (of_nat left) it0;
          seek_scan target it }) }"

definition Iter_Next :: "Iter \<Rightarrow> Iter option" where
  "Iter_Next it = map_option snd (ParseNextKey it)"

text \<open>The loop of \<open>Prev\<close>: the restart index, or \<open>None\<close> (inside) when there are no more entries.\<close>

function prev_restart :: "Iter \<Rightarrow> u32 \<Rightarrow> u32 \<Rightarrow> u32 option option" where
  "prev_restart it now_offset index =
     (case GetRestartPoint it index of
        None \<Rightarrow> None
      | Some r \<Rightarrow>
          if now_offset \<le> r
          then if index = 0 then Some None else prev_restart it now_offset (index - 1)
          else Some (Some index))"
  by pat_completeness auto
termination
  by (relation "measure (\<lambda>(it, now, index). unat index)") (auto simp: measure_unat)

declare prev_restart.simps [simp del]

definition Iter_Prev :: "Iter \<Rightarrow> Iter option" where
  "Iter_Prev it0 = do {
     let now_offset = it_current it0;
     res \<leftarrow> prev_restart it0 now_offset (it_restart_index it0);
     (case res of
        None \<Rightarrow> Some (it0\<lparr>it_current := it_restarts it0, it_restart_index := it_num_restarts it0\<rparr>)
      | Some index \<Rightarrow> do {
          it \<leftarrow> SeekToRestartPoint index (it0\<lparr>it_restart_index := index\<rparr>);
          parse_until now_offset it }) }"

end
