(* ===== verification/Cursor.thy ===== *)
theory Cursor
  imports Keys
begin

text \<open>
  The interface of the iterators (class \<open>Iterator\<close> of src/src/db/iterator.h) as its clients use it:
  an iterator stands at a position of a list of entries, or behind its end, where it is not valid.
\<close>

section \<open>Walking\<close>

text \<open>A client's loop \<open>for (; it->Valid(); it->Next())\<close> that collects the entries, at most \<open>n\<close> of them.\<close>

fun collect ::
  "('it \<Rightarrow> bool) \<Rightarrow> ('it \<Rightarrow> 'k) \<Rightarrow> ('it \<Rightarrow> 'v option) \<Rightarrow> ('it \<Rightarrow> 'it option) \<Rightarrow> nat \<Rightarrow> 'it
    \<Rightarrow> ('k \<times> 'v) list option" where
  "collect valid key val nxt 0 it = Some []"
| "collect valid key val nxt (Suc n) it =
     (if valid it then do {
        v \<leftarrow> val it;
        it' \<leftarrow> nxt it;
        rest \<leftarrow> collect valid key val nxt n it';
        Some ((key it, v) # rest) }
      else Some [])"

text \<open>The position \<open>Seek\<close> finds: the first entry whose key is not before the target.\<close>

definition seek_pos :: "('k \<Rightarrow> 'o::linorder) \<Rightarrow> ('k \<times> 'v) list \<Rightarrow> 'k \<Rightarrow> nat" where
  "seek_pos ord es t = length (takeWhile (\<lambda>e. ord (fst e) < ord t) es)"

lemma seek_pos_bounds:
  "seek_pos ord es t \<le> length es"
  "i < seek_pos ord es t \<Longrightarrow> ord (fst (es ! i)) < ord t"
  "seek_pos ord es t < length es \<Longrightarrow> ord t \<le> ord (fst (es ! seek_pos ord es t))"
proof -
  show "seek_pos ord es t \<le> length es"
    by (simp add: seek_pos_def length_takeWhile_le)
  show "ord (fst (es ! i)) < ord t" if "i < seek_pos ord es t"
    using that nth_mem [of i "takeWhile (\<lambda>e. ord (fst e) < ord t) es"]
    by (auto simp: seek_pos_def takeWhile_nth dest: set_takeWhileD)
  show "ord t \<le> ord (fst (es ! seek_pos ord es t))" if "seek_pos ord es t < length es"
    using that nth_length_takeWhile [of "\<lambda>e. ord (fst e) < ord t" es] by (simp add: seek_pos_def not_less)
qed

lemma seek_pos_unique:
  assumes "n \<le> length es" "\<And>i. i < n \<Longrightarrow> ord (fst (es ! i)) < ord t"
    "n < length es \<Longrightarrow> ord t \<le> ord (fst (es ! n))"
  shows "seek_pos ord es t = n"
proof (rule linorder_cases [of "seek_pos ord es t" n])
  assume "seek_pos ord es t < n"
  then show ?thesis
    using assms(1,2) seek_pos_bounds(3) [of ord es t] by fastforce
next
  assume "n < seek_pos ord es t"
  then show ?thesis
    using assms(3) seek_pos_bounds(2) [of n ord es t] seek_pos_bounds(1) [of ord es t]
    by (meson leD less_le_trans)
qed

section \<open>The interface\<close>

locale cursor =
  fixes usable :: "('k \<times> 'v) list \<Rightarrow> 'it \<Rightarrow> bool"
    and pos :: "('k \<times> 'v) list \<Rightarrow> 'it \<Rightarrow> nat \<Rightarrow> bool"
    and valid :: "'it \<Rightarrow> bool" and key :: "'it \<Rightarrow> 'k" and val :: "'it \<Rightarrow> 'v option"
    and seek_first :: "'it \<Rightarrow> 'it option" and seek_last :: "'it \<Rightarrow> 'it option"
    and nxt :: "'it \<Rightarrow> 'it option" and prv :: "'it \<Rightarrow> 'it option"
  assumes pos_usable: "pos es it j \<Longrightarrow> usable es it"
    and pos_valid: "pos es it j \<Longrightarrow> valid it \<longleftrightarrow> j < length es"
    and pos_le: "pos es it j \<Longrightarrow> j \<le> length es"
    and pos_key: "pos es it j \<Longrightarrow> j < length es \<Longrightarrow> key it = fst (es ! j)"
    and pos_val: "pos es it j \<Longrightarrow> j < length es \<Longrightarrow> val it = Some (snd (es ! j))"
    and first_pos: "usable es it \<Longrightarrow> \<exists>it'. seek_first it = Some it' \<and> pos es it' 0"
    and last_pos: "usable es it \<Longrightarrow> \<exists>it'. seek_last it = Some it' \<and> pos es it' (length es - 1)"
    and nxt_pos: "pos es it j \<Longrightarrow> j < length es \<Longrightarrow> \<exists>it'. nxt it = Some it' \<and> pos es it' (Suc j)"
    and prv_pos: "pos es it j \<Longrightarrow> j < length es \<Longrightarrow>
      \<exists>it'. prv it = Some it' \<and> pos es it' (if j = 0 then length es else j - 1)"
begin

lemma collect_from:
  "pos es it j \<Longrightarrow> length es - j \<le> n \<Longrightarrow> collect valid key val nxt n it = Some (drop j es)"
proof (induction n arbitrary: it j)
  case 0
  then show ?case
    using pos_le by fastforce
next
  case (Suc n)
  show ?case
  proof (cases "j < length es")
    case True
    obtain it' where it': "nxt it = Some it'" "pos es it' (Suc j)"
      using nxt_pos [OF Suc.prems(1) True] by blast
    have "collect valid key val nxt n it' = Some (drop (Suc j) es)"
      using Suc.prems(2) by (intro Suc.IH [OF it'(2)]) simp
    moreover have "drop j es = es ! j # drop (Suc j) es"
      using True by (simp add: Cons_nth_drop_Suc)
    ultimately show ?thesis
      using True it'(1) Suc.prems(1) by (simp add: pos_valid pos_key pos_val)
  next
    case False
    then show ?thesis
      using Suc.prems(1) by (simp add: pos_valid)
  qed
qed

lemma collect_all:
  assumes "usable es it" "length es \<le> n"
  obtains it' where "seek_first it = Some it'" "collect valid key val nxt n it' = Some es"
  using first_pos [OF assms(1)] collect_from [of es _ 0 n] assms(2) by auto

lemma collect_back:
  "pos es it j \<Longrightarrow> j < length es \<Longrightarrow> j < n \<Longrightarrow>
    collect valid key val prv n it = Some (rev (take (Suc j) es))"
proof (induction n arbitrary: it j)
  case (Suc n)
  obtain it' where it': "prv it = Some it'" "pos es it' (if j = 0 then length es else j - 1)"
    using prv_pos [OF Suc.prems(1,2)] by blast
  have "collect valid key val prv n it' = Some (rev (take j es))"
  proof (cases "j = 0")
    case True
    then show ?thesis
      using it'(2) by (cases n) (simp_all add: pos_valid)
  next
    case False
    then show ?thesis
      using Suc.IH [of it' "j - 1"] Suc.prems(2,3) it'(2) by simp
  qed
  then show ?case
    using Suc.prems it'(1)
    by (simp add: pos_valid pos_key pos_val take_Suc_conv_app_nth)
qed simp

lemma collect_back_all:
  assumes "usable es it" "length es \<le> n"
  obtains it' where "seek_last it = Some it'" "collect valid key val prv n it' = Some (rev es)"
proof -
  obtain it' where it': "seek_last it = Some it'" "pos es it' (length es - 1)"
    using last_pos [OF assms(1)] by blast
  have "collect valid key val prv n it' = Some (rev es)"
  proof (cases "es = []")
    case True
    then show ?thesis
      using it'(2) by (cases n) (simp_all add: pos_valid)
  next
    case False
    then show ?thesis
      using collect_back [OF it'(2), of n] assms(2) by (cases es) simp_all
  qed
  then show ?thesis
    by (rule that [OF it'(1)])
qed

text \<open>Going one step forward from an entry that is not the last, and back again.\<close>

lemma nxt_prv:
  assumes "pos es it j" "Suc j < length es"
  obtains it1 it2 where "nxt it = Some it1" "prv it1 = Some it2" "key it2 = key it" "val it2 = val it"
    "pos es it2 j"
proof -
  obtain it1 where 1: "nxt it = Some it1" "pos es it1 (Suc j)"
    using nxt_pos [OF assms(1)] assms(2) by auto
  obtain it2 where 2: "prv it1 = Some it2" "pos es it2 j"
    using prv_pos [OF 1(2) assms(2)] by auto
  show ?thesis
    using assms(2) pos_key [OF 2(2)] pos_key [OF assms(1)] pos_val [OF 2(2)] pos_val [OF assms(1)]
    by (intro that [OF 1(1) 2(1) _ _ 2(2)]) simp_all
qed

end

text \<open>Iterators over entries in key order, with \<open>Seek\<close>.\<close>

locale sorted_cursor = cursor usable pos valid key val seek_first seek_last nxt prv
  for usable :: "('k \<times> 'v) list \<Rightarrow> 'it \<Rightarrow> bool" and pos valid key
    and val :: "'it \<Rightarrow> 'v option" and seek_first seek_last nxt prv +
  fixes ord :: "'k \<Rightarrow> 'o::linorder" and wf_key :: "'k \<Rightarrow> bool" and seek :: "'k \<Rightarrow> 'it \<Rightarrow> 'it option"
  assumes seek_to: "usable es it \<Longrightarrow> sorted (map (ord \<circ> fst) es) \<Longrightarrow> (\<forall>k \<in> fst ` set es. wf_key k) \<Longrightarrow>
      wf_key t \<Longrightarrow> \<exists>it'. seek t it = Some it' \<and> pos es it' (seek_pos ord es t)"
begin

text \<open>Seeking is searching the list from the left.\<close>

lemma seek_find:
  assumes "usable es it" "sorted (map (ord \<circ> fst) es)" "\<forall>k \<in> fst ` set es. wf_key k" "wf_key t"
  obtains it' where "seek t it = Some it'"
    "(if valid it' then map_option (\<lambda>v. (key it', v)) (val it') else None) =
       List.find (\<lambda>e. ord t \<le> ord (fst e)) es"
proof -
  obtain it' where it': "seek t it = Some it'" "pos es it' (seek_pos ord es t)"
    using seek_to [OF assms] by blast
  have f: "List.find (\<lambda>e. ord t \<le> ord (fst e)) es =
      (if seek_pos ord es t < length es then Some (es ! seek_pos ord es t) else None)"
    by (induction es) (auto simp: seek_pos_def not_le not_less)
  show ?thesis
    by (rule that [OF it'(1)])
      (use it'(2) in \<open>simp add: f pos_valid [OF it'(2)] pos_key [OF it'(2)] pos_val [OF it'(2)]\<close>)
qed

end

end
