(* ===== verification/BlockContents.thy ===== *)
theory BlockContents
  imports Block Cursor
begin

text \<open>
  What the blocks of the theory Block hold: the layout the builder writes, and the iterator's moves over
  a block with this layout, as positions in the list of entries that were added.
\<close>

section \<open>Layout\<close>

text \<open>
  An entry as it is written: the number of bytes it shares with the key before, its key, its value.
  \<open>enc\<close> is the list of entries, \<open>js\<close> the positions in it of the restart points.
\<close>

type_synonym entry = "nat \<times> bytes \<times> bytes"

fun entry_bytes :: "entry \<Rightarrow> bytes" where
  "entry_bytes (s, k, v) =
     EncodeVarint32 (of_nat s) @ EncodeVarint32 (of_nat (length k - s))
       @ EncodeVarint32 (of_nat (length v)) @ drop s k @ v"

definition entries_bytes :: "entry list \<Rightarrow> bytes" where
  "entries_bytes enc = concat (map entry_bytes enc)"

definition entry_off :: "entry list \<Rightarrow> nat \<Rightarrow> nat" where
  "entry_off enc j = length (entries_bytes (take j enc))"

definition ekey :: "entry list \<Rightarrow> nat \<Rightarrow> bytes" where
  "ekey enc j = fst (snd (enc ! j))"

fun chain_ok :: "bytes \<Rightarrow> entry list \<Rightarrow> bool" where
  "chain_ok prev [] = True"
| "chain_ok prev ((s, k, v) # es) =
     (s \<le> length k \<and> s \<le> length prev \<and> take s prev = take s k \<and> chain_ok k es)"

definition block_bytes :: "entry list \<Rightarrow> nat list \<Rightarrow> bytes" where
  "block_bytes enc js =
     entries_bytes enc @ concat (map EncodeFixed32 (map (\<lambda>j. of_nat (entry_off enc j)) js))
       @ EncodeFixed32 (of_nat (length js))"

definition restarts_ok :: "entry list \<Rightarrow> nat list \<Rightarrow> bool" where
  "restarts_ok enc js \<longleftrightarrow>
     js \<noteq> [] \<and> js ! 0 = 0 \<and> sorted js \<and> (enc = [] \<longrightarrow> length js = 1) \<and>
     (\<forall>j \<in> set js. (j = 0 \<or> j < length enc) \<and> (j < length enc \<longrightarrow> fst (enc ! j) = 0))"

definition layout_ok :: "entry list \<Rightarrow> nat list \<Rightarrow> bool" where
  "layout_ok enc js \<longleftrightarrow>
     chain_ok [] enc \<and> restarts_ok enc js \<and> length (block_bytes enc js) < 2 ^ 32"

section \<open>The builder writes this layout\<close>

definition builder_holds :: "Blockbuilder \<Rightarrow> entry list \<Rightarrow> nat list \<Rightarrow> bool" where
  "builder_holds b enc js \<longleftrightarrow>
     bb_buffer b = entries_bytes enc \<and> bb_restarts b = map (\<lambda>j. of_nat (entry_off enc j)) js \<and>
     bb_last_key b = (if enc = [] then [] else ekey enc (length enc - 1)) \<and>
     chain_ok [] enc \<and> restarts_ok enc js \<and> (enc = [] \<longrightarrow> bb_entrynum b = 0)"

lemma chain_ok_snoc:
  "chain_ok prev (enc @ [(s, k, v)]) \<longleftrightarrow>
     chain_ok prev enc \<and> s \<le> length k \<and>
     (let p = if enc = [] then prev else ekey enc (length enc - 1)
      in s \<le> length p \<and> take s p = take s k)"
proof (induction prev enc rule: chain_ok.induct)
  case (2 prev s' k' v' es)
  then show ?case
    by (cases es rule: rev_cases) (auto simp: Let_def ekey_def nth_append)
qed (simp add: Let_def)

lemma shared_len_le: "shared_len p k \<le> length p" "shared_len p k \<le> length k"
  by (induction p k rule: shared_len.induct) auto

lemma take_shared_len: "take (shared_len p k) p = take (shared_len p k) k"
  by (induction p k rule: shared_len.induct) auto

lemma entries_bytes_simps [simp]:
  "entries_bytes [] = []" "entries_bytes (e # es) = entry_bytes e @ entries_bytes es"
  "entries_bytes (es @ fs) = entries_bytes es @ entries_bytes fs"
  by (simp_all add: entries_bytes_def)

lemma entry_off_snoc: "j \<le> length enc \<Longrightarrow> entry_off (enc @ es) j = entry_off enc j"
  by (simp add: entry_off_def)

lemma holds_mk: "builder_holds mk_Blockbuilder [] [0]"
  by (simp add: builder_holds_def mk_Blockbuilder_def restarts_ok_def entry_off_def)

lemma holds_Reset: "builder_holds (Blockbuilder_Reset b) [] [0]"
  by (simp add: builder_holds_def Blockbuilder_Reset_def restarts_ok_def entry_off_def)

lemma restarts_ok_snoc:
  assumes "restarts_ok enc js" "enc = [] \<longrightarrow> fst e = 0"
  shows "restarts_ok (enc @ [e]) js"
  using assms by (auto simp: restarts_ok_def nth_append less_Suc_eq)

lemma restarts_ok_snoc_restart:
  assumes "restarts_ok enc js" "fst e = 0"
  shows "restarts_ok (enc @ [e]) (js @ [length enc])"
  using assms by (auto simp: restarts_ok_def nth_append less_Suc_eq sorted_append)

lemma holds_Add:
  assumes h: "builder_holds b enc js"
  obtains s js' where "builder_holds (Blockbuilder_Add interval k v b) (enc @ [(s, k, v)]) js'"
proof -
  let ?restart = "\<not> bb_entrynum b < interval"
  define s where "s = (if ?restart then 0 else shared_len (bb_last_key b) k)"
  define js' where "js' = (if ?restart then js @ [length enc] else js)"
  have le: "s \<le> length k" "s \<le> length (bb_last_key b)" "take s (bb_last_key b) = take s k"
    by (auto simp: s_def shared_len_le take_shared_len)
  have e0: "enc = [] \<longrightarrow> s = 0"
    using le(2) h by (auto simp: builder_holds_def)
  have r: "restarts_ok (enc @ [(s, k, v)]) js'"
    using restarts_ok_snoc [of enc js "(s, k, v)"] restarts_ok_snoc_restart [of enc js "(s, k, v)"] h e0
    by (cases ?restart) (simp_all add: builder_holds_def js'_def s_def)
  have off: "map (\<lambda>j. of_nat (entry_off (enc @ [(s, k, v)]) j) :: u32) js
      = map (\<lambda>j. of_nat (entry_off enc j)) js"
    using h by (auto simp: builder_holds_def restarts_ok_def intro!: arg_cong [of _ _ of_nat] entry_off_snoc)
  have "builder_holds (Blockbuilder_Add interval k v b) (enc @ [(s, k, v)]) js'"
    using h r le off
    by (auto simp: builder_holds_def Blockbuilder_Add_def Let_def PutVarint32_def s_def [symmetric]
        js'_def chain_ok_snoc ekey_def entry_off_def)
  then show ?thesis
    by (rule that)
qed

lemma holds_Add_all:
  assumes "builder_holds b enc js"
  shows "\<exists>enc' js'. builder_holds (fold (\<lambda>(k, v). Blockbuilder_Add interval k v) es b) enc' js' \<and>
    map snd enc' = map snd enc @ es"
  using assms
proof (induction es arbitrary: b enc js)
  case Nil
  then show ?case
    by auto
next
  case (Cons e es)
  obtain k v where e: "e = (k, v)"
    by (cases e)
  obtain s js' where "builder_holds (Blockbuilder_Add interval k v b) (enc @ [(s, k, v)]) js'"
    by (rule holds_Add [OF Cons.prems])
  from Cons.IH [OF this] show ?case
    by (simp add: e)
qed

lemma fold_PutFixed32_flip:
  "fold (\<lambda>r buf. PutFixed32 buf r) ws r = r @ concat (map EncodeFixed32 ws)"
  by (induction ws arbitrary: r) (simp_all add: PutFixed32_def)

lemma holds_Finish:
  assumes "builder_holds b enc js"
  shows "bb_buffer (Blockbuilder_Finish b) = block_bytes enc js"
proof -
  have "bb_buffer (Blockbuilder_Finish b) = bb_buffer b @ concat (map EncodeFixed32 (bb_restarts b))
      @ EncodeFixed32 (of_nat (length (bb_restarts b)))"
    unfolding Blockbuilder_Finish_def Let_def fold_PutFixed32_flip by (simp add: PutFixed32_def)
  then show ?thesis
    using assms by (simp add: builder_holds_def block_bytes_def)
qed

text \<open>The block over a list of entries, as the table builder makes it.\<close>

definition build_block :: "int \<Rightarrow> (bytes \<times> bytes) list \<Rightarrow> bytes" where
  "build_block interval es =
     bb_buffer (Blockbuilder_Finish (fold (\<lambda>(k, v). Blockbuilder_Add interval k v) es mk_Blockbuilder))"

lemma build_block_layout:
  assumes "length (build_block interval es) < 2 ^ 32"
  obtains enc js where "build_block interval es = block_bytes enc js" "layout_ok enc js"
    "map snd enc = es"
proof -
  obtain enc js where h: "builder_holds (fold (\<lambda>(k, v). Blockbuilder_Add interval k v) es mk_Blockbuilder) enc js"
    "map snd enc = es"
    using holds_Add_all [OF holds_mk, where es = es and interval = interval] by auto
  have "build_block interval es = block_bytes enc js"
    unfolding build_block_def by (rule holds_Finish [OF h(1)])
  then show ?thesis
    using that h assms by (auto simp: layout_ok_def builder_holds_def)
qed

section \<open>Sizes\<close>

lemma entry_off_Suc: "j < length enc \<Longrightarrow> entry_off enc (Suc j) = entry_off enc j + length (entry_bytes (enc ! j))"
  by (simp add: entry_off_def take_Suc_conv_app_nth)

lemma entry_off_mono: "i \<le> j \<Longrightarrow> entry_off enc i \<le> entry_off enc j"
proof -
  assume "i \<le> j"
  then obtain d where "j = i + d"
    by (auto simp: le_iff_add)
  then show ?thesis
    by (simp add: entry_off_def take_add)
qed

lemma length_entry_bytes: "3 + (length k - s) + length v \<le> length (entry_bytes (s, k, v))"
proof -
  have "1 \<le> length (EncodeVarint32 x)" for x
    by (rule length_EncodeVarint32_bounds)
  from this [of "of_nat s"] this [of "of_nat (length k - s)"] this [of "of_nat (length v)"]
  show ?thesis
    unfolding entry_bytes.simps length_append length_drop by linarith
qed

lemma entry_off_less:
  assumes "i < j" "j \<le> length enc"
  shows "entry_off enc i + 3 \<le> entry_off enc j"
proof -
  obtain s k v where e: "enc ! i = (s, k, v)"
    by (cases "enc ! i")
  have "entry_off enc i + 3 \<le> entry_off enc (Suc i)"
    using assms length_entry_bytes [of k s v] by (simp add: entry_off_Suc e)
  also have "\<dots> \<le> entry_off enc j"
    using assms by (intro entry_off_mono) simp
  finally show ?thesis .
qed

lemma entry_off_length: "entry_off enc (length enc) = length (entries_bytes enc)"
  by (simp add: entry_off_def)

lemma entry_off_le: "entry_off enc j \<le> length (entries_bytes enc)"
proof (cases "j \<le> length enc")
  case True
  then show ?thesis
    using entry_off_mono [OF True, of enc] by (simp add: entry_off_length)
qed (simp add: entry_off_def)

text \<open>No key is longer than the bytes up to the end of its entry, shared bytes included.\<close>

lemma chain_ok_nth_all:
  assumes "chain_ok prev enc" "j < length enc" "enc ! j = (s, k, v)"
  shows "s \<le> length k \<and> s \<le> length (if j = 0 then prev else ekey enc (j - 1)) \<and>
    take s (if j = 0 then prev else ekey enc (j - 1)) = take s k"
  using assms
proof (induction prev enc arbitrary: j rule: chain_ok.induct)
  case (2 prev s' k' v' es)
  show ?case
  proof (cases j)
    case (Suc i)
    then show ?thesis
      using 2 by (cases i) (fastforce simp: ekey_def)+
  qed (use 2 in auto)
qed simp

lemmas chain_ok_nth =
  chain_ok_nth_all [THEN conjunct1] chain_ok_nth_all [THEN conjunct2, THEN conjunct1]
  chain_ok_nth_all [THEN conjunct2, THEN conjunct2]

lemma key_length_bound:
  assumes "chain_ok [] enc" "j < length enc"
  shows "length (ekey enc j) \<le> entry_off enc (Suc j)"
  using assms(2)
proof (induction j)
  case 0
  obtain s k v where e: "enc ! 0 = (s, k, v)"
    by (cases "enc ! 0")
  have "s = 0"
    using chain_ok_nth(2) [OF assms(1) 0 e] by simp
  then show ?case
    using 0 length_entry_bytes [of k s v] by (simp add: entry_off_Suc e ekey_def)
next
  case (Suc j)
  obtain s k v where e: "enc ! Suc j = (s, k, v)"
    by (cases "enc ! Suc j")
  have "s \<le> length (ekey enc j)"
    using chain_ok_nth(2) [OF assms(1) Suc.prems e] by simp
  then show ?case
    using Suc length_entry_bytes [of k s v] by (simp add: entry_off_Suc [of "Suc j"] e ekey_def)
qed

section \<open>Decoding an entry\<close>

lemma EncodeVarint32_first: "unat v < 128 \<longleftrightarrow> \<not> bit (EncodeVarint32 v ! 0) 7"
proof -
  have b: "\<not> bit v 7" if "v < 128"
    using not_bit_less [of v 7 7] that by (simp add: word_less_nat_alt)
  have "bit (EncodeVarint32 v ! 0) 7 \<longleftrightarrow> \<not> v < 128"
    using b by (simp add: EncodeVarint32_def bit_simps)
  then show ?thesis
    by (simp add: word_less_nat_alt)
qed

lemma or3_less_128:
  fixes x y z :: byte
  shows "(ucast x OR ucast y OR ucast z :: u32) < 128 \<longleftrightarrow> \<not> bit x 7 \<and> \<not> bit y 7 \<and> \<not> bit z 7"
proof -
  have d: "drop_bit 7 (ucast w :: u32) = 0 \<longleftrightarrow> \<not> bit w 7" for w :: byte
  proof
    assume "drop_bit 7 (ucast w :: u32) = 0"
    then have "\<not> bit (drop_bit 7 (ucast w :: u32)) 0"
      by simp
    then show "\<not> bit w 7"
      by (simp add: bit_simps)
  next
    assume b: "\<not> bit w 7"
    show "drop_bit 7 (ucast w :: u32) = 0"
    proof (rule bit_word_eqI)
      fix n assume "n < LENGTH(32)"
      show "bit (drop_bit 7 (ucast w :: u32)) n = bit 0 n"
        using b by (cases n) (auto simp: bit_simps dest: bit_imp_le_length)
    qed
  qed
  have "(ucast x OR ucast y OR ucast z :: u32) < 128 \<longleftrightarrow> drop_bit 7 (ucast x OR ucast y OR ucast z :: u32) = 0"
    using unat_less_exp_drop [of "ucast x OR ucast y OR ucast z :: u32" 7]
    by (simp add: word_less_nat_alt)
  also have "\<dots> \<longleftrightarrow> drop_bit 7 (ucast x :: u32) = 0 \<and> drop_bit 7 (ucast y :: u32) = 0
      \<and> drop_bit 7 (ucast z :: u32) = 0"
    by (simp only: drop_bit_or or_eq_0_iff)
  finally show ?thesis
    by (simp only: d)
qed

lemma entry_header_Encode [codec]:
  "entry_header (EncodeVarint32 a @ EncodeVarint32 b @ EncodeVarint32 c @ rest) = Some (a, b, c, rest)"
proof (cases "unat a < 128 \<and> unat b < 128 \<and> unat c < 128")
  case True
  then have s: "EncodeVarint32 a = [ucast a]" "EncodeVarint32 b = [ucast b]" "EncodeVarint32 c = [ucast c]"
    by (simp_all add: EncodeVarint32_small)
  have u: "(ucast (ucast w :: byte) :: u32) = w" if "unat w < 128" for w :: u32
  proof (rule bit_word_eqI)
    fix n assume "n < LENGTH(32)"
    show "bit (ucast (ucast w :: byte) :: u32) n = bit w n"
      using not_bit_less [of w 7 n] that by (cases "n < 8") (auto simp: bit_simps)
  qed
  have "\<not> bit (ucast w :: byte) 7" if "unat w < 128" for w :: u32
    using not_bit_less [of w 7 7] that by (simp add: bit_simps)
  then have "a OR b OR c < 128"
    using True or3_less_128 [of "ucast a" "ucast b" "ucast c"] by (simp add: u)
  with True show ?thesis
    by (simp add: entry_header_def s u)
next
  case False
  let ?s = "EncodeVarint32 a @ EncodeVarint32 b @ EncodeVarint32 c @ rest"
  have big: "\<exists>y ys. EncodeVarint32 w = y # ys \<and> bit y 7" if "\<not> unat w < 128" for w
    using EncodeVarint32_first [of w] that by (cases "EncodeVarint32 w") simp_all
  consider "\<not> unat a < 128" | "unat a < 128" "\<not> unat b < 128"
    | "unat a < 128" "unat b < 128" "\<not> unat c < 128"
    using False by blast
  then have "bit (?s ! 0) 7 \<or> bit (?s ! 1) 7 \<or> bit (?s ! 2) 7"
    by cases (auto dest!: big simp: EncodeVarint32_small)
  then have "\<not> (ucast (?s ! 0) OR ucast (?s ! 1) OR ucast (?s ! 2) :: u32) < 128"
    unfolding or3_less_128 by blast
  then show ?thesis
    by (simp add: entry_header_def)
qed

lemma DecodeEntry_at:
  assumes L: "layout_ok enc js" and j: "j < length enc" and e: "enc ! j = (s, k, v)"
  defines "data \<equiv> block_bytes enc js" and "limit \<equiv> length (entries_bytes enc)"
  defines "q \<equiv> entry_off enc (Suc j) - (length k - s) - length v"
  shows "DecodeEntry data (entry_off enc j) limit
      = Some (of_nat s, of_nat (length k - s), of_nat (length v), q)"
    and "unat (of_nat s :: u32) = s" "unat (of_nat (length k - s) :: u32) = length k - s"
      "unat (of_nat (length v) :: u32) = length v" "s \<le> length k"
    and "take (length k - s) (drop q data) = drop s k"
    and "take (length v) (drop (q + (length k - s)) data) = v"
    and "q + (length k - s) + length v = entry_off enc (Suc j)"
    and "entry_off enc (Suc j) \<le> limit" "limit \<le> length data" "limit < 2 ^ 32"
proof -
  let ?hd = "EncodeVarint32 (of_nat s) @ EncodeVarint32 (of_nat (length k - s)) @ EncodeVarint32 (of_nat (length v))"
  let ?pre = "entries_bytes (take j enc)" and ?post = "entries_bytes (drop (Suc j) enc)"
  have enc: "enc = take j enc @ (s, k, v) # drop (Suc j) enc"
    using id_take_nth_drop [OF j] e by simp
  obtain tail where tail: "data = entries_bytes enc @ tail"
    by (simp add: data_def block_bytes_def)
  have body: "entries_bytes enc = ?pre @ (?hd @ drop s k @ v) @ ?post"
    by (subst enc) simp
  have lt: "length data < 2 ^ 32"
    using L by (simp add: layout_ok_def data_def)
  then show lim: "limit \<le> length data" "limit < 2 ^ 32"
    by (auto simp: tail limit_def)
  have chain: "chain_ok [] enc"
    using L by (simp add: layout_ok_def)
  show sk: "s \<le> length k"
    by (rule chain_ok_nth(1) [OF chain j e])
  have off: "length ?pre = entry_off enc j"
    by (simp add: entry_off_def)
  have off': "entry_off enc (Suc j) = entry_off enc j + length ?hd + (length k - s) + length v"
    using j e by (simp add: entry_off_Suc)
  then have q: "q = entry_off enc j + length ?hd"
    by (simp add: q_def)
  show "q + (length k - s) + length v = entry_off enc (Suc j)"
    using off' q by simp
  show offl: "entry_off enc (Suc j) \<le> limit"
    unfolding limit_def by (rule entry_off_le)
  have "length k \<le> limit"
    using key_length_bound [OF chain j] offl e by (simp add: ekey_def)
  then show "unat (of_nat s :: u32) = s" "unat (of_nat (length k - s) :: u32) = length k - s"
    "unat (of_nat (length v) :: u32) = length v"
    using lim(2) sk off' offl by (auto intro!: unat_of_nat_u32 simp del: of_nat_diff)
  have dropq: "drop q data = drop s k @ v @ ?post @ tail"
    unfolding tail body q off [symmetric] by simp
  show "take (length k - s) (drop q data) = drop s k"
    unfolding dropq by simp
  have "drop (q + (length k - s)) data = drop (length k - s) (drop q data)"
    by (simp add: add.commute)
  also have "\<dots> = v @ ?post @ tail"
    unfolding dropq by simp
  finally show "take (length v) (drop (q + (length k - s)) data) = v"
    by simp
  have sl: "take (limit - entry_off enc j) (drop (entry_off enc j) data) = ?hd @ drop s k @ v @ ?post"
    unfolding limit_def tail body off [symmetric] by simp
  have rest: "length (drop s k @ v @ ?post) = limit - q"
    unfolding limit_def body q off [symmetric] by simp
  have sum: "(of_nat (length k - s) + of_nat (length v) :: u32) = of_nat ((length k - s) + length v)"
    by simp
  have "(length k - s) + length v \<le> limit - q"
    using offl off' q by linarith
  then have nl: "\<not> (of_nat (limit - q) :: u32) < of_nat (length k - s) + of_nat (length v)"
    unfolding sum using lim(2) by (simp add: word_less_nat_alt unat_of_nat del: of_nat_add)
  have "entry_off enc j + 3 \<le> limit"
    using entry_off_less [of j "Suc j" enc] j offl by linarith
  moreover have "limit - (limit - q) = q"
    using off' offl q by simp
  ultimately show "DecodeEntry data (entry_off enc j) limit
      = Some (of_nat s, of_nat (length k - s), of_nat (length v), q)"
    unfolding DecodeEntry_def sl
    using entry_header_Encode [of "of_nat s" "of_nat (length k - s)" "of_nat (length v)" "drop s k @ v @ ?post"]
      rest nl by simp
qed

section \<open>Positions\<close>

text \<open>An iterator over the block; ready to parse entry \<open>j\<close>; standing at entry \<open>j\<close>.\<close>

definition iter_on :: "entry list \<Rightarrow> nat list \<Rightarrow> Iter \<Rightarrow> bool" where
  "iter_on enc js it \<longleftrightarrow>
     it_data it = block_bytes enc js \<and> it_restarts it = of_nat (length (entries_bytes enc)) \<and>
     it_num_restarts it = of_nat (length js)"

definition iter_ready :: "entry list \<Rightarrow> nat list \<Rightarrow> Iter \<Rightarrow> nat \<Rightarrow> bool" where
  "iter_ready enc js it j \<longleftrightarrow>
     iter_on enc js it \<and> j \<le> length enc \<and> unat (it_restart_index it) < length js \<and>
     NextEntryOffset it = Some (of_nat (entry_off enc j)) \<and>
     (j < length enc \<longrightarrow>
        fst (enc ! j) \<le> length (it_key it) \<and> take (fst (enc ! j)) (it_key it) = take (fst (enc ! j)) (ekey enc j))"

definition iter_at :: "entry list \<Rightarrow> nat list \<Rightarrow> Iter \<Rightarrow> nat \<Rightarrow> bool" where
  "iter_at enc js it j \<longleftrightarrow>
     iter_on enc js it \<and> j < length enc \<and> unat (it_restart_index it) < length js \<and>
     it_current it = of_nat (entry_off enc j) \<and> it_key it = ekey enc j \<and>
     Iter_value it = Some (snd (snd (enc ! j))) \<and>
     NextEntryOffset it = Some (of_nat (entry_off enc (Suc j)))"

definition iter_invalid :: "entry list \<Rightarrow> nat list \<Rightarrow> Iter \<Rightarrow> bool" where
  "iter_invalid enc js it \<longleftrightarrow> iter_on enc js it \<and> \<not> Iter_Valid it"

lemma layout_bounds:
  assumes "layout_ok enc js"
  shows "entry_off enc j < 2 ^ 32" "length js < 2 ^ 32"
    "length (entries_bytes enc) < 2 ^ 32" "length (block_bytes enc js) < 2 ^ 32"
    "unat (of_nat (entry_off enc j) :: u32) = entry_off enc j"
    "unat (of_nat (length js) :: u32) = length js"
    "unat (of_nat (length (entries_bytes enc)) :: u32) = length (entries_bytes enc)"
proof -
  have b: "length (block_bytes enc js) < 2 ^ 32"
    using assms by (simp add: layout_ok_def)
  then show "length (block_bytes enc js) < 2 ^ 32" .
  have "length (block_bytes enc js) = length (entries_bytes enc) + 4 * length js + 4"
    by (induction js) (simp_all add: block_bytes_def)
  with b show 1: "length js < 2 ^ 32" "length (entries_bytes enc) < 2 ^ 32"
    by linarith+
  with entry_off_le [of enc j] show 2: "entry_off enc j < 2 ^ 32"
    by linarith
  show "unat (of_nat (entry_off enc j) :: u32) = entry_off enc j"
    "unat (of_nat (length js) :: u32) = length js"
    "unat (of_nat (length (entries_bytes enc)) :: u32) = length (entries_bytes enc)"
    using 1 2 by (simp_all only: unat_of_nat_u32)
qed

lemma concat_Encode_nth:
  assumes "i < length ws"
  shows "le32 (drop (i * 4) (concat (map EncodeFixed32 ws) @ r)) = ws ! i"
    "4 \<le> length (drop (i * 4) (concat (map EncodeFixed32 ws) @ r))"
proof -
  have "drop (i * 4) (concat (map EncodeFixed32 ws) @ r)
      = EncodeFixed32 (ws ! i) @ concat (map EncodeFixed32 (drop (Suc i) ws)) @ r"
    using assms
  proof (induction ws arbitrary: i)
    case (Cons w ws)
    then show ?case
      by (cases i) auto
  qed simp
  then show "le32 (drop (i * 4) (concat (map EncodeFixed32 ws) @ r)) = ws ! i"
    "4 \<le> length (drop (i * 4) (concat (map EncodeFixed32 ws) @ r))"
    by simp_all
qed

lemma GetRestartPoint_at:
  assumes "layout_ok enc js" "iter_on enc js it" "unat i < length js"
  shows "GetRestartPoint it i = Some (of_nat (entry_off enc (js ! unat i)))"
proof -
  let ?ws = "map (\<lambda>j. of_nat (entry_off enc j)) js :: u32 list"
  have d: "drop (unat (it_restarts it) + unat i * 4) (it_data it)
      = drop (unat i * 4) (concat (map EncodeFixed32 ?ws) @ EncodeFixed32 (of_nat (length js)))"
    using assms(2) layout_bounds(7) [OF assms(1)]
    by (simp add: iter_on_def block_bytes_def add.commute flip: drop_drop)
  show ?thesis
    using concat_Encode_nth [of "unat i" ?ws "EncodeFixed32 (of_nat (length js))"] assms(3)
    unfolding GetRestartPoint_def d DecodeFixed32_def by simp
qed

lemma advance_restart_at:
  assumes "layout_ok enc js" "iter_on enc js it" "unat (it_restart_index it) < length js"
  obtains i where "advance_restart it = Some (it\<lparr>it_restart_index := i\<rparr>)" "unat i < length js"
  using assms(2,3)
proof (induction it arbitrary: thesis rule: advance_restart.induct)
  case (1 it)
  show ?case
  proof (cases "it_restart_index it + 1 < it_num_restarts it")
    case False
    then show ?thesis
      using "1.prems"(1) [of "it_restart_index it"] "1.prems"(3)
      by (simp add: advance_restart.simps [of it])
  next
    case True
    then have i: "unat (it_restart_index it + 1) < length js"
      using "1.prems"(2) layout_bounds(6) [OF assms(1)]
      by (simp add: iter_on_def word_less_nat_alt)
    note r = GetRestartPoint_at [OF assms(1) "1.prems"(2) i]
    let ?it = "it\<lparr>it_restart_index := it_restart_index it + 1\<rparr>"
    show ?thesis
    proof (cases "of_nat (entry_off enc (js ! unat (it_restart_index it + 1))) < it_current it")
      case False
      then show ?thesis
        using "1.prems"(1) [of "it_restart_index it"] "1.prems"(3) True r
        by (simp add: advance_restart.simps [of it])
    next
      case lt: True
      have "iter_on enc js ?it"
        using "1.prems"(2) by (simp add: iter_on_def)
      then obtain i' where "advance_restart ?it = Some (?it\<lparr>it_restart_index := i'\<rparr>)" "unat i' < length js"
        using "1.IH" [OF True r lt] i by auto
      then show ?thesis
        using "1.prems"(1) [of i'] True r lt by (simp add: advance_restart.simps [of it])
    qed
  qed
qed

section \<open>Parsing at a position\<close>

lemma ParseNextKey_ready:
  assumes L: "layout_ok enc js" and r: "iter_ready enc js it j" and j: "j < length enc"
  obtains it' where "ParseNextKey it = Some (True, it')" "iter_at enc js it' j"
proof -
  obtain s k v where e: "enc ! j = (s, k, v)"
    by (cases "enc ! j")
  note D = DecodeEntry_at [OF L j e] and B = layout_bounds [OF L]
  let ?limit = "length (entries_bytes enc)" and ?c = "of_nat (entry_off enc j) :: u32"
  let ?q = "entry_off enc (Suc j) - (length k - s) - length v"
  have on: "iter_on enc js it" "unat (it_restart_index it) < length js"
    "NextEntryOffset it = Some ?c" "s \<le> length (it_key it)" "take s (it_key it) = take s k"
    using r j e by (auto simp: iter_ready_def ekey_def)
  let ?it1 = "it\<lparr>it_current := ?c,
      it_key := take (unat (of_nat s :: u32)) (it_key it)
        @ take (unat (of_nat (length k - s) :: u32)) (drop ?q (it_data it)),
      it_value := Some (?q + unat (of_nat (length k - s) :: u32), unat (of_nat (length v) :: u32))\<rparr>"
  have "iter_on enc js ?it1" "unat (it_restart_index ?it1) < length js"
    using on by (simp_all add: iter_on_def)
  then obtain i where adv: "advance_restart ?it1 = Some (?it1\<lparr>it_restart_index := i\<rparr>)" "unat i < length js"
    by (rule advance_restart_at [OF L])
  have data: "it_data it = block_bytes enc js" "it_restarts it = of_nat ?limit"
    using on(1) by (simp_all add: iter_on_def)
  have lt: "entry_off enc j < ?limit"
    using D(9) entry_off_less [of j "Suc j" enc] j by linarith
  have parse: "ParseNextKey it = Some (True, ?it1\<lparr>it_restart_index := i\<rparr>)"
  proof -
    have a: "\<not> length (it_data it) < unat (it_restarts it)"
      using D(10) B(7) by (simp add: data)
    have b: "\<not> it_restarts it \<le> ?c"
      using lt B(7) B(5) [of j] by (simp add: data word_le_nat_alt)
    have c: "DecodeEntry (it_data it) (unat ?c) (unat (it_restarts it))
        = Some (of_nat s, of_nat (length k - s), of_nat (length v), ?q)"
      using D(1) B(7) B(5) [of j] by (simp only: data)
    have d: "\<not> length (it_key it) < unat (of_nat s :: u32)"
      using on(4) D(2) by simp
    have "length (it_data it) \<ge> entry_off enc (Suc j)"
      using D(9,10) by (simp add: data)
    then have f: "\<not> length (it_data it) < ?q + unat (of_nat (length k - s) :: u32)"
      using D(3,8) by linarith
    show ?thesis
      using a b c d f adv(1) by (simp add: ParseNextKey_def on(3) Let_def del: of_nat_diff)
  qed
  have "iter_at enc js (?it1\<lparr>it_restart_index := i\<rparr>) j"
  proof -
    have "take s (it_key it) @ take (length k - s) (drop ?q (block_bytes enc js)) = k"
      using on(5) D(6) by simp
    moreover have "length (block_bytes enc js) \<ge> ?q + (length k - s) + length v"
      using D(8,9,10) by linarith
    moreover have "(of_nat (?q + (length k - s) + length v) :: u32) = of_nat (entry_off enc (Suc j))"
      using D(8) by simp
    ultimately show ?thesis
      using on(1) j adv(2) D(2,3,4,7) e
      by (simp add: iter_at_def iter_on_def data ekey_def Iter_value_def NextEntryOffset_def
          del: of_nat_diff of_nat_add)
  qed
  with parse show ?thesis
    by (rule that)
qed

lemma ParseNextKey_end:
  assumes L: "layout_ok enc js" and r: "iter_ready enc js it (length enc)"
  obtains it' where "ParseNextKey it = Some (False, it')" "iter_invalid enc js it'"
proof -
  have on: "it_data it = block_bytes enc js" "it_restarts it = of_nat (length (entries_bytes enc))"
    "it_num_restarts it = of_nat (length js)" "NextEntryOffset it = Some (of_nat (length (entries_bytes enc)))"
    using r by (simp_all add: iter_ready_def iter_on_def entry_off_length)
  have "length (entries_bytes enc) \<le> length (block_bytes enc js)"
    by (simp add: block_bytes_def)
  then have "ParseNextKey it = Some (False, it\<lparr>it_current := it_restarts it, it_restart_index := it_num_restarts it\<rparr>)"
    using on layout_bounds(7) [OF L] by (simp add: ParseNextKey_def Let_def)
  then show ?thesis
    by (rule that) (simp add: iter_invalid_def iter_on_def on Iter_Valid_def)
qed

lemma iter_at_Valid:
  assumes L: "layout_ok enc js" and a: "iter_at enc js it j"
  shows "Iter_Valid it" "Iter_key it = ekey enc j" "Iter_value it = Some (snd (snd (enc ! j)))"
proof -
  have j: "j < length enc"
    using a by (simp add: iter_at_def)
  have "entry_off enc j < length (entries_bytes enc)"
    using entry_off_less [OF j, of enc] entry_off_length [of enc] by simp
  then show "Iter_Valid it"
    using a layout_bounds(7) [OF L] layout_bounds(5) [OF L, of j]
    by (simp add: iter_at_def iter_on_def Iter_Valid_def word_less_nat_alt)
  show "Iter_key it = ekey enc j" "Iter_value it = Some (snd (snd (enc ! j)))"
    using a by (simp_all add: iter_at_def Iter_key_def)
qed

lemma iter_at_ready:
  assumes L: "layout_ok enc js" and a: "iter_at enc js it j"
  shows "iter_ready enc js it (Suc j)"
proof -
  have c: "chain_ok [] enc"
    using L by (simp add: layout_ok_def)
  have "fst (enc ! Suc j) \<le> length (ekey enc j) \<and>
      take (fst (enc ! Suc j)) (ekey enc j) = take (fst (enc ! Suc j)) (ekey enc (Suc j))"
    if "Suc j < length enc"
    using chain_ok_nth_all [OF c that, of "fst (enc ! Suc j)" "fst (snd (enc ! Suc j))" "snd (snd (enc ! Suc j))"]
    by (simp add: ekey_def)
  then show ?thesis
    using a by (simp add: iter_at_def iter_ready_def)
qed

lemma SeekToRestartPoint_ready:
  assumes L: "layout_ok enc js" and on: "iter_on enc js it" and i: "unat i < length js"
  obtains it' where "SeekToRestartPoint i it = Some it'" "iter_ready enc js it' (js ! unat i)"
proof -
  let ?j = "js ! unat i"
  have j: "?j = 0 \<or> ?j < length enc" "?j < length enc \<longrightarrow> fst (enc ! ?j) = 0"
    using L i by (auto simp: layout_ok_def restarts_ok_def)
  have b: "unat (of_nat (entry_off enc ?j) :: u32) = entry_off enc ?j"
    by (rule layout_bounds(5) [OF L])
  show ?thesis
  proof (rule that)
    show "SeekToRestartPoint i it =
        Some (it\<lparr>it_key := [], it_restart_index := i, it_value := Some (entry_off enc ?j, 0)\<rparr>)"
      using GetRestartPoint_at [OF L on i] b by (simp add: SeekToRestartPoint_def)
    show "iter_ready enc js (it\<lparr>it_key := [], it_restart_index := i, it_value := Some (entry_off enc ?j, 0)\<rparr>) ?j"
      using on i j by (auto simp: iter_ready_def iter_on_def NextEntryOffset_def)
  qed
qed

section \<open>The moves\<close>

lemma restart_0:
  assumes "layout_ok enc js"
  shows "0 < length js" "js ! 0 = 0" "unat (of_nat (length js) - 1 :: u32) = length js - 1"
proof -
  show 1: "0 < length js" "js ! 0 = 0"
    using assms by (auto simp: layout_ok_def restarts_ok_def)
  have "(of_nat (length js) - 1 :: u32) = of_nat (length js - 1)"
    using 1(1) by (simp add: of_nat_diff Suc_leI)
  then show "unat (of_nat (length js) - 1 :: u32) = length js - 1"
    using layout_bounds(2) [OF assms] by (simp add: unat_of_nat del: of_nat_diff)
qed

definition iter_pos :: "entry list \<Rightarrow> nat list \<Rightarrow> Iter \<Rightarrow> nat \<Rightarrow> bool" where
  "iter_pos enc js it j \<longleftrightarrow>
     (if j < length enc then iter_at enc js it j else j = length enc \<and> iter_invalid enc js it)"

lemma iter_pos_on: "iter_pos enc js it j \<Longrightarrow> iter_on enc js it"
  by (auto simp: iter_pos_def iter_at_def iter_invalid_def split: if_splits)

lemma ParseNextKey_pos:
  assumes L: "layout_ok enc js" and r: "iter_ready enc js it j"
  obtains it' where "ParseNextKey it = Some (j < length enc, it')" "iter_pos enc js it' j"
proof (cases "j < length enc")
  case True
  then show ?thesis
    using that by (auto simp: iter_pos_def elim: ParseNextKey_ready [OF L r True])
next
  case False
  then have j: "j = length enc"
    using r by (simp add: iter_ready_def)
  obtain it' where "ParseNextKey it = Some (False, it')" "iter_invalid enc js it'"
    by (rule ParseNextKey_end [OF L r [unfolded j]])
  then show ?thesis
    using that [of it'] by (simp add: iter_pos_def j)
qed

lemma SeekToFirst_pos:
  assumes L: "layout_ok enc js" and on: "iter_on enc js it"
  obtains it' where "Iter_SeekToFirst it = Some it'" "iter_pos enc js it' 0"
proof -
  obtain it1 where 1: "SeekToRestartPoint 0 it = Some it1" "iter_ready enc js it1 0"
    using SeekToRestartPoint_ready [OF L on, of 0] restart_0 [OF L] by auto
  obtain it2 where 2: "ParseNextKey it1 = Some (0 < length enc, it2)" "iter_pos enc js it2 0"
    by (rule ParseNextKey_pos [OF L 1(2)])
  show ?thesis
    by (rule that [of it2]) (simp_all add: Iter_SeekToFirst_def 1(1) 2)
qed

lemma Next_pos:
  assumes L: "layout_ok enc js" and p: "iter_pos enc js it j" and j: "j < length enc"
  obtains it' where "Iter_Next it = Some it'" "iter_pos enc js it' (Suc j)"
proof -
  have "iter_at enc js it j"
    using p j by (simp add: iter_pos_def)
  then have r: "iter_ready enc js it (Suc j)"
    by (rule iter_at_ready [OF L])
  obtain it' where "ParseNextKey it = Some (Suc j < length enc, it')" "iter_pos enc js it' (Suc j)"
    by (rule ParseNextKey_pos [OF L r])
  then show ?thesis
    using that [of it'] by (simp add: Iter_Next_def)
qed

lemma parse_until_pos:
  assumes L: "layout_ok enc js" and r: "iter_ready enc js it j" and b: "j < b" "b \<le> length enc"
  obtains it' where "parse_until (of_nat (entry_off enc b)) it = Some it'" "iter_pos enc js it' (b - 1)"
  using r b(1)
proof (induction "b - j" arbitrary: it j thesis)
  case (Suc d)
  have j: "j < length enc"
    using Suc.prems(3) b(2) by simp
  obtain it1 where 1: "ParseNextKey it = Some (True, it1)" "iter_at enc js it1 j"
    by (rule ParseNextKey_ready [OF L Suc.prems(2) j])
  have n: "NextEntryOffset it1 = Some (of_nat (entry_off enc (Suc j)))"
    using 1(2) by (simp add: iter_at_def)
  have lt: "(of_nat (entry_off enc (Suc j)) :: u32) < of_nat (entry_off enc b) \<longleftrightarrow> Suc j < b"
    using layout_bounds(5) [OF L, of "Suc j"] layout_bounds(5) [OF L, of b]
      entry_off_less [of "Suc j" b enc] entry_off_mono [of b "Suc j" enc] b(2)
    by (cases "Suc j < b") (simp_all add: word_less_nat_alt)
  show ?case
  proof (cases "Suc j < b")
    case True
    have "d = b - Suc j"
      using Suc.hyps(2) by simp
    then obtain it' where "parse_until (of_nat (entry_off enc b)) it1 = Some it'" "iter_pos enc js it' (b - 1)"
      using Suc.hyps(1) [OF _ _ iter_at_ready [OF L 1(2)] True] by blast
    then show ?thesis
      using Suc.prems(1) 1(1) n lt True by (simp add: parse_until.simps [of _ it])
  next
    case False
    then have "j = b - 1"
      using Suc.prems(3) by simp
    then show ?thesis
      using Suc.prems(1) [of it1] 1 n lt False j
      by (simp add: parse_until.simps [of _ it] iter_pos_def)
  qed
qed simp

lemma SeekToLast_pos:
  assumes L: "layout_ok enc js" and on: "iter_on enc js it"
  obtains it' where "Iter_SeekToLast it = Some it'" "iter_pos enc js it' (length enc - 1)"
proof -
  have n: "it_num_restarts it = of_nat (length js)"
    "it_restarts it = of_nat (entry_off enc (length enc))"
    using on by (simp_all add: iter_on_def entry_off_length)
  let ?i = "of_nat (length js) - 1 :: u32"
  have i: "unat ?i < length js"
    using restart_0 [OF L] by simp
  obtain it1 where 1: "SeekToRestartPoint ?i it = Some it1" "iter_ready enc js it1 (js ! unat ?i)"
    by (rule SeekToRestartPoint_ready [OF L on i])
  have r: "it_restarts it1 = of_nat (entry_off enc (length enc))"
    using 1(2) by (simp add: iter_ready_def iter_on_def entry_off_length)
  have j: "js ! unat ?i = 0 \<or> js ! unat ?i < length enc"
    using L i by (auto simp: layout_ok_def restarts_ok_def)
  show ?thesis
  proof (cases "enc = []")
    case True
    then have "iter_ready enc js it1 (length enc)"
      using 1(2) j by simp
    then obtain it2 where 2: "ParseNextKey it1 = Some (False, it2)" "iter_invalid enc js it2"
      by (rule ParseNextKey_end [OF L])
    show ?thesis
      by (rule that [of it2])
        (use 2 True in \<open>simp_all add: Iter_SeekToLast_def n(1) 1(1) parse_until.simps [of _ it1] iter_pos_def\<close>)
  next
    case False
    then have "js ! unat ?i < length enc"
      using j by auto
    then obtain it2 where "parse_until (of_nat (entry_off enc (length enc))) it1 = Some it2"
      "iter_pos enc js it2 (length enc - 1)"
      by (rule parse_until_pos [OF L 1(2)]) simp
    then show ?thesis
      using that [of it2] by (simp add: Iter_SeekToLast_def n(1) 1(1) r)
  qed
qed

lemma prev_restart_pos:
  assumes L: "layout_ok enc js" and on: "iter_on enc js it" and i: "unat i < length js"
  shows "(j = 0 \<longrightarrow> prev_restart it (of_nat (entry_off enc j)) i = Some None) \<and>
    (0 < j \<and> j \<le> length enc \<longrightarrow> (\<exists>i'. prev_restart it (of_nat (entry_off enc j)) i = Some (Some i') \<and>
       unat i' < length js \<and> js ! unat i' < j))"
  using i
proof (induction "unat i" arbitrary: i rule: less_induct)
  case less
  let ?r = "js ! unat i"
  have r: "GetRestartPoint it i = Some (of_nat (entry_off enc ?r))"
    by (rule GetRestartPoint_at [OF L on less.prems])
  have le: "(of_nat (entry_off enc j) :: u32) \<le> of_nat (entry_off enc ?r)
      \<longleftrightarrow> entry_off enc j \<le> entry_off enc ?r"
    using layout_bounds(5) [OF L, of j] layout_bounds(5) [OF L, of ?r] by (simp add: word_le_nat_alt)
  show ?case
  proof (cases "entry_off enc j \<le> entry_off enc ?r")
    case False
    then have "\<not> j \<le> ?r"
      using entry_off_mono [of j ?r enc] by blast
    then show ?thesis
      using False less.prems r le by (auto simp: prev_restart.simps [of it _ i])
  next
    case True
    show ?thesis
    proof (cases "i = 0")
      case i0: True
      then have "entry_off enc ?r = 0"
        using restart_0(2) [OF L] by (simp add: entry_off_def)
      then have "j = 0" if "j \<le> length enc"
        using True that entry_off_less [of 0 j enc] by auto
      moreover have "prev_restart it (of_nat (entry_off enc j)) i = Some None"
        using True r le i0 by (subst prev_restart.simps) simp
      ultimately show ?thesis
        by auto
    next
      case False
      then have u: "unat (i - 1) = unat i - 1" "unat (i - 1) < unat i"
        using unat_minus_one [OF False] measure_unat [OF False] by simp_all
      have eq: "prev_restart it (of_nat (entry_off enc j)) i
          = prev_restart it (of_nat (entry_off enc j)) (i - 1)"
        using True False r le by (subst prev_restart.simps) simp
      show ?thesis
        unfolding eq using less.hyps [OF u(2)] u less.prems by simp
    qed
  qed
qed

lemma Prev_pos:
  assumes L: "layout_ok enc js" and p: "iter_pos enc js it j" and j: "j < length enc"
  obtains it' where "Iter_Prev it = Some it'" "iter_pos enc js it' (if j = 0 then length enc else j - 1)"
proof -
  have a: "iter_on enc js it" "unat (it_restart_index it) < length js"
    "it_current it = of_nat (entry_off enc j)"
    using p j by (simp_all add: iter_pos_def iter_at_def)
  note R = prev_restart_pos [OF L a(1,2), of j]
  show ?thesis
  proof (cases "j = 0")
    case True
    then show ?thesis
      using R a(1) by (intro that) (auto simp: Iter_Prev_def Let_def a(3) iter_pos_def
          iter_invalid_def iter_on_def Iter_Valid_def)
  next
    case False
    then obtain i where i: "prev_restart it (of_nat (entry_off enc j)) (it_restart_index it) = Some (Some i)"
      "unat i < length js" "js ! unat i < j"
      using R j by auto
    have "iter_on enc js (it\<lparr>it_restart_index := i\<rparr>)"
      using a(1) by (simp add: iter_on_def)
    then obtain it1 where 1: "SeekToRestartPoint i (it\<lparr>it_restart_index := i\<rparr>) = Some it1"
      "iter_ready enc js it1 (js ! unat i)"
      using SeekToRestartPoint_ready [OF L _ i(2)] by blast
    obtain it2 where "parse_until (of_nat (entry_off enc j)) it1 = Some it2" "iter_pos enc js it2 (j - 1)"
      by (rule parse_until_pos [OF L 1(2) i(3)]) (use j in simp)
    then show ?thesis
      using that [of it2] False by (simp add: Iter_Prev_def Let_def a(3) i(1) 1(1))
  qed
qed

section \<open>Seek\<close>

lemma seek_scan_pos:
  assumes L: "layout_ok enc js" and r: "iter_ready enc js it j"
    and wf: "\<And>i. i < length enc \<Longrightarrow> ikey_wf (ekey enc i)" "ikey_wf t"
  obtains it' j' where "seek_scan t it = Some it'" "iter_pos enc js it' j'" "j \<le> j'"
    "\<And>i. j \<le> i \<Longrightarrow> i < j' \<Longrightarrow> ikey_abs (ekey enc i) < ikey_abs t"
    "j' < length enc \<Longrightarrow> ikey_abs t \<le> ikey_abs (ekey enc j')"
  using r
proof (induction "length enc - j" arbitrary: it j thesis)
  case 0
  then have r: "iter_ready enc js it (length enc)"
    by (simp add: iter_ready_def)
  obtain it' where it': "ParseNextKey it = Some (False, it')" "iter_invalid enc js it'"
    by (rule ParseNextKey_end [OF L r])
  show ?case
    by (rule "0.prems"(1) [of it' "length enc"])
      (use 0 it' in \<open>simp_all add: seek_scan.simps [of t it] iter_pos_def iter_ready_def\<close>)
next
  case (Suc d)
  have j: "j < length enc"
    using Suc.hyps(2) by simp
  obtain it1 where 1: "ParseNextKey it = Some (True, it1)" "iter_at enc js it1 j"
    by (rule ParseNextKey_ready [OF L Suc.prems(2) j])
  obtain c where c: "cmp (ekey enc j) t = Some c" "c < 0 \<longleftrightarrow> ikey_abs (ekey enc j) < ikey_abs t"
    using cmp_abs [OF wf(1) [OF j] wf(2)] by auto
  have k: "it_key it1 = ekey enc j"
    using 1(2) by (simp add: iter_at_def)
  show ?case
  proof (cases "0 \<le> c")
    case True
    show ?thesis
      by (rule Suc.prems(1) [of it1 j])
        (use 1 c k True j in \<open>simp_all add: seek_scan.simps [of t it] cmp_view_cmp iter_pos_def not_less\<close>)
  next
    case False
    have "d = length enc - Suc j"
      using Suc.hyps(2) by simp
    then obtain it' j' where IH: "seek_scan t it1 = Some it'" "iter_pos enc js it' j'" "Suc j \<le> j'"
      "\<And>i. Suc j \<le> i \<Longrightarrow> i < j' \<Longrightarrow> ikey_abs (ekey enc i) < ikey_abs t"
      "j' < length enc \<Longrightarrow> ikey_abs t \<le> ikey_abs (ekey enc j')"
      using Suc.hyps(1) [OF _ _ iter_at_ready [OF L 1(2)]] by blast
    have "ikey_abs (ekey enc i) < ikey_abs t" if "j \<le> i" "i < j'" for i
      using that IH(4) [of i] c(2) False by (cases "i = j") auto
    then show ?thesis
      using IH 1(1) c(1) k False
      by (intro Suc.prems(1) [of it' j']) (auto simp: seek_scan.simps [of t it] cmp_view_cmp)
  qed
qed

lemma seek_restart_pos:
  assumes L: "layout_ok enc js" and on: "iter_on enc js it"
    and wf: "\<And>i. i < length enc \<Longrightarrow> ikey_wf (ekey enc i)" "ikey_wf t"
    and lr: "left \<le> right" "right < length js"
    and inv: "left = 0 \<or> ikey_abs (ekey enc (js ! left)) < ikey_abs t"
  obtains l where "seek_restart t it left right = Some (Inr l)" "l < length js"
    "l = 0 \<or> ikey_abs (ekey enc (js ! l)) < ikey_abs t"
  using lr inv
proof (induction "right - left" arbitrary: left right thesis rule: less_induct)
  case less
  show ?case
  proof (cases "left < right")
    case False
    then have "seek_restart t it left right = Some (Inr left)"
      by (subst seek_restart.simps) simp
    then show ?thesis
      using less.prems(2,3,4) by (intro less.prems(1) [of left]) simp_all
  next
    case True
    define mid where "mid = (left + right + 1) div 2"
    have mid: "left < mid" "mid \<le> right" "mid < length js"
      using True less.prems(3) by (auto simp: mid_def)
    have u: "unat (of_nat mid :: u32) = mid"
      using mid(3) layout_bounds(2) [OF L] by (simp add: unat_of_nat_u32)
    have g: "GetRestartPoint it (of_nat mid) = Some (of_nat (entry_off enc (js ! mid)))"
      using GetRestartPoint_at [OF L on, of "of_nat mid"] mid(3) u by simp
    let ?j = "js ! mid"
    have j: "?j < length enc" "fst (enc ! ?j) = 0"
    proof -
      have "enc \<noteq> []"
        using L mid by (auto simp: layout_ok_def restarts_ok_def)
      moreover have "?j = 0 \<or> ?j < length enc" "?j < length enc \<longrightarrow> fst (enc ! ?j) = 0"
        using L nth_mem [OF mid(3)] by (auto simp: layout_ok_def restarts_ok_def)
      ultimately show "?j < length enc" "fst (enc ! ?j) = 0"
        by auto
    qed
    obtain k v where e: "enc ! ?j = (0, k, v)"
      using j(2) by (cases "enc ! ?j") auto
    note D = DecodeEntry_at [OF L j(1) e]
    note B = layout_bounds [OF L]
    let ?q = "entry_off enc (Suc ?j) - (length k - 0) - length v"
    have d: "it_data it = block_bytes enc js" "it_restarts it = of_nat (length (entries_bytes enc))"
      using on by (simp_all add: iter_on_def)
    have k: "ekey enc ?j = k"
      by (simp add: ekey_def e)
    obtain c where c: "cmp k t = Some c" "c < 0 \<longleftrightarrow> ikey_abs k < ikey_abs t"
      using cmp_abs [OF wf(1) [OF j(1)] wf(2)] by (auto simp: k)
    have step: "seek_restart t it left right =
        (if c < 0 then seek_restart t it mid right else seek_restart t it left (mid - 1))"
    proof -
      have "\<not> length (it_data it) < unat (it_restarts it)"
        using D(10) B(7) by (simp add: d)
      moreover have "DecodeEntry (it_data it) (unat (of_nat (entry_off enc ?j) :: u32)) (unat (it_restarts it))
          = Some (of_nat 0, of_nat (length k - 0), of_nat (length v), ?q)"
        using D(1) B(7) B(5) [of ?j] by (simp only: d)
      moreover have "\<not> length (it_data it) < ?q + unat (of_nat (length k - 0) :: u32)"
        using D(3,8,9,10) unfolding d by linarith
      moreover have "take (unat (of_nat (length k - 0) :: u32)) (drop ?q (it_data it)) = k"
        using D(3,6) by (simp add: d)
      ultimately show ?thesis
        using True g c(1) unfolding seek_restart.simps [of t it left right] mid_def [symmetric]
        by (simp add: Let_def cmp_view_cmp)
    qed
    show ?thesis
    proof (cases "c < 0")
      case True
      show ?thesis
        by (rule less.hyps [of right mid])
          (use mid less.prems True c(2) k step in auto)
    next
      case False
      show ?thesis
        by (rule less.hyps [of "mid - 1" left])
          (use mid less.prems False step in auto)
    qed
  qed
qed

lemma Seek_pos:
  assumes L: "layout_ok enc js" and on: "iter_on enc js it"
    and so: "sorted (map (ikey_abs \<circ> fst) (map snd enc))"
    and wf: "\<forall>k \<in> fst ` set (map snd enc). ikey_wf k" "ikey_wf t"
  obtains it' where "Iter_Seek t it = Some it'"
    "iter_pos enc js it' (seek_pos ikey_abs (map snd enc) t)"
proof -
  have wf': "ikey_wf (ekey enc i)" if "i < length enc" for i
    using wf(1) nth_mem [OF that] by (force simp: ekey_def)
  have n: "it_num_restarts it - 1 = of_nat (length js) - 1"
    using on by (simp add: iter_on_def)
  have r: "unat (it_num_restarts it - 1) = length js - 1" "0 < length js"
    using restart_0 [OF L] by (simp_all add: n)
  obtain l where l: "seek_restart t it 0 (length js - 1) = Some (Inr l)" "l < length js"
    "l = 0 \<or> ikey_abs (ekey enc (js ! l)) < ikey_abs t"
    using seek_restart_pos [OF L on wf' wf(2), of 0 "length js - 1"] r(2) by auto
  have u: "unat (of_nat l :: u32) = l"
    using l(2) layout_bounds(2) [OF L] by (simp add: unat_of_nat_u32)
  obtain it1 where 1: "SeekToRestartPoint (of_nat l) it = Some it1" "iter_ready enc js it1 (js ! l)"
    using SeekToRestartPoint_ready [OF L on, of "of_nat l"] l(2) u by auto
  obtain it' j' where s: "seek_scan t it1 = Some it'" "iter_pos enc js it' j'" "js ! l \<le> j'"
    "\<And>i. js ! l \<le> i \<Longrightarrow> i < j' \<Longrightarrow> ikey_abs (ekey enc i) < ikey_abs t"
    "j' < length enc \<Longrightarrow> ikey_abs t \<le> ikey_abs (ekey enc j')"
    using seek_scan_pos [OF L 1(2) wf' wf(2)] by blast
  have j': "j' \<le> length enc"
    using s(2) by (auto simp: iter_pos_def split: if_splits)
  have before: "ikey_abs (ekey enc i) < ikey_abs t" if "i < j'" for i
  proof (cases "js ! l \<le> i")
    case False
    then have "l \<noteq> 0"
      using restart_0(2) [OF L] by (cases "l = 0") auto
    then have "ikey_abs (ekey enc (js ! l)) < ikey_abs t"
      using l(3) by blast
    moreover have "js ! l < length enc"
      using False L nth_mem [OF l(2)] by (auto simp: layout_ok_def restarts_ok_def)
    then have "ikey_abs (ekey enc i) \<le> ikey_abs (ekey enc (js ! l))"
      using so False by (auto simp: sorted_iff_nth_mono ekey_def)
    ultimately show ?thesis
      by simp
  qed (use s(4) that in blast)
  have "seek_pos ikey_abs (map snd enc) t = j'"
    by (rule seek_pos_unique) (use j' before s(5) in \<open>auto simp: ekey_def\<close>)
  then show ?thesis
    using that [of it'] s(1,2) l(1) 1(1) r(1) by (simp add: Iter_Seek_def)
qed

section \<open>The block iterator is a cursor\<close>

text \<open>An iterator made from a block over the entries \<open>es\<close>, and where it stands.\<close>

definition block_usable :: "(bytes \<times> bytes) list \<Rightarrow> Iter \<Rightarrow> bool" where
  "block_usable es it \<longleftrightarrow> (\<exists>enc js. layout_ok enc js \<and> map snd enc = es \<and> iter_on enc js it)"

definition block_pos :: "(bytes \<times> bytes) list \<Rightarrow> Iter \<Rightarrow> nat \<Rightarrow> bool" where
  "block_pos es it j \<longleftrightarrow> (\<exists>enc js. layout_ok enc js \<and> map snd enc = es \<and> iter_pos enc js it j)"

lemma block_posI: "layout_ok enc js \<Longrightarrow> iter_pos enc js it j \<Longrightarrow> block_pos (map snd enc) it j"
  by (auto simp: block_pos_def)

interpretation block_cursor: sorted_cursor block_usable block_pos Iter_Valid Iter_key Iter_value
  Iter_SeekToFirst Iter_SeekToLast Iter_Next Iter_Prev ikey_abs ikey_wf Iter_Seek
proof unfold_locales
  fix es it j
  assume p: "block_pos es it j"
  then obtain enc js where L: "layout_ok enc js" "map snd enc = es" "iter_pos enc js it j"
    by (auto simp: block_pos_def)
  have len: "length es = length enc"
    using L(2) by auto
  show "block_usable es it"
    using L iter_pos_on [OF L(3)] by (auto simp: block_usable_def)
  show "j \<le> length es"
    using L(3) len by (auto simp: iter_pos_def split: if_splits)
  show "Iter_Valid it = (j < length es)"
    using L(3) len iter_at_Valid [OF L(1), of it j]
    by (auto simp: iter_pos_def iter_invalid_def split: if_splits)
  assume j: "j < length es"
  then have a: "iter_at enc js it j"
    using L(3) len by (simp add: iter_pos_def)
  show "Iter_key it = fst (es ! j)" "Iter_value it = Some (snd (es ! j))"
    using iter_at_Valid [OF L(1) a] j len by (auto simp: ekey_def simp flip: L(2))
  show "\<exists>it'. Iter_Next it = Some it' \<and> block_pos es it' (Suc j)"
    using Next_pos [OF L(1,3)] block_posI [OF L(1)] j len L(2) by metis
  show "\<exists>it'. Iter_Prev it = Some it' \<and> block_pos es it' (if j = 0 then length es else j - 1)"
    using Prev_pos [OF L(1,3)] block_posI [OF L(1)] j len L(2) by metis
next
  fix es it
  assume "block_usable es it"
  then obtain enc js where L: "layout_ok enc js" "map snd enc = es" "iter_on enc js it"
    by (auto simp: block_usable_def)
  have len: "length es = length enc"
    using L(2) by auto
  show "\<exists>it'. Iter_SeekToFirst it = Some it' \<and> block_pos es it' 0"
    using SeekToFirst_pos [OF L(1,3)] block_posI [OF L(1)] L(2) by metis
  show "\<exists>it'. Iter_SeekToLast it = Some it' \<and> block_pos es it' (length es - 1)"
    using SeekToLast_pos [OF L(1,3)] block_posI [OF L(1)] L(2) len by metis
  fix t
  assume "sorted (map (ikey_abs \<circ> fst) es)" "\<forall>k \<in> fst ` set es. ikey_wf k" "ikey_wf t"
  then show "\<exists>it'. Iter_Seek t it = Some it' \<and> block_pos es it' (seek_pos ikey_abs es t)"
    using Seek_pos [OF L(1,3), of t] block_posI [OF L(1)] unfolding L(2) by metis
qed

text \<open>The constructor and \<open>NewIterator\<close> accept every block the builder makes.\<close>

lemma open_block:
  assumes L: "layout_ok enc js"
  obtains b it where "mk_Block (block_bytes enc js) = Some b" "Block_NewIterator b = Some (Some it)"
    "iter_on enc js it"
proof -
  let ?data = "block_bytes enc js" and ?n = "of_nat (length js) :: u32"
  have len: "length ?data = length (entries_bytes enc) + 4 * length js + 4"
    by (induction js) (simp_all add: block_bytes_def)
  note B = layout_bounds [OF L] and R = restart_0 [OF L]
  have "?data = (entries_bytes enc @ concat (map EncodeFixed32 (map (\<lambda>j. of_nat (entry_off enc j)) js)))
      @ EncodeFixed32 ?n"
    by (simp add: block_bytes_def)
  moreover have "length (entries_bytes enc @ concat (map EncodeFixed32 (map (\<lambda>j. of_nat (entry_off enc j)) js)))
      = length ?data - 4"
    by (simp add: block_bytes_def)
  ultimately have "drop (length ?data - 4) ?data = EncodeFixed32 ?n"
    by (metis append_eq_conv_conj)
  then have num: "NumRestarts ?data (length ?data) = Some ?n"
    using len by (simp add: NumRestarts_def)
  have "Suc (length js) < 2 ^ 32"
    using B(4) len by linarith
  then have n1: "unat (1 + ?n) = Suc (length js)"
    using unat_of_nat_u32 [of "Suc (length js)"] by simp
  let ?b = "\<lparr>blk_data = ?data, blk_size = length ?data,
      blk_restart_offset = Some (of_nat (length (entries_bytes enc)))\<rparr>"
  have mk: "mk_Block ?data = Some ?b"
    using num B(6) n1 len by (simp add: mk_Block_def Let_def)
  have "?n > 0"
    using R(1) B(6) by (metis gr0I less_not_refl unat_0 word_gt_0)
  then have new: "Block_NewIterator ?b = Some (Some (mk_Iter ?data (of_nat (length (entries_bytes enc))) ?n))"
    using num len by (simp add: Block_NewIterator_def)
  show ?thesis
    by (rule that [OF mk new]) (simp add: iter_on_def mk_Iter_def)
qed

definition open_iter :: "bytes \<Rightarrow> Iter option" where
  "open_iter data = do {
     b \<leftarrow> mk_Block data;
     it \<leftarrow> Block_NewIterator b;
     it }"

lemma open_iter_usable:
  assumes "length (build_block interval es) < 2 ^ 32"
  obtains it where "open_iter (build_block interval es) = Some it" "block_usable es it"
proof -
  obtain enc js where b: "build_block interval es = block_bytes enc js" "layout_ok enc js" "map snd enc = es"
    by (rule build_block_layout [OF assms])
  obtain bl it where "mk_Block (block_bytes enc js) = Some bl" "Block_NewIterator bl = Some (Some it)"
    "iter_on enc js it"
    by (rule open_block [OF b(2)])
  then show ?thesis
    using that [of it] b by (auto simp: open_iter_def block_usable_def)
qed

section \<open>Properties\<close>

abbreviation block_collect :: "nat \<Rightarrow> Iter \<Rightarrow> (bytes \<times> bytes) list option" where
  "block_collect \<equiv> collect Iter_Valid Iter_key Iter_value Iter_Next"

abbreviation block_collect_back :: "nat \<Rightarrow> Iter \<Rightarrow> (bytes \<times> bytes) list option" where
  "block_collect_back \<equiv> collect Iter_Valid Iter_key Iter_value Iter_Prev"

text \<open>
  C5: Reading a block back: for any restart interval and any list of keys and values (in any order, with
  duplicates), the block the builder makes of them, if it is smaller than 4 GB, is accepted by
  the \<open>Block\<close> constructor and \<open>NewIterator\<close>; from \<open>SeekToFirst\<close>, \<open>Next\<close>
  visits exactly these entries in order and then becomes invalid, and from \<open>SeekToLast\<close>,
  \<open>Prev\<close> visits them in the opposite order.  No step reads outside the block, and all return.
\<close>

theorem Block_roundtrip:
  assumes "length (build_block interval es) < 2 ^ 32" "length es \<le> n"
  shows "\<exists>it first back. open_iter (build_block interval es) = Some it \<and>
    Iter_SeekToFirst it = Some first \<and> block_collect n first = Some es \<and>
    Iter_SeekToLast it = Some back \<and> block_collect_back n back = Some (rev es)"
proof -
  obtain it where it: "open_iter (build_block interval es) = Some it" "block_usable es it"
    by (rule open_iter_usable [OF assms(1)])
  show ?thesis
    using it(1) block_cursor.collect_all [OF it(2) assms(2)]
      block_cursor.collect_back_all [OF it(2) assms(2)] by metis
qed

lemma build_block_example:
  "length (build_block 2 [([1, 2, 3], [9]), ([1, 2, 4], []), ([5], [7, 7])]) = 29"
  by (simp add: build_block_def Blockbuilder_Finish_def Blockbuilder_Add_def mk_Blockbuilder_def
      PutVarint32_def PutFixed32_def EncodeVarint32_small Let_def)

theorem Block_roundtrip_witness:
  "\<exists>it first back. open_iter (build_block 2 [([1, 2, 3], [9]), ([1, 2, 4], []), ([5], [7, 7])]) = Some it \<and>
    Iter_SeekToFirst it = Some first \<and>
    block_collect 5 first = Some [([1, 2, 3], [9]), ([1, 2, 4], []), ([5], [7, 7])] \<and>
    Iter_SeekToLast it = Some back \<and>
    block_collect_back 5 back = Some (rev [([1, 2, 3], [9]), ([1, 2, 4], []), ([5], [7, 7])])"
  by (rule Block_roundtrip) (simp_all only: build_block_example, simp_all)

text \<open>
  C6: \<open>Seek\<close> in a block is a search: over entries whose keys are internal keys in non-descending order, the binary search over the restart points
  followed by the scan stops at the first entry whose key is at or after the target, and
  leaves the iterator invalid when there is none; it never reads outside the block, and returns.
\<close>

theorem Block_Seek_finds:
  assumes "length (build_block interval es) < 2 ^ 32"
    and "sorted (map (ikey_abs \<circ> fst) es)" "\<forall>k \<in> fst ` set es. ikey_wf k" "ikey_wf t"
  shows "\<exists>it it'. open_iter (build_block interval es) = Some it \<and> Iter_Seek t it = Some it' \<and>
    (if Iter_Valid it' then map_option (\<lambda>v. (Iter_key it', v)) (Iter_value it') else None) =
      List.find (\<lambda>e. ikey_abs t \<le> ikey_abs (fst e)) es"
proof -
  obtain it where it: "open_iter (build_block interval es) = Some it" "block_usable es it"
    by (rule open_iter_usable [OF assms(1)])
  show ?thesis
    using it(1) block_cursor.seek_find [OF it(2) assms(2-4)] by metis
qed

lemma seek_example_length:
  "length (build_block 1 [(mk_InternalKey [1] 5 kTypeValue, [9]), (mk_InternalKey [2] 4 kTypeValue, [8])]) = 38"
  by (simp add: build_block_def Blockbuilder_Finish_def Blockbuilder_Add_def mk_Blockbuilder_def
      PutVarint32_def PutFixed32_def EncodeVarint32_small Let_def)

theorem Block_Seek_finds_witness:
  "\<exists>it it'. open_iter (build_block 1 [(mk_InternalKey [1] 5 kTypeValue, [9]), (mk_InternalKey [2] 4 kTypeValue, [8])]) = Some it \<and>
    Iter_Seek (mk_InternalKey [2] 7 kTypeValue) it = Some it' \<and>
    (if Iter_Valid it' then map_option (\<lambda>v. (Iter_key it', v)) (Iter_value it') else None) =
      List.find (\<lambda>e. ikey_abs (mk_InternalKey [2] 7 kTypeValue) \<le> ikey_abs (fst e))
        [(mk_InternalKey [1] 5 kTypeValue, [9]), (mk_InternalKey [2] 4 kTypeValue, [8])]"
  by (rule Block_Seek_finds)
    (simp_all only: seek_example_length, simp_all add: less_eq_skey_def)

text \<open>
  Block handles: what \<open>EncodeTo\<close> appends is what \<open>DecodeFrom\<close> reads, in at most 20 bytes
  (\<open>kMaxEncodedLength\<close>), and the input moves behind it; whatever the input, \<open>DecodeFrom\<close> answers
  ok or corruption.
\<close>

theorem BlockHandle_roundtrip:
  "BlockHandle_EncodeTo h dst = dst @ BlockHandle_EncodeTo h [] \<and>
   BlockHandle_DecodeFrom (BlockHandle_EncodeTo h [] @ rest) h0 = (kok, h, rest) \<and>
   length (BlockHandle_EncodeTo h []) \<le> 20 \<and>
   fst (BlockHandle_DecodeFrom input h0) \<in> {kok, kcorruption}"
  using length_EncodeVarint64_bounds(2) [of "bh_offset h"] length_EncodeVarint64_bounds(2) [of "bh_size h"]
  by (simp add: BlockHandle_EncodeTo_def BlockHandle_DecodeFrom_def PutVarint64_def GetVarint64_Encode
      split: option.splits)

end
