(* ===== verification/Env.thy ===== *)
theory Env
  imports Prelude
begin

text \<open>
  Files: \<open>WritableFile\<close>, \<open>ReadFile\<close> and the functions over whole files of src/src/util/env.h and
  src/src/util/env.cpp.

  The operating system is a parameter: what the calls of \<open>write(2)\<close> and \<open>read(2)\<close> return is a
  list of outcomes that a file consumes; \<open>fsync\<close>, \<open>close\<close>, \<open>open\<close> and \<open>lseek\<close>
  are flags.  \<open>wf_disk\<close> is what the system has been given.  A value \<open>None\<close> is an access outside
  \<open>buf_\<close>, or a loop that has not ended when the list of outcomes is used up.
\<close>

section \<open>Writable files\<close>

text \<open>All bytes were taken, only the first \<open>n\<close> of them, \<open>EINTR\<close>, or another error.\<close>

datatype wres = WFull | WShort nat | WIntr | WErr

text \<open>\<open>wf_buf\<close> is the initialised beginning of the array \<open>buf_\<close>.\<close>

record WritableFile =
  wf_buf :: bytes
  wf_offset :: u32
  wf_disk :: bytes
  wf_os :: "wres list"

definition kWritableFileBufferSize :: u32 where
  "kWritableFileBufferSize = 64 * 1024"

definition mk_WritableFile :: "bytes \<Rightarrow> wres list \<Rightarrow> WritableFile" where
  "mk_WritableFile content os = \<lparr>wf_buf = [], wf_offset = 0, wf_disk = content, wf_os = os\<rparr>"

definition buf_memcpy :: "nat \<Rightarrow> bytes \<Rightarrow> bytes \<Rightarrow> bytes option" where
  "buf_memcpy off src buf =
     (if unat kWritableFileBufferSize < off + length src \<or> length buf < off then None
      else Some (take off buf @ src @ drop (off + length src) buf))"

text \<open>
  The loop of \<open>Flush\<close>: every call writes \<open>offset\<close> bytes from the start of \<open>buf_\<close>; \<open>size\<close>
  is 64 bits wide and wraps.
\<close>

fun Flush_loop :: "wres list \<Rightarrow> u64 \<Rightarrow> WritableFile \<Rightarrow> (State \<times> WritableFile) option" where
  "Flush_loop os sz f =
     (if sz = 0 then Some (kok, f\<lparr>wf_offset := 0, wf_os := os\<rparr>)
      else
        (let out = take (unat (wf_offset f)) (wf_buf f)
         in case os of
              [] \<Rightarrow> None
            | WFull # os' \<Rightarrow>
                Flush_loop os' (sz - ucast (wf_offset f)) (f\<lparr>wf_disk := wf_disk f @ out\<rparr>)
            | WShort n # os' \<Rightarrow>
                Flush_loop os' (sz - of_nat (length (take n out))) (f\<lparr>wf_disk := wf_disk f @ take n out\<rparr>)
            | WIntr # os' \<Rightarrow> Flush_loop os' sz f
            | WErr # os' \<Rightarrow> Some (kioerror, f\<lparr>wf_os := os'\<rparr>)))"

declare Flush_loop.simps [simp del]

definition WritableFile_Flush :: "WritableFile \<Rightarrow> (State \<times> WritableFile) option" where
  "WritableFile_Flush f =
     (if length (wf_buf f) < unat (wf_offset f) then None
      else Flush_loop (wf_os f) (ucast (wf_offset f)) f)"

definition WritableFile_Append_n :: "bytes \<Rightarrow> u32 \<Rightarrow> WritableFile \<Rightarrow> (State \<times> WritableFile) option" where
  "WritableFile_Append_n ptr sz f =
     (let wrsize = min sz (kWritableFileBufferSize - wf_offset f)
      in do {
        buf \<leftarrow> buf_memcpy (unat (wf_offset f)) (take (unat wrsize) ptr) (wf_buf f);
        let f1 = f\<lparr>wf_buf := buf, wf_offset := wf_offset f + wrsize\<rparr>;
        let rest = sz - wrsize;
        if rest = 0 then Some (kok, f1)
        else do {
          (_, f2) \<leftarrow> WritableFile_Flush f1;
          if rest < kWritableFileBufferSize
          then do {
            buf' \<leftarrow> buf_memcpy 0 (take (unat rest) ptr) (wf_buf f2);
            Some (kok, f2\<lparr>wf_buf := buf', wf_offset := wf_offset f2 + rest\<rparr>) }
          else WritableFile_Flush f2 } })"

definition WritableFile_Append :: "bytes \<Rightarrow> WritableFile \<Rightarrow> (State \<times> WritableFile) option" where
  "WritableFile_Append ptr f = WritableFile_Append_n ptr (of_nat (length ptr)) f"

definition WritableFile_Close :: "bool \<Rightarrow> WritableFile \<Rightarrow> (State \<times> WritableFile) option" where
  "WritableFile_Close close_ok f =
     map_option (\<lambda>(s, f'). (if \<not> close_ok \<and> State_ok s then kioerror else s, f')) (WritableFile_Flush f)"

text \<open>\<open>dir_ok\<close>: the directory could be opened and synchronised.\<close>

definition SyncDirmainifset :: "bool \<Rightarrow> bool \<Rightarrow> State" where
  "SyncDirmainifset ismainifset dir_ok = (if \<not> ismainifset then kok else if dir_ok then kok else kioerror)"

definition WritableFile_Sync ::
  "bool \<Rightarrow> bool \<Rightarrow> bool \<Rightarrow> WritableFile \<Rightarrow> (State \<times> WritableFile) option" where
  "WritableFile_Sync ismainifset dir_ok fsync_ok f =
     (let s = SyncDirmainifset ismainifset dir_ok
      in if \<not> State_ok s then Some (s, f)
         else do {
           (p, f') \<leftarrow> WritableFile_Flush f;
           if \<not> State_ok p then Some (p, f')
           else if fsync_ok then Some (kok, f') else Some (kioerror, f') })"

section \<open>Sequential reading\<close>

datatype rres = RFull | RShort nat | RIntr | RErr

text \<open>The bytes not yet read, and the outcomes of the next calls; \<open>read(2)\<close> succeeds when the list is used up.\<close>

record ReadFile =
  rf_rest :: bytes
  rf_os :: "rres list"

text \<open>
  The status, the string afterwards, the number of bytes read if it was assigned.  A retry after
  \<open>EINTR\<close> keeps the \<open>n\<close> bytes the string was extended by.
\<close>

fun ReadFile_loop ::
  "rres list \<Rightarrow> nat \<Rightarrow> bytes \<Rightarrow> bytes \<Rightarrow> State \<times> bytes \<times> nat option \<times> ReadFile" where
  "ReadFile_loop os n rest result =
     (case os of
        RIntr # os' \<Rightarrow> ReadFile_loop os' n rest (result @ replicate n 0)
      | RErr # os' \<Rightarrow> (kioerror, result @ replicate n 0, None, \<lparr>rf_rest = rest, rf_os = os'\<rparr>)
      | RShort m # os' \<Rightarrow>
          (let got = take m (take n rest)
           in (kok, result @ got, Some (length got), \<lparr>rf_rest = drop (length got) rest, rf_os = os'\<rparr>))
      | _ \<Rightarrow>
          (let got = take n rest
           in (kok, result @ got, Some (length got),
               \<lparr>rf_rest = drop (length got) rest, rf_os = (case os of [] \<Rightarrow> [] | _ # os' \<Rightarrow> os')\<rparr>)))"

declare ReadFile_loop.simps [simp del]

definition ReadFile_Read :: "nat \<Rightarrow> bytes \<Rightarrow> ReadFile \<Rightarrow> State \<times> bytes \<times> nat option \<times> ReadFile" where
  "ReadFile_Read n result f = ReadFile_loop (rf_os f) n (rf_rest f) result"

definition ReadFile_Skip :: "bool \<Rightarrow> u64 \<Rightarrow> ReadFile \<Rightarrow> State \<times> ReadFile" where
  "ReadFile_Skip lseek_ok n f =
     (if lseek_ok then (kok, f\<lparr>rf_rest := drop (unat n) (rf_rest f)\<rparr>) else (kioerror, f))"

lemma ReadFile_loop_progress:
  "ReadFile_loop os n rest result = (s, data', Some k, f') \<Longrightarrow> 0 < k \<Longrightarrow>
    length (rf_rest f') < length rest"
proof (induction os n rest result arbitrary: f' rule: ReadFile_loop.induct)
  case (1 os n rest result)
  from "1.prems" show ?case
    using "1.IH" by (subst (asm) (1) ReadFile_loop.simps)
      (auto simp: Let_def split: list.splits rres.splits)
qed

text \<open>
  \<open>ReadFileToString\<close>, on the opened file.  \<open>readsize\<close> is a variable of the caller that a failed read
  leaves alone; the loop ends with the file.
\<close>

function ReadFileToString_loop :: "bytes \<Rightarrow> ReadFile \<Rightarrow> State \<times> bytes" where
  "ReadFileToString_loop data f =
     (case ReadFile_Read 8192 data f of
        (s, data', readsize, f') \<Rightarrow>
          if \<not> State_ok s then (s, data')
          else if readsize = Some 0 \<or> readsize = None then (s, data')
          else ReadFileToString_loop data' f')"
  by pat_completeness auto

termination
proof (relation "measure (\<lambda>(data, f). length (rf_rest f))", goal_cases)
  case (2 data f s y data' z readsize f')
  then obtain k where "readsize = Some k" "0 < k"
    by (cases readsize) auto
  then show ?case
    using 2 ReadFile_loop_progress [of "rf_os f" 8192 "rf_rest f" data s data' k f']
    by (auto simp: ReadFile_Read_def)
qed simp

declare ReadFileToString_loop.simps [simp del]

definition ReadFileToString :: "ReadFile \<Rightarrow> State \<times> bytes" where
  "ReadFileToString f = ReadFileToString_loop [] f"

text \<open>
  \<open>WriteStringToFile\<close>, on the file that was just opened: nothing is written to it when \<open>sync\<close> is
  false, because the buffer is dropped with the object.
\<close>

definition WriteStringToFile ::
  "bytes \<Rightarrow> bool \<Rightarrow> bool \<Rightarrow> bool \<Rightarrow> bool \<Rightarrow> WritableFile \<Rightarrow> (State \<times> WritableFile) option" where
  "WriteStringToFile data sync ismainifset dir_ok fsync_ok file = do {
     (s, f1) \<leftarrow> WritableFile_Append data file;
     if State_ok s \<and> sync then WritableFile_Sync ismainifset dir_ok fsync_ok f1 else Some (s, f1) }"

section \<open>Contents of a writable file\<close>

text \<open>What has been appended so far: what the system has, then the buffer.\<close>

definition wf_abs :: "WritableFile \<Rightarrow> bytes" where
  "wf_abs f = wf_disk f @ take (unat (wf_offset f)) (wf_buf f)"

definition wf_inv :: "WritableFile \<Rightarrow> bool" where
  "wf_inv f \<longleftrightarrow> unat (wf_offset f) \<le> length (wf_buf f) \<and> length (wf_buf f) \<le> 65536"

lemma wf_inv_mk [wf_intros]: "wf_inv (mk_WritableFile content os)"
  by (simp add: wf_inv_def mk_WritableFile_def)

lemma wf_abs_mk [simp]: "wf_abs (mk_WritableFile content os) = content"
  by (simp add: wf_abs_def mk_WritableFile_def)

lemma unat_buffer_size [simp]: "unat kWritableFileBufferSize = 65536"
  by (simp add: kWritableFileBufferSize_def)

lemma Flush_complete:
  assumes "wf_inv f" "wf_os f = replicate k WIntr @ WFull # os"
  shows "WritableFile_Flush f = Some (kok,
    if wf_offset f = 0 then f else f\<lparr>wf_disk := wf_abs f, wf_offset := 0, wf_os := os\<rparr>)"
proof -
  have full: "Flush_loop (replicate k WIntr @ WFull # os) (ucast (wf_offset f)) f =
      Some (kok, f\<lparr>wf_disk := wf_abs f, wf_offset := 0, wf_os := os\<rparr>)" if "wf_offset f \<noteq> 0"
  proof (induction k)
    case 0
    show ?case
      using that by (simp add: Flush_loop.simps wf_abs_def ucast_64_eq_0)
  next
    case (Suc k)
    show ?case
      using Suc that by (simp add: Flush_loop.simps [of "WIntr # _"] ucast_64_eq_0)
  qed
  have "f\<lparr>wf_offset := 0, wf_os := wf_os f\<rparr> = f" if "wf_offset f = 0"
    using that by (cases f) simp
  then show ?thesis
    using assms full by (auto simp: WritableFile_Flush_def wf_inv_def Flush_loop.simps [of _ 0])
qed

lemma Append_fits:
  assumes "wf_inv f" "unat (wf_offset f) + length ptr \<le> 65536"
  shows "\<exists>f'. WritableFile_Append ptr f = Some (kok, f') \<and> wf_inv f' \<and> wf_abs f' = wf_abs f @ ptr \<and>
    wf_disk f' = wf_disk f \<and> wf_os f' = wf_os f \<and> unat (wf_offset f') = unat (wf_offset f) + length ptr"
proof -
  let ?n = "of_nat (length ptr) :: u32"
  have n: "unat ?n = length ptr"
    using assms(2) by (simp add: unat_of_nat)
  have room: "unat (kWritableFileBufferSize - wf_offset f) = 65536 - unat (wf_offset f)"
    using assms by (subst unat_sub) (auto simp: word_le_nat_alt)
  have m: "min ?n (kWritableFileBufferSize - wf_offset f) = ?n"
    using assms(2) n room by (auto simp: min_def word_le_nat_alt)
  have off: "unat (wf_offset f + ?n) = unat (wf_offset f) + length ptr"
    using assms(2) n by (subst unat_add_lem [THEN iffD1]) auto
  let ?buf = "take (unat (wf_offset f)) (wf_buf f) @ ptr @ drop (unat (wf_offset f) + length ptr) (wf_buf f)"
  have "buf_memcpy (unat (wf_offset f)) ptr (wf_buf f) = Some ?buf"
    using assms by (simp add: buf_memcpy_def wf_inv_def)
  then have "WritableFile_Append ptr f = Some (kok, f\<lparr>wf_buf := ?buf, wf_offset := wf_offset f + ?n\<rparr>)"
    by (simp add: WritableFile_Append_def WritableFile_Append_n_def m n Let_def)
  then show ?thesis
    using assms off by (auto simp: wf_inv_def wf_abs_def)
qed

text \<open>What a complete write leaves on disk.\<close>

lemma Flush_complete_abs:
  assumes "wf_inv f" "wf_os f = replicate k WIntr @ WFull # os"
  obtains f' where "WritableFile_Flush f = Some (kok, f')" "wf_inv f'" "wf_disk f' = wf_abs f"
    "wf_abs f' = wf_abs f" "wf_offset f' = 0" "wf_os f' \<in> {os, wf_os f}"
  using Flush_complete [OF assms] assms(1)
  by (cases "wf_offset f = 0") (auto simp: wf_abs_def wf_inv_def)

section \<open>Properties\<close>

text \<open>
  C37: Appending and flushing: while the string fits what is left of the 64 KB buffer, \<open>Append\<close> succeeds without
  a system call, and the following \<open>Flush\<close>, over a system that takes whole writes after any number of
  interruptions, leaves on disk exactly what was there, what was buffered and the string, in this order.
\<close>

theorem Append_Flush_contents:
  assumes "wf_inv f" "unat (wf_offset f) + length ptr \<le> 65536"
    and "wf_os f = replicate k WIntr @ WFull # os"
  shows "\<exists>f1 f2. WritableFile_Append ptr f = Some (kok, f1) \<and> wf_disk f1 = wf_disk f \<and>
    WritableFile_Flush f1 = Some (kok, f2) \<and> wf_disk f2 = wf_abs f @ ptr \<and> wf_abs f2 = wf_disk f2"
proof -
  obtain f1 where f1: "WritableFile_Append ptr f = Some (kok, f1)" "wf_inv f1" "wf_abs f1 = wf_abs f @ ptr"
    "wf_disk f1 = wf_disk f" "wf_os f1 = wf_os f"
    using Append_fits [OF assms(1,2)] by blast
  obtain f2 where "WritableFile_Flush f1 = Some (kok, f2)" "wf_disk f2 = wf_abs f1" "wf_abs f2 = wf_abs f1"
    using Flush_complete_abs [OF f1(2)] f1(5) assms(3) by metis
  then show ?thesis
    using f1 by simp
qed

theorem Append_Flush_contents_witness:
  "\<exists>f1 f2. WritableFile_Append [7, 8] (mk_WritableFile [1] [WIntr, WFull]) = Some (kok, f1) \<and>
    wf_disk f1 = wf_disk (mk_WritableFile [1] [WIntr, WFull]) \<and>
    WritableFile_Flush f1 = Some (kok, f2) \<and>
    wf_disk f2 = wf_abs (mk_WritableFile [1] [WIntr, WFull]) @ [7, 8] \<and> wf_abs f2 = wf_disk f2"
  by (rule Append_Flush_contents [of _ _ 1 "[]"])
    (simp_all add: wf_inv_mk, simp_all add: mk_WritableFile_def)

text \<open>
  A string that does not fit the buffer is damaged: when \<open>Append\<close> fills the buffer, flushes it and keeps the
  remaining \<open>m\<close> bytes (fewer than 64 KB), it copies the \<open>first\<close> \<open>m\<close> bytes of the string again instead of the
  last ones.  The length of the contents is right, the bytes are not, unless the string repeats itself.
\<close>

theorem Append_across_buffer:
  assumes "wf_inv f" "wf_os f = replicate k WIntr @ WFull # os" "length ptr < 2 ^ 32"
    and "wf_offset f \<noteq> 0" "65536 < unat (wf_offset f) + length ptr"
    and "unat (wf_offset f) + length ptr < 131072"
  shows "\<exists>f'. WritableFile_Append ptr f = Some (kok, f') \<and>
    (let m = unat (wf_offset f) + length ptr - 65536
     in wf_abs f' = wf_abs f @ take (length ptr - m) ptr @ take m ptr)"
proof -
  let ?o = "unat (wf_offset f)" and ?n = "of_nat (length ptr) :: u32"
  let ?room = "65536 - ?o" and ?w = "kWritableFileBufferSize - wf_offset f"
  define m where "m = ?o + length ptr - 65536"
  have o: "?o \<le> length (wf_buf f)" "length (wf_buf f) \<le> 65536"
    using assms(1) by (simp_all add: wf_inv_def)
  have n: "unat ?n = length ptr"
    using assms(3) by (simp add: unat_of_nat)
  have w: "unat ?w = ?room"
    using o by (subst unat_sub) (auto simp: word_le_nat_alt)
  have min: "min ?n ?w = ?w"
    using assms(5) n w o by (auto simp: min_def word_le_nat_alt)
  have rest: "unat (?n - ?w) = m"
    using assms(5) n w o by (subst unat_sub) (auto simp: word_le_nat_alt m_def)
  have rest0: "?n - ?w \<noteq> 0" "?n - ?w < kWritableFileBufferSize"
  proof -
    have "0 < m" "m < 65536"
      using assms(5,6) by (auto simp: m_def)
    then show "?n - ?w \<noteq> 0" "?n - ?w < kWritableFileBufferSize"
      using rest by (auto simp: word_less_nat_alt)
  qed
  let ?buf = "take ?o (wf_buf f) @ take ?room ptr"
  have cp: "buf_memcpy ?o (take (unat ?w) ptr) (wf_buf f) = Some ?buf"
    using o assms(5) w by (simp add: buf_memcpy_def min_def)
  have off: "wf_offset f + ?w = kWritableFileBufferSize"
    by simp
  let ?f1 = "f\<lparr>wf_buf := ?buf, wf_offset := kWritableFileBufferSize\<rparr>"
  have len: "length ?buf = 65536"
    using o assms(5) by simp
  have "wf_inv ?f1" "wf_os ?f1 = replicate k WIntr @ WFull # os"
    using len assms(2) by (simp_all add: wf_inv_def del: length_append)
  from Flush_complete [OF this]
  have fl: "WritableFile_Flush ?f1 = Some (kok, ?f1\<lparr>wf_disk := wf_abs ?f1, wf_offset := 0, wf_os := os\<rparr>)"
    by (simp add: kWritableFileBufferSize_def)
  have lm: "length (take m ptr) = m" "m \<le> 65536"
    using o assms(6) by (simp_all add: m_def)
  have "buf_memcpy 0 (take m ptr) ?buf = Some (take m ptr @ drop m ?buf)"
    unfolding buf_memcpy_def lm using lm(2) by simp
  then have app: "WritableFile_Append ptr f = Some (kok, ?f1\<lparr>wf_disk := wf_abs ?f1, wf_offset := ?n - ?w, wf_os := os,
      wf_buf := take m ptr @ drop m ?buf\<rparr>)"
    using rest0
    by (simp add: WritableFile_Append_def WritableFile_Append_n_def Let_def min cp off fl rest
        del: take_append drop_append)
  have room: "?room = length ptr - m"
    using o assms(5) by (simp add: m_def)
  have "wf_abs ?f1 = wf_disk f @ ?buf"
    using len o by (simp add: wf_abs_def)
  then show ?thesis
    unfolding app using rest lm(1)
    by (simp add: wf_abs_def room Let_def flip: m_def)
qed

theorem Append_across_buffer_witness:
  "\<exists>f'. WritableFile_Append [1, 2, 3]
      \<lparr>wf_buf = replicate 65535 0, wf_offset = 65535, wf_disk = [], wf_os = [WFull]\<rparr> = Some (kok, f') \<and>
    wf_abs f' = replicate 65535 0 @ [1, 1, 2]"
  using Append_across_buffer [of "\<lparr>wf_buf = replicate 65535 0, wf_offset = 65535, wf_disk = [], wf_os = [WFull]\<rparr>"
      0 "[]" "[1, 2, 3]"]
  by (simp add: wf_inv_def wf_abs_def Let_def)

end
