(* ===== verification/Wal.thy ===== *)
theory Wal
  imports Env Coding
begin

text \<open>
  The write-ahead log: \<open>walWriter\<close> (src/src/db/walog.h, src/src/db/walog.cpp) and \<open>Reader\<close>
  (src/src/db/reader.h, src/src/db/reader.cpp).

  The parameter \<open>ext\<close> is \<open>crc32c::Extend\<close>; \<open>crc32c::Crc32c(p, n)\<close> is \<open>Extend(0, p, n)\<close>.
  A value \<open>None\<close> is an access out of bounds, a loop that does not end, or the end of
  \<open>ReadPhysicalRecord\<close> without a \<open>return\<close>.
\<close>

section \<open>Records\<close>

datatype RecordType = kZeroType | kFullType | kFirstType | kMiddleType | kLastType

fun RecordType_code :: "RecordType \<Rightarrow> nat" where
  "RecordType_code kZeroType = 0"
| "RecordType_code kFullType = 1"
| "RecordType_code kFirstType = 2"
| "RecordType_code kMiddleType = 3"
| "RecordType_code kLastType = 4"

definition kBlockSize :: int where
  "kBlockSize = 32768"

definition kHeaderSize :: int where
  "kHeaderSize = 7"

section \<open>Writer\<close>

record walWriter =
  wal_file :: WritableFile
  wal_block_offset :: int
  wal_type_crc :: "u32 list"

definition mk_walWriter :: "(u32 \<Rightarrow> bytes \<Rightarrow> u32) \<Rightarrow> WritableFile \<Rightarrow> walWriter" where
  "mk_walWriter ext file =
     \<lparr>wal_file = file, wal_block_offset = 0,
      wal_type_crc = map (\<lambda>i. ext 0 [of_nat i]) [0..<5]\<rparr>"

text \<open>The result of the \<open>Flush\<close> at the end is ignored.\<close>

definition Flushphyrecord ::
  "(u32 \<Rightarrow> bytes \<Rightarrow> u32) \<Rightarrow> RecordType \<Rightarrow> bytes \<Rightarrow> u32 \<Rightarrow> walWriter \<Rightarrow> (State \<times> walWriter) option" where
  "Flushphyrecord ext type buf sz w =
     (let check_sum = ext (wal_type_crc w ! RecordType_code type) (take (unat sz) buf);
          header = EncodeFixed32 check_sum
            @ [ucast (sz AND 255), ucast (drop_bit 8 sz), of_nat (RecordType_code type)]
      in do {
        (s, f1) \<leftarrow> WritableFile_Append_n header 7 (wal_file w);
        if \<not> State_ok s then Some (s, w\<lparr>wal_file := f1\<rparr>)
        else do {
          (s2, f2) \<leftarrow> WritableFile_Append_n buf sz f1;
          if \<not> State_ok s2 then Some (s2, w\<lparr>wal_file := f2\<rparr>)
          else do {
            (_, f3) \<leftarrow> WritableFile_Flush f2;
            Some (s2, w\<lparr>wal_file := f3,
                        wal_block_offset := wal_block_offset w + kHeaderSize + uint sz\<rparr>) } } })"

text \<open>The padding at the end of a block; its status is ignored.\<close>

definition wal_pad :: "walWriter \<Rightarrow> walWriter option" where
  "wal_pad w =
     (let blockleft = (word_of_int (kBlockSize - wal_block_offset w) :: u32)
      in if blockleft < 7
         then (if blockleft > 0
               then do {
                 (_, f) \<leftarrow> WritableFile_Append (replicate (unat blockleft) 0) (wal_file w);
                 Some (w\<lparr>wal_file := f, wal_block_offset := 0\<rparr>) }
               else Some (w\<lparr>wal_block_offset := 0\<rparr>))
         else Some w)"

text \<open>
  The loop of \<open>Appendrecord\<close>.  \<open>begin\<close> is true all the time, and \<open>end\<close> is the
  conversion of a length to \<open>bool\<close>.
\<close>

definition wal_type :: "bool \<Rightarrow> bool \<Rightarrow> RecordType" where
  "wal_type is_begin is_end =
     (if is_begin \<and> is_end then kFullType else if is_begin then kFirstType
      else if is_end then kLastType else kMiddleType)"

partial_function (option) Appendrecord_loop ::
  "(u32 \<Rightarrow> bytes \<Rightarrow> u32) \<Rightarrow> bytes \<Rightarrow> u32 \<Rightarrow> State \<Rightarrow> walWriter \<Rightarrow> (State \<times> walWriter) option" where
  "Appendrecord_loop ext ptr sz s w =
     (if sz = 0 then Some (s, w)
      else Option.bind (wal_pad w) (\<lambda>w1.
        let avail = (word_of_int (kBlockSize - wal_block_offset w1 - kHeaderSize) :: u32);
            is_end = (if avail > sz then sz \<noteq> 0 else avail \<noteq> 0);
            type = wal_type True is_end;
            n = min sz avail
        in Option.bind (Flushphyrecord ext type (take (unat n) ptr) n w1) (\<lambda>(s', w2).
          Appendrecord_loop ext (drop (unat n) ptr) (sz - n) s' w2)))"

definition Appendrecord ::
  "(u32 \<Rightarrow> bytes \<Rightarrow> u32) \<Rightarrow> bytes \<Rightarrow> walWriter \<Rightarrow> (State \<times> walWriter) option" where
  "Appendrecord ext str w = Appendrecord_loop ext str (of_nat (length str)) kok w"

section \<open>Reader\<close>

record Reader =
  rd_file :: ReadFile
  rd_checksum :: bool
  rd_backing_store :: bytes
  rd_eof :: bool
  rd_last_record_offset :: u64
  rd_end_of_buffer_offset :: u64
  rd_initial_offset :: u64

definition mk_Reader :: "ReadFile \<Rightarrow> bool \<Rightarrow> u64 \<Rightarrow> Reader" where
  "mk_Reader file checksum initial_offset =
     \<lparr>rd_file = file, rd_checksum = checksum, rd_backing_store = [], rd_eof = False,
      rd_last_record_offset = 0, rd_end_of_buffer_offset = 0, rd_initial_offset = initial_offset\<rparr>"

definition SkipToInitialBlock :: "bool \<Rightarrow> Reader \<Rightarrow> bool \<times> Reader" where
  "SkipToInitialBlock lseek_ok r =
     (let offset_in_block = rd_initial_offset r mod 32768;
          start0 = rd_initial_offset r - offset_in_block;
          block_start_location = (if offset_in_block > 32768 - 6 then start0 + 32768 else start0);
          r1 = r\<lparr>rd_end_of_buffer_offset := block_start_location\<rparr>
      in if block_start_location > 0
         then (case ReadFile_Skip lseek_ok block_start_location (rd_file r1) of
                 (s, f) \<Rightarrow> (State_ok s, r1\<lparr>rd_file := f\<rparr>))
         else (True, r1))"

text \<open>The part of the loop of \<open>ReadPhysicalRecord\<close> behind the test of the store's size.\<close>

definition kEof :: u32 where
  "kEof = 5"

definition kBadRecord :: u32 where
  "kBadRecord = 6"

text \<open>The type is read as a signed \<open>char\<close>.\<close>

definition parse_physical :: "(u32 \<Rightarrow> bytes \<Rightarrow> u32) \<Rightarrow> bytes \<Rightarrow> Reader \<Rightarrow> u32 \<times> bytes \<times> Reader" where
  "parse_physical ext frame r =
     (let header = rd_backing_store r;
          a = (ucast (header ! 4) :: u32) AND 255;
          b = (ucast (header ! 5) :: u32) AND 255;
          type = (scast (header ! 6) :: u32);
          len = a OR push_bit 8 b;
          r0 = r\<lparr>rd_backing_store := []\<rparr>
      in if length header < 7 + unat len
         then (if \<not> rd_eof r then (kBadRecord, frame, r0) else (kEof, frame, r0))
         else if type = 0 \<and> len = 0 then (kBadRecord, frame, r0)
         else if rd_checksum r \<and> ext 0 (take (1 + unat len) (drop 6 header)) \<noteq> le32 header
         then (kBadRecord, frame, r0)
         else (type, take (unat len) (drop 7 header),
               r\<lparr>rd_backing_store := drop (7 + unat len) header\<rparr>))"

text \<open>
  \<open>ReadPhysicalRecord\<close>: the type, \<open>*result\<close> and the reader.  When nothing could be read, the
  \<open>break\<close> leaves the loop and the function ends without a value: \<open>None\<close>.
\<close>

definition ReadPhysicalRecord ::
  "(u32 \<Rightarrow> bytes \<Rightarrow> u32) \<Rightarrow> bytes \<Rightarrow> Reader \<Rightarrow> (u32 \<times> bytes \<times> Reader) option" where
  "ReadPhysicalRecord ext frame r =
     (if length (rd_backing_store r) < 7 then
        if \<not> rd_eof r then
          (case ReadFile_Read 32768 [] (rd_file r) of
             (status, store, readsize, f) \<Rightarrow>
               (case readsize of
                  None \<Rightarrow> None
                | Some n \<Rightarrow>
                    if n = 0 then None
                    else
                      (let r1 = r\<lparr>rd_file := f, rd_backing_store := store,
                             rd_end_of_buffer_offset := rd_end_of_buffer_offset r + of_nat (length store)\<rparr>
                       in if \<not> State_ok status
                          then Some (kEof, frame, r1\<lparr>rd_backing_store := [], rd_eof := True\<rparr>)
                          else
                            (let r2 = (if length store < 32768 then r1\<lparr>rd_eof := True\<rparr> else r1)
                             in if length store < 7
                                then Some (kEof, frame, r2\<lparr>rd_backing_store := []\<rparr>)
                                else Some (parse_physical ext frame r2)))))
        else Some (kEof, frame, r\<lparr>rd_backing_store := []\<rparr>)
      else Some (parse_physical ext frame r))"

text \<open>
  \<open>ReadRecord\<close>: the result, \<open>*str\<close> and the reader.  The loop has no second round: what does not
  return inside the \<open>switch\<close> returns false behind it.
\<close>

definition ReadRecord ::
  "(u32 \<Rightarrow> bytes \<Rightarrow> u32) \<Rightarrow> bool \<Rightarrow> bytes \<Rightarrow> Reader \<Rightarrow> (bool \<times> bytes \<times> Reader) option" where
  "ReadRecord ext lseek_ok str r0 =
     (let (skip_ok, r) = (if rd_last_record_offset r0 < rd_initial_offset r0
                          then SkipToInitialBlock lseek_ok r0 else (True, r0))
      in if \<not> skip_ok then Some (False, str, r)
         else do {
           (record_type, frame, r1) \<leftarrow> ReadPhysicalRecord ext [] r;
           let physical_recordoff = rd_end_of_buffer_offset r1
                 - of_nat (length (rd_backing_store r1)) - of_nat (length frame);
           if record_type = 1 then
             Some (True, frame, r1\<lparr>rd_last_record_offset := physical_recordoff\<rparr>)
           else if record_type = 2 then Some (False, frame, r1)
           else Some (False, [], r1) })"

section \<open>What the writer writes\<close>

definition phys :: "(u32 \<Rightarrow> bytes \<Rightarrow> u32) \<Rightarrow> bytes \<Rightarrow> bytes" where
  "phys ext d =
     (let n = (of_nat (length d) :: u32)
      in EncodeFixed32 (ext 0 (1 # d)) @ [ucast (n AND 255), ucast (drop_bit 8 n), 1] @ d)"

lemma length_phys [simp]: "length (phys ext d) = 7 + length d"
  by (simp add: phys_def Let_def)

lemma phys_not_Nil [simp]: "phys ext d \<noteq> []"
  by (simp add: phys_def Let_def)

text \<open>Where a record goes that is written at offset \<open>bo\<close> of a block, and what is put before it.\<close>

definition wal_start :: "nat \<Rightarrow> nat" where
  "wal_start bo = (if 32768 - bo < 7 then 0 else bo)"

definition wal_padding :: "nat \<Rightarrow> bytes" where
  "wal_padding bo = (if 32768 - bo < 7 then replicate (32768 - bo) 0 else [])"

fun wal_image :: "(u32 \<Rightarrow> bytes \<Rightarrow> u32) \<Rightarrow> nat \<Rightarrow> bytes list \<Rightarrow> bytes" where
  "wal_image ext bo [] = []"
| "wal_image ext bo (r # rs) =
     wal_padding bo @ phys ext r @ wal_image ext (wal_start bo + 7 + length r) rs"

text \<open>Every record fits the rest of the block it is written to.\<close>

fun wal_fits :: "nat \<Rightarrow> bytes list \<Rightarrow> bool" where
  "wal_fits bo [] = True"
| "wal_fits bo (r # rs) =
     (r \<noteq> [] \<and> wal_start bo + 7 + length r \<le> 32768 \<and> wal_fits (wal_start bo + 7 + length r) rs)"

fun wal_end :: "nat \<Rightarrow> bytes list \<Rightarrow> nat" where
  "wal_end bo [] = bo"
| "wal_end bo (r # rs) = wal_end (wal_start bo + 7 + length r) rs"

definition wal_inv :: "(u32 \<Rightarrow> bytes \<Rightarrow> u32) \<Rightarrow> nat \<Rightarrow> walWriter \<Rightarrow> bool" where
  "wal_inv ext bo w \<longleftrightarrow>
     bo \<le> 32768 \<and> wal_block_offset w = int bo \<and> wf_inv (wal_file w) \<and>
     unat (wf_offset (wal_file w)) \<le> 6 \<and>
     wal_type_crc w = map (\<lambda>i. ext 0 [of_nat i]) [0..<5]"

locale crc_lib =
  fixes ext :: "u32 \<Rightarrow> bytes \<Rightarrow> u32"
  assumes ext_append: "ext (ext c a) b = ext c (a @ b)"
begin

lemma ext_cons: "ext (ext 0 [x]) d = ext 0 (x # d)"
  using ext_append [of 0 "[x]" d] by simp

end

text \<open>The CRC-32C of RFC 3720, bit by bit: it is what the library computes, and satisfies the law.\<close>

definition crc32c_bit :: "u32 \<Rightarrow> u32" where
  "crc32c_bit r = (if r AND 1 \<noteq> 0 then drop_bit 1 r XOR 0x82F63B78 else drop_bit 1 r)"

definition crc32c_byte :: "byte \<Rightarrow> u32 \<Rightarrow> u32" where
  "crc32c_byte b r = (crc32c_bit ^^ 8) (r XOR ucast b)"

definition crc32c_Extend :: "u32 \<Rightarrow> bytes \<Rightarrow> u32" where
  "crc32c_Extend c d = NOT (fold crc32c_byte d (NOT c))"

lemma crc32c_Extend_append: "crc32c_Extend (crc32c_Extend c a) b = crc32c_Extend c (a @ b)"
  by (simp add: crc32c_Extend_def)

interpretation crc32c: crc_lib crc32c_Extend
  by unfold_locales (rule crc32c_Extend_append)

lemma Append_n_fits:
  assumes "wf_inv f" "unat (wf_offset f) + length ptr \<le> 65536" "n = of_nat (length ptr)"
  obtains f' where "WritableFile_Append_n ptr n f = Some (kok, f')" "wf_inv f'"
    "wf_abs f' = wf_abs f @ ptr" "wf_os f' = wf_os f" "unat (wf_offset f') = unat (wf_offset f) + length ptr"
  using Append_fits [OF assms(1,2)] that assms(3) by (auto simp: WritableFile_Append_def)

lemma bit_255 [simp]: "bit (255::u32) n \<longleftrightarrow> n < 8" "bit (255::int) n \<longleftrightarrow> n < 8"
proof -
  have p: "(255::u32) = mask 8" "(255::int) = mask 8"
    by (simp_all add: mask_eq_exp_minus_1)
  show "bit (255::u32) n \<longleftrightarrow> n < 8" "bit (255::int) n \<longleftrightarrow> n < 8"
    unfolding p by (auto simp: bit_mask_iff)
qed

text \<open>The two length bytes give the length back.\<close>

lemma length_bytes:
  fixes n :: u32
  assumes "unat n < 2 ^ 16"
  shows "(ucast (ucast (n AND 255) :: byte) AND 255)
    OR push_bit 8 (ucast (ucast (drop_bit 8 n) :: byte) AND 255) = n"
proof (rule bit_word_eqI)
  fix k assume "k < LENGTH(32)"
  show "bit ((ucast (ucast (n AND 255) :: byte) AND 255)
    OR push_bit 8 (ucast (ucast (drop_bit 8 n) :: byte) AND 255) :: u32) k = bit n k"
    unfolding bit_or_iff bit_and_iff bit_push_bit_iff
    using not_bit_less [OF assms, of k] by (cases "k < 8"; cases "k < 16") (auto simp: bit_simps)
qed

text \<open>One physical record of type \<open>kFullType\<close>.\<close>

lemma Flushphyrecord_full:
  assumes "crc_lib ext" "wal_inv ext bo w" "wf_os (wal_file w) = WFull # os"
    and "bo + 7 + length d \<le> 32768" "n = of_nat (length d)"
  obtains w' where "Flushphyrecord ext kFullType d n w = Some (kok, w')"
    "wal_inv ext (bo + 7 + length d) w'" "wf_os (wal_file w') = os"
    "wf_disk (wal_file w') = wf_abs (wal_file w) @ phys ext d" "wf_offset (wal_file w') = 0"
proof -
  let ?f = "wal_file w" and ?hd = "EncodeFixed32 (ext 0 (1 # d)) @ [ucast (n AND 255), ucast (drop_bit 8 n), 1]"
  have inv: "wf_inv ?f" "unat (wf_offset ?f) \<le> 6" "wal_block_offset w = int bo"
    using assms(2) by (simp_all add: wal_inv_def)
  have n: "unat n = length d"
    using assms(4,5) by (simp add: unat_of_nat)
  have crc: "ext (wal_type_crc w ! 1) d = ext 0 (1 # d)"
    using assms(2) crc_lib.ext_cons [OF assms(1), of 1 d] by (simp add: wal_inv_def upt_rec)
  obtain f1 where f1: "WritableFile_Append_n ?hd 7 ?f = Some (kok, f1)" "wf_inv f1" "wf_abs f1 = wf_abs ?f @ ?hd"
    "wf_os f1 = wf_os ?f" "unat (wf_offset f1) = unat (wf_offset ?f) + 7"
    using Append_n_fits [OF inv(1), of ?hd 7] inv(2) by auto
  obtain f2 where f2: "WritableFile_Append_n d n f1 = Some (kok, f2)" "wf_inv f2" "wf_abs f2 = wf_abs f1 @ d"
    "wf_os f2 = wf_os f1" "unat (wf_offset f2) = unat (wf_offset f1) + length d"
    by (rule Append_n_fits [OF f1(2) _ assms(5)]) (use f1(5) inv(2) assms(4) in auto)
  have ne: "wf_offset f2 \<noteq> 0"
    using f2(5) f1(5) by auto
  let ?f3 = "f2\<lparr>wf_disk := wf_abs f2, wf_offset := 0, wf_os := os\<rparr>"
  have f3: "WritableFile_Flush f2 = Some (kok, ?f3)"
    using Flush_complete [OF f2(2), of 0 os] ne f2(4) f1(4) assms(3) by simp
  have n': "uint n = int (length d)"
    using n by (metis uint_nat)
  let ?w = "w\<lparr>wal_file := ?f3, wal_block_offset := int bo + 7 + int (length d)\<rparr>"
  have "Flushphyrecord ext kFullType d n w = Some (kok, ?w)"
    using f1(1) f2(1) f3 crc n' inv(3) by (simp add: Flushphyrecord_def n Let_def kHeaderSize_def)
  moreover have "wal_inv ext (bo + 7 + length d) ?w"
    using assms(2,4) f2(2) by (simp add: wal_inv_def wf_inv_def)
  moreover have "wf_abs f2 = wf_abs ?f @ phys ext d"
    by (simp add: f2(3) f1(3) phys_def Let_def assms(5))
  ultimately show ?thesis
    by (intro that [of ?w]) simp_all
qed

lemma wal_pad_ok:
  assumes "wal_inv ext bo w" "wf_offset (wal_file w) = 0"
  obtains w' where "wal_pad w = Some w'" "wal_inv ext (wal_start bo) w'"
    "wf_abs (wal_file w') = wf_abs (wal_file w) @ wal_padding bo" "wf_os (wal_file w') = wf_os (wal_file w)"
proof -
  let ?b = "word_of_int (kBlockSize - wal_block_offset w) :: u32"
  have w: "bo \<le> 32768" "wal_block_offset w = int bo" "wf_inv (wal_file w)"
    using assms by (simp_all add: wal_inv_def)
  have "?b = of_nat (32768 - bo)"
    using w by (simp add: kBlockSize_def of_nat_diff)
  then have b: "unat ?b = 32768 - bo"
    by (simp add: unat_of_nat del: of_nat_diff)
  have lt: "?b < 7 \<longleftrightarrow> 32768 - bo < 7" "0 < ?b \<longleftrightarrow> bo < 32768"
    using b by (simp_all add: word_less_nat_alt)
  show ?thesis
  proof (cases "32768 - bo < 7 \<and> bo < 32768")
    case True
    have "unat (wf_offset (wal_file w)) + length (replicate (32768 - bo) (0::byte)) \<le> 65536"
      using assms(2) by simp
    then obtain f where f: "WritableFile_Append (replicate (32768 - bo) 0) (wal_file w) = Some (kok, f)" "wf_inv f"
      "wf_abs f = wf_abs (wal_file w) @ replicate (32768 - bo) 0" "wf_os f = wf_os (wal_file w)"
      "unat (wf_offset f) = 32768 - bo"
      using Append_fits [OF w(3), of "replicate (32768 - bo) 0"] assms(2) by auto
    show ?thesis
      by (rule that [of "w\<lparr>wal_file := f, wal_block_offset := 0\<rparr>"])
        (use True f b lt assms(1) in \<open>simp_all add: wal_pad_def Let_def wal_inv_def wal_start_def wal_padding_def\<close>)
  next
    case False
    show ?thesis
    proof (cases "32768 - bo < 7")
      case True
      then have "bo = 32768"
        using False w(1) by simp
      then show ?thesis
        by (intro that [of "w\<lparr>wal_block_offset := 0\<rparr>"])
          (use lt assms in \<open>simp_all add: wal_pad_def Let_def wal_inv_def wal_start_def wal_padding_def\<close>)
    next
      case False
      then show ?thesis
        by (intro that [of w])
          (use lt assms in \<open>simp_all add: wal_pad_def Let_def wal_inv_def wal_start_def wal_padding_def\<close>)
    qed
  qed
qed

text \<open>A round of the loop that writes a piece of at least one byte: it is always written as a full record.\<close>

lemma Appendrecord_round:
  assumes "crc_lib ext" "wal_inv ext bo w" "wf_offset (wal_file w) = 0" "wf_os (wal_file w) = WFull # os"
    and "length ptr < 2 ^ 32" "ptr \<noteq> []" "wal_start bo + 7 < 32768"
  defines "m \<equiv> min (length ptr) (32768 - wal_start bo - 7)"
  obtains w' where
    "Appendrecord_loop ext ptr (of_nat (length ptr)) s w =
       Appendrecord_loop ext (drop m ptr) (of_nat (length (drop m ptr))) kok w'"
    "wal_inv ext (wal_start bo + 7 + m) w'" "wf_os (wal_file w') = os" "wf_offset (wal_file w') = 0"
    "wf_disk (wal_file w') = wf_disk (wal_file w) @ wal_padding bo @ phys ext (take m ptr)"
proof -
  let ?n = "of_nat (length ptr) :: u32"
  obtain w1 where w1: "wal_pad w = Some w1" "wal_inv ext (wal_start bo) w1"
    "wf_abs (wal_file w1) = wf_abs (wal_file w) @ wal_padding bo" "wf_os (wal_file w1) = wf_os (wal_file w)"
    by (rule wal_pad_ok [OF assms(2,3)])
  let ?a = "word_of_int (kBlockSize - wal_block_offset w1 - kHeaderSize) :: u32"
  have n: "unat ?n = length ptr"
    using assms(5) by (simp add: unat_of_nat)
  have "wal_block_offset w1 = int (wal_start bo)"
    using w1(2) by (simp add: wal_inv_def)
  then have "?a = of_nat (32768 - wal_start bo - 7)"
    using assms(7) by (simp add: kBlockSize_def kHeaderSize_def of_nat_diff)
  then have a: "unat ?a = 32768 - wal_start bo - 7"
    by (simp add: unat_of_nat del: of_nat_diff)
  have ne: "?n \<noteq> 0" "?a \<noteq> 0"
  proof -
    have "unat ?n \<noteq> 0" "unat ?a \<noteq> 0"
      using n a assms(6,7) by simp_all
    then show "?n \<noteq> 0" "?a \<noteq> 0"
      by (metis unat_0)+
  qed
  have min: "unat (min ?n ?a) = m"
    using n a by (auto simp: m_def min_def word_le_nat_alt)
  have m0: "0 < m"
    using assms(6,7) by (simp add: m_def)
  have end1: "(if ?a > ?n then ?n \<noteq> 0 else ?a \<noteq> 0) = True"
    using ne by simp
  have lm: "length (take m ptr) = m"
    by (simp add: m_def)
  have "of_nat (unat (min ?n ?a)) = min ?n ?a"
    by simp
  then have minn: "min ?n ?a = of_nat (length (take m ptr))"
    unfolding min lm by simp
  have os: "wf_os (wal_file w1) = WFull # os"
    using w1(4) assms(4) by simp
  have fit: "wal_start bo + 7 + length (take m ptr) \<le> 32768"
    using assms(7) by (simp add: m_def)
  obtain w2 where w2: "Flushphyrecord ext kFullType (take m ptr) (min ?n ?a) w1 = Some (kok, w2)"
    "wal_inv ext (wal_start bo + 7 + length (take m ptr)) w2" "wf_os (wal_file w2) = os"
    "wf_disk (wal_file w2) = wf_abs (wal_file w1) @ phys ext (take m ptr)" "wf_offset (wal_file w2) = 0"
    by (rule Flushphyrecord_full [OF assms(1) w1(2) os fit minn])
  have sub: "?n - min ?n ?a = of_nat (length (drop m ptr))"
    unfolding minn lm by (simp add: m_def of_nat_diff)
  have "Appendrecord_loop ext ptr ?n s w =
      Appendrecord_loop ext (drop m ptr) (of_nat (length (drop m ptr))) kok w2"
    unfolding Appendrecord_loop.simps [of ext ptr]
    using ne(1) w1(1) w2(1)
    by (simp only: Let_def bind.bind_lunit if_False ne if_cancel wal_type_def if_True simp_thms min sub prod.case)
  moreover have "wf_disk (wal_file w2) = wf_disk (wal_file w) @ wal_padding bo @ phys ext (take m ptr)"
    using w2(4) w1(3) assms(3) by (simp add: wf_abs_def)
  ultimately show ?thesis
    using that [of w2] w2(2,3,5) lm by simp
qed

lemma Appendrecord_fits:
  assumes "crc_lib ext" "wal_inv ext bo w" "wf_offset (wal_file w) = 0" "wf_os (wal_file w) = WFull # os"
    and "r \<noteq> []" "wal_start bo + 7 + length r \<le> 32768"
  obtains w' where "Appendrecord ext r w = Some (kok, w')" "wal_inv ext (wal_start bo + 7 + length r) w'"
    "wf_os (wal_file w') = os" "wf_offset (wal_file w') = 0"
    "wf_disk (wal_file w') = wf_disk (wal_file w) @ wal_padding bo @ phys ext r"
proof -
  have m: "min (length r) (32768 - wal_start bo - 7) = length r"
    using assms(6) by simp
  have l: "length r < 2 ^ 32" "wal_start bo + 7 < 32768"
    using assms(5,6) by (cases r; simp)+
  obtain w' where w': "Appendrecord_loop ext r (of_nat (length r)) kok w =
       Appendrecord_loop ext (drop (length r) r) (of_nat (length (drop (length r) r))) kok w'"
    "wal_inv ext (wal_start bo + 7 + length r) w'" "wf_os (wal_file w') = os" "wf_offset (wal_file w') = 0"
    "wf_disk (wal_file w') = wf_disk (wal_file w) @ wal_padding bo @ phys ext (take (length r) r)"
    using Appendrecord_round [OF assms(1-4) l(1) assms(5) l(2), of kok] unfolding m by blast
  show ?thesis
    by (rule that [of w'])
      (use w' in \<open>simp_all add: Appendrecord_def Appendrecord_loop.simps [of ext "[]"]\<close>)
qed

fun Append_all :: "(u32 \<Rightarrow> bytes \<Rightarrow> u32) \<Rightarrow> bytes list \<Rightarrow> walWriter \<Rightarrow> walWriter option" where
  "Append_all ext [] w = Some w"
| "Append_all ext (r # rs) w = do {
     (s, w') \<leftarrow> Appendrecord ext r w;
     if State_ok s then Append_all ext rs w' else None }"

lemma Append_all_image:
  assumes "crc_lib ext" "wal_fits bo rs" "wal_inv ext bo w" "wf_offset (wal_file w) = 0"
    and "wf_os (wal_file w) = replicate (length rs) WFull @ os"
  shows "\<exists>w'. Append_all ext rs w = Some w' \<and> wf_disk (wal_file w') = wf_disk (wal_file w) @ wal_image ext bo rs
    \<and> wal_inv ext (wal_end bo rs) w'"
  using assms(2-5)
proof (induction rs arbitrary: bo w)
  case (Cons r rs)
  obtain w1 where w1: "Appendrecord ext r w = Some (kok, w1)" "wal_inv ext (wal_start bo + 7 + length r) w1"
    "wf_os (wal_file w1) = replicate (length rs) WFull @ os" "wf_offset (wal_file w1) = 0"
    "wf_disk (wal_file w1) = wf_disk (wal_file w) @ wal_padding bo @ phys ext r"
    using Appendrecord_fits [OF assms(1) Cons.prems(2,3), of "replicate (length rs) WFull @ os" r] Cons.prems(1,4)
    by auto
  have "wal_fits (wal_start bo + 7 + length r) rs"
    using Cons.prems(1) by simp
  from Cons.IH [OF this w1(2,4,3)] show ?case
    using w1 by auto
qed simp

lemma wal_inv_mk:
  "wf_offset f = 0 \<Longrightarrow> wf_inv f \<Longrightarrow> wal_inv ext 0 (mk_walWriter ext f)"
  by (simp add: wal_inv_def mk_walWriter_def)

section \<open>Reading it back\<close>

text \<open>
  The reader stands at offset \<open>bo\<close> of a block and the records \<open>rs\<close> are still to come: the store is the
  rest of the block, and \<open>eof_\<close> says that the file ends inside it.
\<close>

definition reader_at ::
  "(u32 \<Rightarrow> bytes \<Rightarrow> u32) \<Rightarrow> nat \<Rightarrow> bytes list \<Rightarrow> Reader \<Rightarrow> bool" where
  "reader_at ext bo rs r \<longleftrightarrow>
     bo \<le> 32768 \<and> rd_initial_offset r = 0 \<and> rf_os (rd_file r) = [] \<and>
     rd_backing_store r = take (32768 - bo) (wal_image ext bo rs) \<and>
     rf_rest (rd_file r) = drop (32768 - bo) (wal_image ext bo rs) \<and>
     (rd_eof r \<longleftrightarrow> length (rd_backing_store r) < 32768 - bo)"

lemma scast_1: "(scast (1 :: byte) :: u32) = 1"
  by simp

lemma parse_physical_phys:
  assumes "crc_lib ext" "rd_backing_store r = phys ext d @ rest" "length d < 2 ^ 16"
  shows "parse_physical ext frame r = (1, d, r\<lparr>rd_backing_store := rest\<rparr>)"
proof -
  let ?n = "of_nat (length d) :: u32"
  have n: "unat ?n = length d"
    using assms(3) by (simp add: unat_of_nat)
  let ?h = "rd_backing_store r"
  have h: "?h = EncodeFixed32 (ext 0 (1 # d)) @ [ucast (?n AND 255), ucast (drop_bit 8 ?n), 1] @ d @ rest"
    by (simp add: assms(2) phys_def Let_def)
  then have i: "?h ! 4 = ucast (?n AND 255)" "?h ! 5 = ucast (drop_bit 8 ?n)" "?h ! 6 = 1"
    by (simp_all add: nth_append)
  have len: "(ucast (?h ! 4) AND 255) OR push_bit 8 (ucast (?h ! 5) AND 255) = ?n"
    unfolding i by (rule length_bytes) (use n assms(3) in simp)
  have d6: "take (1 + length d) (drop 6 ?h) = 1 # d" "drop 7 ?h = d @ rest" "drop (7 + length d) ?h = rest"
    unfolding h by (simp_all add: numeral_eq_Suc)
  have le: "le32 ?h = ext 0 (1 # d)"
    unfolding h by simp
  have l: "\<not> length ?h < 7 + length d"
    by (simp add: assms(2))
  show ?thesis
    unfolding parse_physical_def Let_def len n
    using l d6 le i(3) by (simp add: scast_1)
qed

lemma ReadFile_Read_plain:
  "rf_os f = [] \<Longrightarrow> ReadFile_Read n [] f =
    (kok, take n (rf_rest f), Some (length (take n (rf_rest f))), \<lparr>rf_rest = drop n (rf_rest f), rf_os = []\<rparr>)"
  by (simp add: ReadFile_Read_def ReadFile_loop.simps [of "[]"] Let_def min_def)

lemma ReadPhysicalRecord_at:
  assumes "crc_lib ext" "reader_at ext bo (d # rs) r" "wal_fits bo (d # rs)"
  obtains r' where "ReadPhysicalRecord ext frame r = Some (1, d, r')"
    "reader_at ext (wal_start bo + 7 + length d) rs r'"
    "rd_last_record_offset r' = rd_last_record_offset r"
proof -
  let ?img = "wal_image ext (wal_start bo + 7 + length d) rs"
  let ?left = "32768 - (wal_start bo + 7 + length d)"
  have fit: "wal_start bo + 7 + length d \<le> 32768"
    using assms(3) by simp
  then have d16: "length d < 2 ^ 16"
    by simp
  have at: "bo \<le> 32768" "rd_initial_offset r = 0" "rf_os (rd_file r) = []"
    "rd_backing_store r = take (32768 - bo) (wal_padding bo @ phys ext d @ ?img)"
    "rf_rest (rd_file r) = drop (32768 - bo) (wal_padding bo @ phys ext d @ ?img)"
    "rd_eof r \<longleftrightarrow> length (rd_backing_store r) < 32768 - bo"
    using assms(2) by (simp_all only: reader_at_def wal_image.simps)
  show ?thesis
  proof (cases "32768 - bo < 7")
    case False
    then have st: "wal_start bo = bo" "wal_padding bo = []"
      by (simp_all add: wal_start_def wal_padding_def)
    have len7: "32768 - bo = 7 + length d + ?left"
      using fit by (simp add: st)
    have store: "rd_backing_store r = phys ext d @ take ?left ?img"
      unfolding at(4) len7 st(2) by simp
    then have p: "parse_physical ext frame r = (1, d, r\<lparr>rd_backing_store := take ?left ?img\<rparr>)"
      by (rule parse_physical_phys [OF assms(1) _ d16])
    have rest: "rf_rest (rd_file r) = drop ?left ?img"
      unfolding at(5) len7 st(2) by simp
    have "rd_eof r \<longleftrightarrow> length (take ?left ?img) < ?left"
      unfolding at(6) store using len7 by simp
    then have "reader_at ext (wal_start bo + 7 + length d) rs (r\<lparr>rd_backing_store := take ?left ?img\<rparr>)"
      using fit at rest by (simp add: reader_at_def)
    moreover have "ReadPhysicalRecord ext frame r = Some (1, d, r\<lparr>rd_backing_store := take ?left ?img\<rparr>)"
      using p store by (simp add: ReadPhysicalRecord_def)
    ultimately show ?thesis
      using that by simp
  next
    case True
    then have st: "wal_start bo = 0" "wal_padding bo = replicate (32768 - bo) 0"
      by (simp_all add: wal_start_def wal_padding_def)
    have store: "length (rd_backing_store r) = 32768 - bo"
      unfolding at(4) by (simp add: st)
    have rest: "rf_rest (rd_file r) = phys ext d @ ?img"
      unfolding at(5) by (simp add: st)
    have take: "take 32768 (phys ext d @ ?img) = phys ext d @ take ?left ?img"
      using fit by (simp add: st)
    have drop: "drop 32768 (phys ext d @ ?img) = drop ?left ?img"
      using fit by (simp add: st)
    let ?r2 = "r\<lparr>rd_file := \<lparr>rf_rest = drop ?left ?img, rf_os = []\<rparr>,
        rd_backing_store := phys ext d @ take ?left ?img,
        rd_end_of_buffer_offset := rd_end_of_buffer_offset r + of_nat (length (phys ext d @ take ?left ?img)),
        rd_eof := length (phys ext d @ take ?left ?img) < 32768\<rparr>"
    have eof: "\<not> rd_eof r"
      using at(6) store by simp
    have p: "parse_physical ext frame ?r2 = (1, d, ?r2\<lparr>rd_backing_store := take ?left ?img\<rparr>)"
      by (rule parse_physical_phys [OF assms(1) _ d16]) simp
    have upd: "(if b then r1\<lparr>rd_eof := True\<rparr> else r1) = r1\<lparr>rd_eof := b\<rparr>" if "\<not> rd_eof r1"
      for r1 :: Reader and b
      using that by (cases r1; cases b) simp_all
    have "ReadPhysicalRecord ext frame r = Some (parse_physical ext frame ?r2)"
      unfolding ReadPhysicalRecord_def ReadFile_Read_plain [OF at(3)] rest take drop
      using True store eof
      by (auto simp: upd Let_def simp del: length_append) simp_all
    moreover have "reader_at ext (wal_start bo + 7 + length d) rs (?r2\<lparr>rd_backing_store := take ?left ?img\<rparr>)"
      using fit at(2) by (simp add: reader_at_def st(1)) linarith
    ultimately show ?thesis
      using that [of "?r2\<lparr>rd_backing_store := take ?left ?img\<rparr>"] p by simp
  qed
qed

lemma ReadRecord_at:
  assumes "crc_lib ext" "reader_at ext bo (d # rs) r" "wal_fits bo (d # rs)"
  obtains r' where "ReadRecord ext lseek_ok str r = Some (True, d, r')"
    "reader_at ext (wal_start bo + 7 + length d) rs r'"
proof -
  obtain r1 where r1: "ReadPhysicalRecord ext [] r = Some (1, d, r1)"
    "reader_at ext (wal_start bo + 7 + length d) rs r1"
    by (rule ReadPhysicalRecord_at [OF assms])
  have i: "rd_initial_offset r = 0"
    using assms(2) by (simp add: reader_at_def)
  let ?r = "r1\<lparr>rd_last_record_offset := rd_end_of_buffer_offset r1
      - of_nat (length (rd_backing_store r1)) - of_nat (length d)\<rparr>"
  show ?thesis
    by (rule that [of ?r]) (use r1 i in \<open>simp_all add: ReadRecord_def Let_def reader_at_def\<close>)
qed

lemma ReadRecord_end:
  assumes "reader_at ext bo [] r"
  shows "if bo = 32768 then ReadRecord ext lseek_ok str r = None
    else (\<exists>r'. ReadRecord ext lseek_ok str r = Some (False, [], r'))"
  using assms
  by (auto simp: reader_at_def ReadRecord_def ReadPhysicalRecord_def ReadFile_Read_plain Let_def kEof_def)

text \<open>The first \<open>n\<close> records, and whether the call after them ends the log, and how.\<close>

fun read_records ::
  "(u32 \<Rightarrow> bytes \<Rightarrow> u32) \<Rightarrow> nat \<Rightarrow> Reader \<Rightarrow> (bytes list \<times> Reader) option" where
  "read_records ext 0 r = Some ([], r)"
| "read_records ext (Suc n) r = do {
     (ok, d, r1) \<leftarrow> ReadRecord ext True [] r;
     if ok then do { (ds, r2) \<leftarrow> read_records ext n r1; Some (d # ds, r2) } else None }"

lemma read_records_at:
  assumes "crc_lib ext" "reader_at ext bo rs r" "wal_fits bo rs"
  shows "\<exists>r'. read_records ext (length rs) r = Some (rs, r') \<and> reader_at ext (wal_end bo rs) [] r'"
  using assms(2,3)
proof (induction rs arbitrary: bo r)
  case (Cons d rs)
  obtain r1 where r1: "ReadRecord ext True [] r = Some (True, d, r1)"
    "reader_at ext (wal_start bo + 7 + length d) rs r1"
    by (rule ReadRecord_at [OF assms(1) Cons.prems])
  have "wal_fits (wal_start bo + 7 + length d) rs"
    using Cons.prems(2) by simp
  from Cons.IH [OF r1(2) this] show ?case
    using r1(1) by auto
qed simp

text \<open>A new reader is at the end of a block before the first one.\<close>

lemma wal_image_block_end:
  "wal_image ext 32768 rs = wal_image ext 0 rs" "wal_fits 32768 rs = wal_fits 0 rs"
  "rs \<noteq> [] \<Longrightarrow> wal_end 32768 rs = wal_end 0 rs"
  by (cases rs; simp add: wal_start_def wal_padding_def)+

lemma reader_at_new:
  "reader_at ext 32768 rs (mk_Reader \<lparr>rf_rest = wal_image ext 0 rs, rf_os = []\<rparr> checksum 0)"
  by (simp add: reader_at_def mk_Reader_def wal_image_block_end)

section \<open>Properties\<close>

text \<open>
  C4: The log round trip: non-empty records that each fit what is left of their block, appended to a new log over a
  system that takes whole writes, are read back by a new \<open>Reader\<close> with or without checksum
  verification, in order and byte for byte, across any number of blocks.  The next call then
  answers false, unless the log ends exactly at a block boundary, where \<open>ReadPhysicalRecord\<close>
  runs off its end.  The checksum function is any one with \<open>Extend(Extend(c, a), b) = Extend(c, ab)\<close>.
\<close>

theorem wal_roundtrip:
  assumes "\<forall>c a b. ext (ext c a) b = ext c (a @ b)"
    and "wal_fits 0 rs"
  shows "\<exists>w r. Append_all ext rs (mk_walWriter ext (mk_WritableFile [] (replicate (length rs) WFull))) = Some w \<and>
    read_records ext (length rs) (mk_Reader \<lparr>rf_rest = wf_disk (wal_file w), rf_os = []\<rparr> checksum 0) = Some (rs, r) \<and>
    (if rs = [] \<or> wal_end 0 rs = 32768 then ReadRecord ext True [] r = None
     else (\<exists>r'. ReadRecord ext True [] r = Some (False, [], r')))"
proof -
  have crc: "crc_lib ext"
    using assms(1) by (simp add: crc_lib_def)
  let ?f = "mk_WritableFile [] (replicate (length rs) WFull)"
  have f: "wf_inv ?f" "wf_offset ?f = 0" "wf_disk ?f = []" "wf_os ?f = replicate (length rs) WFull @ []"
    by (simp add: wf_inv_mk) (simp_all add: mk_WritableFile_def)
  have wf: "wal_file (mk_walWriter ext ?f) = ?f"
    by (simp add: mk_walWriter_def)
  obtain w where w: "Append_all ext rs (mk_walWriter ext ?f) = Some w" "wf_disk (wal_file w) = wal_image ext 0 rs"
    using Append_all_image [OF crc assms(2) wal_inv_mk [OF f(2,1)], of "[]"] f unfolding wf by auto
  obtain r where r: "read_records ext (length rs)
      (mk_Reader \<lparr>rf_rest = wal_image ext 0 rs, rf_os = []\<rparr> checksum 0) = Some (rs, r)"
    "reader_at ext (wal_end 32768 rs) [] r"
    using read_records_at [OF crc reader_at_new [of ext rs checksum]] assms(2) wal_image_block_end(2)
    by blast
  have e: "wal_end 32768 rs = (if rs = [] then 32768 else wal_end 0 rs)"
    using wal_image_block_end(3) by simp
  show ?thesis
    using w r(1) ReadRecord_end [OF r(2), of True "[]"] unfolding e
    by (intro exI [of _ w] exI [of _ r]) (simp split: if_splits)
qed

theorem wal_roundtrip_witness:
  "\<exists>w r. Append_all crc32c_Extend [[1, 2], [3]] (mk_walWriter crc32c_Extend
      (mk_WritableFile [] (replicate (length [[1, 2 :: byte], [3]]) WFull))) = Some w \<and>
    read_records crc32c_Extend (length [[1, 2 :: byte], [3]])
      (mk_Reader \<lparr>rf_rest = wf_disk (wal_file w), rf_os = []\<rparr> True 0) = Some ([[1, 2], [3]], r) \<and>
    (if [[1, 2 :: byte], [3]] = [] \<or> wal_end 0 [[1, 2], [3]] = 32768
     then ReadRecord crc32c_Extend True [] r = None
     else (\<exists>r'. ReadRecord crc32c_Extend True [] r = Some (False, [], r')))"
  by (rule wal_roundtrip) (simp_all add: crc32c_Extend_append wal_start_def)

text \<open>
  C36: A record of up to 65522 bytes that does not fit the first block of a new log is torn: it is written as two records of type
  \<open>kFullType\<close> (the writer never uses the fragment types), with the status ok, and the reader returns its two pieces
  as two complete records.
\<close>

theorem wal_long_record_torn:
  assumes "\<forall>c a b. ext (ext c a) b = ext c (a @ b)"
    and "32761 < length r" "length r \<le> 65522"
  shows "\<exists>w r'. Appendrecord ext r (mk_walWriter ext (mk_WritableFile [] [WFull, WFull])) = Some (kok, w) \<and>
    read_records ext 2 (mk_Reader \<lparr>rf_rest = wf_disk (wal_file w), rf_os = []\<rparr> checksum 0)
      = Some ([take 32761 r, drop 32761 r], r')"
proof -
  have crc: "crc_lib ext"
    using assms(1) by (simp add: crc_lib_def)
  let ?f = "mk_WritableFile [] [WFull, WFull]" and ?rs = "[take 32761 r, drop 32761 r]"
  have f: "wf_inv ?f" "wf_offset ?f = 0" "wf_disk ?f = []" "wf_os ?f = [WFull, WFull]"
    by (simp add: wf_inv_mk) (simp_all add: mk_WritableFile_def)
  let ?w = "mk_walWriter ext ?f"
  have wf: "wal_file ?w = ?f"
    by (simp add: mk_walWriter_def)
  have l: "length r < 2 ^ 32" "r \<noteq> []" "length (drop 32761 r) < 2 ^ 32" "drop 32761 r \<noteq> []"
    using assms(2,3) by auto
  have m1: "min (length r) (32768 - wal_start 0 - 7) = 32761"
    and m2: "min (length (drop 32761 r)) (32768 - wal_start 32768 - 7) = length (drop 32761 r)"
    using assms(2,3) by (simp_all add: wal_start_def)
  obtain w1 where w1: "Appendrecord_loop ext r (of_nat (length r)) kok ?w =
       Appendrecord_loop ext (drop 32761 r) (of_nat (length (drop 32761 r))) kok w1"
    "wal_inv ext 32768 w1" "wf_os (wal_file w1) = [WFull]" "wf_offset (wal_file w1) = 0"
    "wf_disk (wal_file w1) = phys ext (take 32761 r)"
    using Appendrecord_round [OF crc wal_inv_mk [OF f(2,1)], of "[WFull]" r kok] f wf l(1,2)
    unfolding m1 by (auto simp: wal_start_def wal_padding_def)
  obtain w2 where w2: "Appendrecord_loop ext (drop 32761 r) (of_nat (length (drop 32761 r))) kok w1 =
       Appendrecord_loop ext [] 0 kok w2"
    "wf_disk (wal_file w2) = wf_disk (wal_file w1) @ phys ext (drop 32761 r)"
    using Appendrecord_round [OF crc w1(2,4), of "[]" "drop 32761 r" kok] w1(3) l(3,4)
    unfolding m2 by (auto simp: wal_start_def wal_padding_def)
  have "Appendrecord ext r ?w = Some (kok, w2)"
    unfolding Appendrecord_def w1(1) w2(1) by (simp add: Appendrecord_loop.simps)
  moreover have "wf_disk (wal_file w2) = wal_image ext 0 ?rs"
    using assms(2,3) w2(2) w1(5) by (simp add: wal_start_def wal_padding_def)
  moreover have "wal_fits 32768 ?rs"
    using assms(2,3) l(2,4) by (auto simp: wal_start_def)
  then obtain r' where "read_records ext (length ?rs) (mk_Reader \<lparr>rf_rest = wal_image ext 0 ?rs, rf_os = []\<rparr> checksum 0)
      = Some (?rs, r')"
    using read_records_at [OF crc reader_at_new [of ext ?rs checksum]] by blast
  ultimately show ?thesis
    by (intro exI [of _ w2] exI [of _ r']) (simp only: list.size numeral_2_eq_2 plus_1_eq_Suc One_nat_def add_0_right add_Suc_right)
qed

theorem wal_long_record_torn_witness:
  "\<exists>w r'. Appendrecord crc32c_Extend (replicate 40000 1)
        (mk_walWriter crc32c_Extend (mk_WritableFile [] [WFull, WFull])) = Some (kok, w) \<and>
    read_records crc32c_Extend 2 (mk_Reader \<lparr>rf_rest = wf_disk (wal_file w), rf_os = []\<rparr> True 0)
      = Some ([replicate 32761 1, replicate 7239 1], r')"
  using wal_long_record_torn [of crc32c_Extend "replicate 40000 1" True]
  by (simp add: crc32c_Extend_append)

end
