(* ===== verification/VersionEdit.thy ===== *)
theory VersionEdit
  imports Keys "HOL-Library.Product_Lexorder"
begin

text \<open>
  Version edits (src/src/db/version_edit.h, src/src/db/version_edit.cpp): the records of the manifest file.

  The \<open>std::set\<close> of deleted files is the list of its elements in ascending order.
\<close>

section \<open>The edit\<close>

record VersionEdit =
  ve_log_number :: u64
  ve_next_file_number :: u64
  ve_last_sequence :: u64
  ve_has_log_number :: bool
  ve_has_next_file_number :: bool
  ve_has_last_sequence :: bool
  ve_compact_pointers :: "(int \<times> InternalKey) list"
  ve_deleted_files :: "(int \<times> u64) list"
  ve_new_files :: "(int \<times> FileMate) list"

text \<open>\<open>Clear\<close> leaves \<open>compact_pointers\<close> alone.\<close>

definition VersionEdit_Clear :: "VersionEdit \<Rightarrow> VersionEdit" where
  "VersionEdit_Clear e =
     e\<lparr>ve_log_number := 0, ve_last_sequence := 0, ve_next_file_number := 0,
       ve_has_log_number := False, ve_has_next_file_number := False, ve_has_last_sequence := False,
       ve_deleted_files := [], ve_new_files := []\<rparr>"

definition mk_VersionEdit :: VersionEdit where
  "mk_VersionEdit =
     \<lparr>ve_log_number = 0, ve_next_file_number = 0, ve_last_sequence = 0,
      ve_has_log_number = False, ve_has_next_file_number = False, ve_has_last_sequence = False,
      ve_compact_pointers = [], ve_deleted_files = [], ve_new_files = []\<rparr>"

definition SetLogNumber :: "u64 \<Rightarrow> VersionEdit \<Rightarrow> VersionEdit" where
  "SetLogNumber num e = e\<lparr>ve_has_log_number := True, ve_log_number := num\<rparr>"

definition SetNextFile :: "u64 \<Rightarrow> VersionEdit \<Rightarrow> VersionEdit" where
  "SetNextFile num e = e\<lparr>ve_has_next_file_number := True, ve_next_file_number := num\<rparr>"

definition SetLastSequence :: "u64 \<Rightarrow> VersionEdit \<Rightarrow> VersionEdit" where
  "SetLastSequence seq e = e\<lparr>ve_has_last_sequence := True, ve_last_sequence := seq\<rparr>"

definition SetCompactPointer :: "int \<Rightarrow> InternalKey \<Rightarrow> VersionEdit \<Rightarrow> VersionEdit" where
  "SetCompactPointer level key e =
     e\<lparr>ve_compact_pointers := ve_compact_pointers e @ [(level, key)]\<rparr>"

definition AddFile ::
  "int \<Rightarrow> u64 \<Rightarrow> u64 \<Rightarrow> InternalKey \<Rightarrow> InternalKey \<Rightarrow> VersionEdit \<Rightarrow> VersionEdit" where
  "AddFile level file file_size smallest largest e =
     e\<lparr>ve_new_files := ve_new_files e @
         [(level, \<lparr>fm_num = file, fm_file_size = file_size, fm_smallest = smallest, fm_largest = largest\<rparr>)]\<rparr>"

text \<open>\<open>std::set::insert\<close>.\<close>

fun set_insert :: "'a::linorder \<Rightarrow> 'a list \<Rightarrow> 'a list" where
  "set_insert x [] = [x]"
| "set_insert x (y # ys) =
     (if x < y then x # y # ys else if x = y then y # ys else y # set_insert x ys)"

definition VersionEdit_DeleteFile :: "int \<Rightarrow> u64 \<Rightarrow> VersionEdit \<Rightarrow> VersionEdit" where
  "VersionEdit_DeleteFile level file e =
     e\<lparr>ve_deleted_files := set_insert (level, file) (ve_deleted_files e)\<rparr>"

section \<open>Encoding\<close>

text \<open>The tags.\<close>

definition kLogNumber :: u32 where "kLogNumber = 0"
definition kNextFileNumber :: u32 where "kNextFileNumber = 1"
definition kLastSequence :: u32 where "kLastSequence = 2"
definition kCompactPointer :: u32 where "kCompactPointer = 3"
definition kDeletedFile :: u32 where "kDeletedFile = 4"
definition kNewFile :: u32 where "kNewFile = 5"

lemmas tag_defs = kLogNumber_def kNextFileNumber_def kLastSequence_def kCompactPointer_def
  kDeletedFile_def kNewFile_def

definition put_number :: "u32 \<Rightarrow> bool \<Rightarrow> u64 \<Rightarrow> bytes \<Rightarrow> bytes" where
  "put_number tag has num dst = (if has then PutVarint64 (PutVarint32 dst tag) num else dst)"

definition put_compact_pointer :: "int \<times> InternalKey \<Rightarrow> bytes \<Rightarrow> bytes" where
  "put_compact_pointer p dst =
     PutLengthPrefixedview (PutVarint32 (PutVarint32 dst kCompactPointer) (word_of_int (fst p))) (snd p)"

definition put_deleted_file :: "int \<times> u64 \<Rightarrow> bytes \<Rightarrow> bytes" where
  "put_deleted_file p dst =
     PutVarint64 (PutVarint32 (PutVarint32 dst kDeletedFile) (word_of_int (fst p))) (snd p)"

definition put_new_file :: "int \<times> FileMate \<Rightarrow> bytes \<Rightarrow> bytes" where
  "put_new_file p dst =
     (let f = snd p;
          d1 = PutVarint32 (PutVarint32 dst kNewFile) (word_of_int (fst p));
          d2 = PutVarint64 (PutVarint64 d1 (fm_num f)) (fm_file_size f)
      in PutLengthPrefixedview (PutLengthPrefixedview d2 (fm_smallest f)) (fm_largest f))"

definition VersionEdit_EncodeTo :: "VersionEdit \<Rightarrow> bytes \<Rightarrow> bytes" where
  "VersionEdit_EncodeTo e dst =
     (let d1 = put_number kLogNumber (ve_has_log_number e) (ve_log_number e) dst;
          d2 = put_number kNextFileNumber (ve_has_next_file_number e) (ve_next_file_number e) d1;
          d3 = put_number kLastSequence (ve_has_last_sequence e) (ve_last_sequence e) d2;
          d4 = fold put_compact_pointer (ve_compact_pointers e) d3;
          d5 = fold put_deleted_file (ve_deleted_files e) d4
      in fold put_new_file (ve_new_files e) d5)"

section \<open>Decoding\<close>

definition kNumLevels :: nat where
  "kNumLevels = 7"

definition GetInternalKey :: "bytes \<Rightarrow> (InternalKey \<times> bytes) option" where
  "GetInternalKey input =
     (case GetLengthPrefixedview input of
        None \<Rightarrow> None
      | Some (str, input') \<Rightarrow>
          (case InternalKey_DecodeFrom str of (ok, key) \<Rightarrow> if ok then Some (key, input') else None))"

definition GetLevel :: "bytes \<Rightarrow> (int \<times> bytes) option" where
  "GetLevel input =
     (case GetVarint32 input of
        None \<Rightarrow> None
      | Some (v, input') \<Rightarrow> if v < of_nat kNumLevels then Some (uint v, input') else None)"

text \<open>The \<open>switch\<close>; \<open>None\<close>: \<open>msg\<close> is set, and the edit is left as it was before the field.\<close>

definition decode_field :: "u32 \<Rightarrow> bytes \<Rightarrow> VersionEdit \<Rightarrow> (bytes \<times> VersionEdit) option" where
  "decode_field tag input e =
     (if tag = kLogNumber then do {
        (n, input1) \<leftarrow> GetVarint64 input;
        Some (input1, e\<lparr>ve_log_number := n, ve_has_log_number := True\<rparr>) }
      else if tag = kNextFileNumber then do {
        (n, input1) \<leftarrow> GetVarint64 input;
        Some (input1, e\<lparr>ve_next_file_number := n, ve_has_next_file_number := True\<rparr>) }
      else if tag = kLastSequence then do {
        (n, input1) \<leftarrow> GetVarint64 input;
        Some (input1, e\<lparr>ve_last_sequence := n, ve_has_last_sequence := True\<rparr>) }
      else if tag = kDeletedFile then do {
        (level, input1) \<leftarrow> GetLevel input;
        (n, input2) \<leftarrow> GetVarint64 input1;
        Some (input2, VersionEdit_DeleteFile level n e) }
      else if tag = kNewFile then do {
        (level, input1) \<leftarrow> GetLevel input;
        (num, input2) \<leftarrow> GetVarint64 input1;
        (file_size, input3) \<leftarrow> GetVarint64 input2;
        (smallest, input4) \<leftarrow> GetInternalKey input3;
        (largest, input5) \<leftarrow> GetInternalKey input4;
        Some (input5, AddFile level num file_size smallest largest e) }
      else None)"

lemma Get_shorter:
  "GetVarint32 p = Some (v, rest) \<Longrightarrow> length rest < length p"
  "GetVarint64 p = Some (w, rest) \<Longrightarrow> length rest < length p"
  "GetLengthPrefixedview p = Some (x, rest) \<Longrightarrow> length rest < length p"
  using GetVarint32_consumes [of p v rest] GetVarint64_consumes [of p w rest]
    GetLengthPrefixedview_consumes [of p x rest]
  by fastforce+

lemma decode_field_shorter:
  "decode_field tag input e = Some (input', e') \<Longrightarrow> length input' < length input"
  by (auto simp: decode_field_def GetLevel_def GetInternalKey_def InternalKey_DecodeFrom_def
      dest!: Get_shorter split: if_splits bind_splits option.splits)

text \<open>The loop: whether \<open>msg\<close> was set, the rest of the input, the edit.\<close>

function DecodeFrom_loop :: "bytes \<Rightarrow> VersionEdit \<Rightarrow> bool \<times> bytes \<times> VersionEdit" where
  "DecodeFrom_loop input e =
     (case GetVarint32 input of
        None \<Rightarrow> (False, input, e)
      | Some (tag, input1) \<Rightarrow>
          (case decode_field tag input1 e of
             None \<Rightarrow> (True, input1, e)
           | Some (input2, e') \<Rightarrow> DecodeFrom_loop input2 e'))"
  by pat_completeness auto
termination
  by (relation "measure (length \<circ> fst)") (auto dest!: Get_shorter decode_field_shorter)

declare DecodeFrom_loop.simps [simp del]

definition VersionEdit_DecodeFrom :: "bytes \<Rightarrow> VersionEdit \<Rightarrow> State \<times> VersionEdit" where
  "VersionEdit_DecodeFrom src e0 =
     (case DecodeFrom_loop src (VersionEdit_Clear e0) of
        (msg, input, e) \<Rightarrow> (if msg \<or> input \<noteq> [] then kcorruption else kok, e))"

section \<open>What the encoder writes, field by field\<close>

definition level_ok :: "int \<Rightarrow> bool" where
  "level_ok level \<longleftrightarrow> 0 \<le> level \<and> level < 7"

definition key_ok :: "bytes \<Rightarrow> bool" where
  "key_ok k \<longleftrightarrow> k \<noteq> [] \<and> length k < 2 ^ 32"

lemma put_append:
  "put_number tag has n dst = dst @ put_number tag has n []"
  "put_deleted_file p dst = dst @ put_deleted_file p []"
  "put_compact_pointer q dst = dst @ put_compact_pointer q []"
  "put_new_file r dst = dst @ put_new_file r []"
  by (simp_all add: put_number_def put_deleted_file_def put_compact_pointer_def put_new_file_def
      PutVarint32_def PutVarint64_def PutLengthPrefixedview_def Let_def)

lemma fold_put:
  assumes "\<And>x dst. put x dst = dst @ put x []"
  shows "fold put xs dst = dst @ concat (map (\<lambda>x. put x []) xs)"
proof (induction xs arbitrary: dst)
  case (Cons x xs)
  then show ?case
    using assms [of x dst] by simp
qed simp

lemma VersionEdit_EncodeTo_concat:
  "VersionEdit_EncodeTo e dst = dst @
     put_number kLogNumber (ve_has_log_number e) (ve_log_number e) [] @
     put_number kNextFileNumber (ve_has_next_file_number e) (ve_next_file_number e) [] @
     put_number kLastSequence (ve_has_last_sequence e) (ve_last_sequence e) [] @
     concat (map (\<lambda>p. put_compact_pointer p []) (ve_compact_pointers e)) @
     concat (map (\<lambda>p. put_deleted_file p []) (ve_deleted_files e)) @
     concat (map (\<lambda>p. put_new_file p []) (ve_new_files e))"
  unfolding VersionEdit_EncodeTo_def Let_def
  by (simp add: fold_put [where put = put_new_file, OF put_append(4)]
      fold_put [where put = put_deleted_file, OF put_append(2)]
      fold_put [where put = put_compact_pointer, OF put_append(3)])
    (metis append.assoc put_append(1))

lemma GetLevel_Encode:
  assumes "level_ok level"
  shows "GetLevel (EncodeVarint32 (word_of_int level) @ rest) = Some (level, rest)"
proof -
  have "uint (word_of_int level :: u32) = level"
    using assms by (simp add: level_ok_def uint_word_of_int)
  moreover have "(word_of_int level :: u32) < of_nat kNumLevels"
    using assms calculation by (simp add: level_ok_def kNumLevels_def word_less_def)
  ultimately show ?thesis
    by (simp add: GetLevel_def GetVarint32_Encode)
qed

lemma GetInternalKey_Encode:
  assumes "key_ok k"
  shows "GetInternalKey (EncodeLengthPrefixed k @ rest) = Some (k, rest)"
  using assms by (simp add: GetInternalKey_def key_ok_def InternalKey_DecodeFrom_def)

lemma DecodeFrom_loop_field:
  assumes "decode_field tag input e = Some (rest, e')"
  shows "DecodeFrom_loop (EncodeVarint32 tag @ input) e = DecodeFrom_loop rest e'"
  using assms by (simp add: DecodeFrom_loop.simps [of "EncodeVarint32 tag @ input"] GetVarint32_Encode)

lemma loop_numbers:
  "DecodeFrom_loop (put_number kLogNumber has n [] @ rest) e =
     DecodeFrom_loop rest (if has then e\<lparr>ve_log_number := n, ve_has_log_number := True\<rparr> else e)"
  "DecodeFrom_loop (put_number kNextFileNumber has n [] @ rest) e =
     DecodeFrom_loop rest (if has then e\<lparr>ve_next_file_number := n, ve_has_next_file_number := True\<rparr> else e)"
  "DecodeFrom_loop (put_number kLastSequence has n [] @ rest) e =
     DecodeFrom_loop rest (if has then e\<lparr>ve_last_sequence := n, ve_has_last_sequence := True\<rparr> else e)"
  by (cases has; simp add: put_number_def PutVarint32_def PutVarint64_def;
      rule DecodeFrom_loop_field; simp add: decode_field_def tag_defs GetVarint64_Encode)+

lemma loop_deleted:
  assumes "level_ok (fst p)"
  shows "DecodeFrom_loop (put_deleted_file p [] @ rest) e =
    DecodeFrom_loop rest (VersionEdit_DeleteFile (fst p) (snd p) e)"
  unfolding put_deleted_file_def PutVarint32_def PutVarint64_def append_Nil append_assoc
  by (rule DecodeFrom_loop_field)
    (use assms in \<open>simp add: decode_field_def tag_defs GetVarint64_Encode GetLevel_Encode\<close>)

lemma loop_new_file:
  assumes "level_ok (fst p)" "key_ok (fm_smallest (snd p))" "key_ok (fm_largest (snd p))"
  shows "DecodeFrom_loop (put_new_file p [] @ rest) e =
    DecodeFrom_loop rest (e\<lparr>ve_new_files := ve_new_files e @ [p]\<rparr>)"
proof -
  obtain level num sz lo hi where p: "p = (level, \<lparr>fm_num = num, fm_file_size = sz, fm_smallest = lo, fm_largest = hi\<rparr>)"
    by (cases p; cases "snd p") auto
  show ?thesis
    unfolding put_new_file_def Let_def PutVarint32_def PutVarint64_def PutLengthPrefixedview_append
      append_Nil append_assoc
    by (rule DecodeFrom_loop_field)
      (use assms in \<open>simp add: p decode_field_def tag_defs GetVarint64_Encode GetLevel_Encode
        GetInternalKey_Encode AddFile_def\<close>)
qed

lemma loop_compact_pointer:
  "\<exists>input. DecodeFrom_loop (put_compact_pointer p [] @ rest) e = (True, input, e)"
proof -
  have "DecodeFrom_loop (EncodeVarint32 kCompactPointer @ input) e = (True, input, e)" for input
    by (simp add: DecodeFrom_loop.simps [of "EncodeVarint32 kCompactPointer @ input"] GetVarint32_Encode
        decode_field_def) (simp add: tag_defs)
  then show ?thesis
    unfolding put_compact_pointer_def PutVarint32_def PutLengthPrefixedview_append append_Nil append_assoc
    by blast
qed

lemma loop_all_deleted:
  assumes "\<forall>p \<in> set ps. level_ok (fst p)"
  shows "DecodeFrom_loop (concat (map (\<lambda>p. put_deleted_file p []) ps) @ rest) e =
    DecodeFrom_loop rest (fold (\<lambda>p. VersionEdit_DeleteFile (fst p) (snd p)) ps e)"
  using assms by (induction ps arbitrary: e) (simp_all add: loop_deleted)

lemma loop_all_new_files:
  assumes "\<forall>p \<in> set ps. level_ok (fst p) \<and> key_ok (fm_smallest (snd p)) \<and> key_ok (fm_largest (snd p))"
  shows "DecodeFrom_loop (concat (map (\<lambda>p. put_new_file p []) ps) @ rest) e =
    DecodeFrom_loop rest (e\<lparr>ve_new_files := ve_new_files e @ ps\<rparr>)"
  using assms by (induction ps arbitrary: e) (simp_all add: loop_new_file)

lemma set_insert_snoc: "\<forall>y \<in> set ys. y < x \<Longrightarrow> set_insert x ys = ys @ [x]"
  by (induction ys) auto

lemma fold_set_insert:
  "sorted_wrt (<) (ys @ xs) \<Longrightarrow> fold set_insert xs ys = ys @ xs"
proof (induction xs arbitrary: ys)
  case (Cons x xs)
  then have "\<forall>y \<in> set ys. y < x"
    by (auto simp: sorted_wrt_append)
  then show ?case
    using Cons by (simp add: set_insert_snoc)
qed simp

lemma fold_DeleteFile:
  "fold (\<lambda>p. VersionEdit_DeleteFile (fst p) (snd p)) ps e =
    e\<lparr>ve_deleted_files := fold set_insert ps (ve_deleted_files e)\<rparr>"
  by (induction ps arbitrary: e) (simp_all add: VersionEdit_DeleteFile_def)

section \<open>The round trip\<close>

text \<open>An edit as its operations build it: levels in range, keys that are not empty, and the set of deleted files sorted.\<close>

definition edit_wf :: "VersionEdit \<Rightarrow> bool" where
  "edit_wf e \<longleftrightarrow>
     (\<forall>p \<in> set (ve_deleted_files e). level_ok (fst p)) \<and> sorted_wrt (<) (ve_deleted_files e) \<and>
     (\<forall>p \<in> set (ve_new_files e). level_ok (fst p) \<and> key_ok (fm_smallest (snd p)) \<and>
        key_ok (fm_largest (snd p))) \<and>
     (\<not> ve_has_log_number e \<longrightarrow> ve_log_number e = 0) \<and>
     (\<not> ve_has_next_file_number e \<longrightarrow> ve_next_file_number e = 0) \<and>
     (\<not> ve_has_last_sequence e \<longrightarrow> ve_last_sequence e = 0)"

lemma decode_encode:
  assumes "edit_wf e" "ve_compact_pointers e = []"
  shows "VersionEdit_DecodeFrom (VersionEdit_EncodeTo e []) e0 =
    (kok, e\<lparr>ve_compact_pointers := ve_compact_pointers e0\<rparr>)"
proof -
  have d: "\<forall>p \<in> set (ve_deleted_files e). level_ok (fst p)" "sorted_wrt (<) ([] @ ve_deleted_files e)"
    and n: "\<forall>p \<in> set (ve_new_files e). level_ok (fst p) \<and> key_ok (fm_smallest (snd p)) \<and> key_ok (fm_largest (snd p))"
    using assms(1) by (simp_all add: edit_wf_def)
  let ?c = "VersionEdit_Clear e0"
  let ?e1 = "if ve_has_log_number e then ?c\<lparr>ve_log_number := ve_log_number e, ve_has_log_number := True\<rparr> else ?c"
  let ?e2 = "if ve_has_next_file_number e
    then ?e1\<lparr>ve_next_file_number := ve_next_file_number e, ve_has_next_file_number := True\<rparr> else ?e1"
  let ?e3 = "if ve_has_last_sequence e
    then ?e2\<lparr>ve_last_sequence := ve_last_sequence e, ve_has_last_sequence := True\<rparr> else ?e2"
  have e3: "?e3 = e\<lparr>ve_compact_pointers := ve_compact_pointers e0, ve_deleted_files := [], ve_new_files := []\<rparr>"
    using assms(1) by (cases e; cases e0) (simp add: VersionEdit_Clear_def edit_wf_def)
  have nil: "DecodeFrom_loop [] e' = (False, [], e')" for e'
    by (simp add: DecodeFrom_loop.simps)
  have "DecodeFrom_loop (VersionEdit_EncodeTo e []) ?c = DecodeFrom_loop
      (concat (map (\<lambda>p. put_deleted_file p []) (ve_deleted_files e)) @
       concat (map (\<lambda>p. put_new_file p []) (ve_new_files e))) ?e3"
    unfolding VersionEdit_EncodeTo_concat assms(2) append_Nil loop_numbers by simp
  also have "\<dots> = (False, [], e\<lparr>ve_compact_pointers := ve_compact_pointers e0\<rparr>)"
    unfolding e3 loop_all_deleted [OF d(1)] fold_DeleteFile
    using loop_all_new_files [OF n, of "[]"] fold_set_insert [OF d(2)] nil by simp
  finally show ?thesis
    by (simp add: VersionEdit_DecodeFrom_def)
qed

section \<open>Properties\<close>

text \<open>
  C21: The manifest round trip: an edit without compaction pointers that its operations build is decoded from what it
  encodes, with the status ok and every number, deleted file and new file as it was, whatever the edit it is decoded into
  held before (except for that one's compaction pointers, which \<open>Clear\<close> does not remove).
\<close>

theorem VersionEdit_roundtrip:
  assumes "edit_wf e" "ve_compact_pointers e = []"
  shows "VersionEdit_DecodeFrom (VersionEdit_EncodeTo e []) e0 =
    (kok, e\<lparr>ve_compact_pointers := ve_compact_pointers e0\<rparr>)"
  by (rule decode_encode [OF assms])

definition sample_edit :: VersionEdit where
  "sample_edit = AddFile 1 7 100 [1, 0, 0, 0, 0, 0, 0, 0, 0] [2, 0, 0, 0, 0, 0, 0, 0, 0]
     (VersionEdit_DeleteFile 0 3 (VersionEdit_DeleteFile 2 1 (SetLastSequence 300 (SetLogNumber 9 mk_VersionEdit))))"

theorem VersionEdit_roundtrip_witness:
  "VersionEdit_DecodeFrom (VersionEdit_EncodeTo sample_edit []) mk_VersionEdit =
    (kok, sample_edit\<lparr>ve_compact_pointers := ve_compact_pointers mk_VersionEdit\<rparr>)"
  by (rule VersionEdit_roundtrip)
    (simp_all add: sample_edit_def edit_wf_def AddFile_def VersionEdit_DeleteFile_def SetLastSequence_def
      SetLogNumber_def mk_VersionEdit_def level_ok_def key_ok_def)

text \<open>
  An edit with a compaction pointer cannot be read back: \<open>EncodeTo\<close> writes a field with the tag
  \<open>kCompactPointer\<close> that \<open>DecodeFrom\<close> does not know, so the status is corruption, whatever else the edit holds.
\<close>

theorem VersionEdit_compact_pointer_corrupts:
  assumes "ve_compact_pointers e \<noteq> []"
  shows "fst (VersionEdit_DecodeFrom (VersionEdit_EncodeTo e []) e0) = kcorruption"
proof -
  obtain p ps where p: "ve_compact_pointers e = p # ps"
    using assms by (cases "ve_compact_pointers e") auto
  have "\<exists>rest e'. DecodeFrom_loop (VersionEdit_EncodeTo e []) (VersionEdit_Clear e0)
      = DecodeFrom_loop (put_compact_pointer p [] @ rest) e'"
    unfolding VersionEdit_EncodeTo_concat p append_Nil loop_numbers list.map concat.simps append_assoc
    by blast
  then obtain input e' where "DecodeFrom_loop (VersionEdit_EncodeTo e []) (VersionEdit_Clear e0) = (True, input, e')"
    using loop_compact_pointer by metis
  then show ?thesis
    by (simp add: VersionEdit_DecodeFrom_def)
qed

theorem VersionEdit_compact_pointer_corrupts_witness:
  "fst (VersionEdit_DecodeFrom (VersionEdit_EncodeTo (SetCompactPointer 1 [5] mk_VersionEdit) []) mk_VersionEdit)
    = kcorruption"
  by (rule VersionEdit_compact_pointer_corrupts) (simp add: SetCompactPointer_def)

end
