(* ===== verification/TableBuild.thy ===== *)
theory TableBuild
  imports Memtable FilterBlock BlockContents Wal
begin

text \<open>
  Writing a table file: \<open>Tablebuilder\<close>, \<open>Footer\<close> and \<open>Memtable::Flushlevel0fromskip\<close> of
  src/src/db/memtable.h and src/src/db/memtable.cpp.

  The record \<open>tenv\<close> holds what a builder does not change: the global filter and \<open>std::hash\<close>,
  \<open>crc32c::Extend\<close>, the string \<open>snappy::Compress\<close> makes (its result is the length of that string), and the options.
\<close>

section \<open>Footer\<close>

definition kTableMagicNumber :: u64 where
  "kTableMagicNumber = 0xdb4775248b80fb57"

record Footer =
  ft_metaindex :: BlockHandle
  ft_index :: BlockHandle

text \<open>\<open>std::string::resize(40)\<close> of the whole string.\<close>

definition str_resize :: "nat \<Rightarrow> bytes \<Rightarrow> bytes" where
  "str_resize n s = take n (s @ replicate (n - length s) 0)"

definition Footer_EncodeTo :: "Footer \<Rightarrow> bytes \<Rightarrow> bytes" where
  "Footer_EncodeTo ft dst =
     (let d1 = BlockHandle_EncodeTo (ft_metaindex ft) dst;
          d2 = BlockHandle_EncodeTo (ft_index ft) d1;
          d3 = str_resize 40 d2
      in PutFixed32 (PutFixed32 d3 (ucast kTableMagicNumber)) (ucast (drop_bit 32 kTableMagicNumber)))"

text \<open>The status, the footer and the rest of the input; \<open>None\<close>: the input is shorter than 48 bytes.\<close>

definition Footer_DecodeFrom :: "bytes \<Rightarrow> Footer \<Rightarrow> (State \<times> Footer \<times> bytes) option" where
  "Footer_DecodeFrom input ft = do {
     magic_lo \<leftarrow> DecodeFixed32 (drop 40 input);
     magic_hi \<leftarrow> DecodeFixed32 (drop 44 input);
     let magic = push_bit 32 (ucast magic_hi) OR ucast magic_lo;
     if magic \<noteq> kTableMagicNumber then Some (kcorruption, ft, input)
     else
       (case BlockHandle_DecodeFrom input (ft_metaindex ft) of
          (s1, h1, input1) \<Rightarrow>
            if \<not> State_ok s1 then Some (s1, ft\<lparr>ft_metaindex := h1\<rparr>, input1)
            else
              (case BlockHandle_DecodeFrom input1 (ft_index ft) of
                 (s2, h2, input2) \<Rightarrow>
                   if State_ok s2 then Some (s2, \<lparr>ft_metaindex = h1, ft_index = h2\<rparr>, drop 48 input)
                   else Some (s2, \<lparr>ft_metaindex = h1, ft_index = h2\<rparr>, input2))) }"

section \<open>The builder\<close>

datatype CompressionType = kNoCompression | kSnappyCompression

fun CompressionType_code :: "CompressionType \<Rightarrow> byte" where
  "CompressionType_code kNoCompression = 0"
| "CompressionType_code kSnappyCompression = 1"

record tenv =
  te_bloom :: BloomFilter
  te_hash :: "bytes \<Rightarrow> u64"
  te_ext :: "u32 \<Rightarrow> bytes \<Rightarrow> u32"
  te_compress :: "bytes \<Rightarrow> bytes"
  te_block_size :: u32
  te_restart_interval :: int
  te_compression :: CompressionType

record Tablebuilder =
  tb_file :: WritableFile
  tb_offset :: u64
  tb_state :: State
  tb_data_block :: Blockbuilder
  tb_index_block :: Blockbuilder
  tb_last_key :: bytes
  tb_num_entries :: int
  tb_closed :: bool
  tb_filter_block :: FilterBlockbuilder
  tb_pending_index_entry :: bool
  tb_pending_handle :: BlockHandle
  tb_compressed_output :: bytes

definition mk_Tablebuilder :: "WritableFile \<Rightarrow> Tablebuilder" where
  "mk_Tablebuilder f =
     \<lparr>tb_file = f, tb_offset = 0, tb_state = kok, tb_data_block = mk_Blockbuilder,
      tb_index_block = mk_Blockbuilder, tb_last_key = [], tb_num_entries = 0, tb_closed = False,
      tb_filter_block = mk_FilterBlockbuilder, tb_pending_index_entry = False,
      tb_pending_handle = \<lparr>bh_offset = 0, bh_size = 0\<rparr>, tb_compressed_output = []\<rparr>"

text \<open>The handle and the builder; a failed append leaves its status and stops.\<close>

definition WriteRawBlock ::
  "tenv \<Rightarrow> bytes \<Rightarrow> CompressionType \<Rightarrow> Tablebuilder \<Rightarrow> (BlockHandle \<times> Tablebuilder) option" where
  "WriteRawBlock E block_contents type b =
     (let handle = \<lparr>bh_offset = tb_offset b, bh_size = of_nat (length block_contents)\<rparr>
      in do {
        (s1, f1) \<leftarrow> WritableFile_Append block_contents (tb_file b);
        let b1 = b\<lparr>tb_file := f1, tb_state := s1\<rparr>;
        if \<not> State_ok s1 then Some (handle, b1)
        else do {
          let t = CompressionType_code type;
          let crc = te_ext E (te_ext E 0 block_contents) [t];
          (s2, f2) \<leftarrow> WritableFile_Append (t # EncodeFixed32 crc) f1;
          let b2 = b1\<lparr>tb_file := f2, tb_state := s2\<rparr>;
          if State_ok s2
          then Some (handle, b2\<lparr>tb_offset := tb_offset b2 + of_nat (length block_contents) + 5\<rparr>)
          else Some (handle, b2) } })"

text \<open>
  What a view of a string shows after \<open>clear()\<close> of the string, which writes a zero at its start and keeps
  the buffer.
\<close>

definition cleared_view :: "bytes \<Rightarrow> bytes" where
  "cleared_view s = (case s of [] \<Rightarrow> [] | _ # t \<Rightarrow> 0 # t)"

text \<open>The contents and the type \<open>WriteBlock\<close> passes on.\<close>

definition block_payload :: "tenv \<Rightarrow> bytes \<Rightarrow> bytes \<times> CompressionType" where
  "block_payload E raw =
     (case te_compression E of
        kNoCompression \<Rightarrow> (raw, kNoCompression)
      | kSnappyCompression \<Rightarrow>
          (let compress = te_compress E raw
           in if length compress \<noteq> 0 then (cleared_view compress, kSnappyCompression)
              else (raw, kNoCompression)))"

text \<open>\<open>WriteBlock\<close> over a block builder: the handle, the builder reset, the table builder.\<close>

definition WriteBlock ::
  "tenv \<Rightarrow> Blockbuilder \<Rightarrow> Tablebuilder \<Rightarrow> (BlockHandle \<times> Blockbuilder \<times> Tablebuilder) option" where
  "WriteBlock E block b = do {
     let fin = Blockbuilder_Finish block;
     let (contents, type) = block_payload E (bb_buffer fin);
     (handle, b') \<leftarrow> WriteRawBlock E contents type (b\<lparr>tb_compressed_output := []\<rparr>);
     Some (handle, Blockbuilder_Reset fin, b') }"

text \<open>
  \<open>Flush\<close>; note that \<open>pending_index_entry\<close> is set to false.
\<close>

definition Tablebuilder_Flush :: "tenv \<Rightarrow> Tablebuilder \<Rightarrow> Tablebuilder option" where
  "Tablebuilder_Flush E b =
     (if Blockbuilder_empty (tb_data_block b) then Some b
      else do {
        (handle, block, b1) \<leftarrow> WriteBlock E (tb_data_block b) b;
        let b2 = b1\<lparr>tb_data_block := block, tb_pending_handle := handle, tb_pending_index_entry := False\<rparr>;
        (_, f) \<leftarrow> WritableFile_Flush (tb_file b2);
        Some (b2\<lparr>tb_file := f,
                 tb_filter_block := StartBlock (te_bloom E) (te_hash E) (tb_offset b2) (tb_filter_block b2)\<rparr>) })"

definition Tablebuilder_Add :: "tenv \<Rightarrow> bytes \<Rightarrow> bytes \<Rightarrow> Tablebuilder \<Rightarrow> Tablebuilder option" where
  "Tablebuilder_Add E key val b0 =
     (let b1 = (if tb_pending_index_entry b0
                then b0\<lparr>tb_index_block := Blockbuilder_Add 1 key
                          (BlockHandle_EncodeTo (tb_pending_handle b0) []) (tb_index_block b0),
                        tb_pending_index_entry := False\<rparr>
                else b0);
          b2 = b1\<lparr>tb_filter_block := AddKey key (tb_filter_block b1), tb_last_key := key,
                  tb_num_entries := tb_num_entries b1 + 1,
                  tb_data_block := Blockbuilder_Add (te_restart_interval E) key val (tb_data_block b1)\<rparr>
      in if unat (te_block_size E) \<le> CurrentSizeEstimate (tb_data_block b2)
         then Tablebuilder_Flush E b2 else Some b2)"

text \<open>The parts of \<open>Finish\<close>.\<close>

definition filter_bloom_key :: bytes where
  "filter_bloom_key = map (\<lambda>c. of_nat (of_char c)) ''filter.bloom''"

definition finish_filter :: "tenv \<Rightarrow> Tablebuilder \<Rightarrow> (BlockHandle \<times> Tablebuilder) option" where
  "finish_filter E b =
     (if State_ok (tb_state b) then do {
        let fb = FilterBlock_Finish (te_bloom E) (te_hash E) (tb_filter_block b);
        WriteRawBlock E (fb_result fb) kNoCompression (b\<lparr>tb_filter_block := fb\<rparr>) }
      else Some (\<lparr>bh_offset = 0, bh_size = 0\<rparr>, b))"

definition finish_metaindex ::
  "tenv \<Rightarrow> BlockHandle \<Rightarrow> Tablebuilder \<Rightarrow> (BlockHandle \<times> Tablebuilder) option" where
  "finish_metaindex E filter_block_handle b =
     (if State_ok (tb_state b) then do {
        let meta_index_block = Blockbuilder_Add (te_restart_interval E) filter_bloom_key
              (BlockHandle_EncodeTo filter_block_handle []) mk_Blockbuilder;
        (handle, _, b') \<leftarrow> WriteBlock E meta_index_block b;
        Some (handle, b') }
      else Some (\<lparr>bh_offset = 0, bh_size = 0\<rparr>, b))"

definition finish_index :: "tenv \<Rightarrow> Tablebuilder \<Rightarrow> (BlockHandle \<times> Tablebuilder) option" where
  "finish_index E b =
     (if State_ok (tb_state b) then do {
        let b1 = (if tb_pending_index_entry b
                  then b\<lparr>tb_index_block := Blockbuilder_Add 1 (tb_last_key b)
                           (BlockHandle_EncodeTo (tb_pending_handle b) []) (tb_index_block b),
                         tb_pending_index_entry := False\<rparr>
                  else b);
        (handle, block, b2) \<leftarrow> WriteBlock E (tb_index_block b1) b1;
        Some (handle, b2\<lparr>tb_index_block := block\<rparr>) }
      else Some (\<lparr>bh_offset = 0, bh_size = 0\<rparr>, b))"

definition finish_footer :: "BlockHandle \<Rightarrow> BlockHandle \<Rightarrow> Tablebuilder \<Rightarrow> Tablebuilder option" where
  "finish_footer metaindex_block_handle index_block_handle b =
     (if State_ok (tb_state b) then do {
        let footer_encoding =
              Footer_EncodeTo \<lparr>ft_metaindex = metaindex_block_handle, ft_index = index_block_handle\<rparr> [];
        (s, f) \<leftarrow> WritableFile_Append footer_encoding (tb_file b);
        let b1 = b\<lparr>tb_file := f, tb_state := s\<rparr>;
        Some (if State_ok s then b1\<lparr>tb_offset := tb_offset b1 + of_nat (length footer_encoding)\<rparr> else b1) }
      else Some b)"

definition Tablebuilder_Finish :: "tenv \<Rightarrow> Tablebuilder \<Rightarrow> (State \<times> Tablebuilder) option" where
  "Tablebuilder_Finish E b0 = do {
     b1 \<leftarrow> Tablebuilder_Flush E b0;
     (filter_block_handle, b2) \<leftarrow> finish_filter E (b1\<lparr>tb_closed := True\<rparr>);
     (metaindex_block_handle, b3) \<leftarrow> finish_metaindex E filter_block_handle b2;
     (index_block_handle, b4) \<leftarrow> finish_index E b3;
     b5 \<leftarrow> finish_footer metaindex_block_handle index_block_handle b4;
     Some (tb_state b5, b5) }"

section \<open>Flushing a memtable\<close>

fun add_nodes :: "tenv \<Rightarrow> node list \<Rightarrow> Tablebuilder \<Rightarrow> Tablebuilder option" where
  "add_nodes E [] b = Some b"
| "add_nodes E (p # ps) b = do {
     b' \<leftarrow> Tablebuilder_Add E (nd_key p) (hs_view (nd_val p)) b;
     add_nodes E ps b' }"

text \<open>An empty table has no first node, whose key is read.\<close>

definition Flushlevel0fromskip ::
  "tenv \<Rightarrow> 's skiplist_ops \<Rightarrow> 's memtable \<Rightarrow> FileMate \<Rightarrow> Tablebuilder
    \<Rightarrow> (State \<times> FileMate \<times> Tablebuilder) option" where
  "Flushlevel0fromskip E L m meta b = do {
     p \<leftarrow> Skiplist_SeekToFirst L (mt_table m);
     let meta1 = meta\<lparr>fm_smallest := nd_key p\<rparr>;
     b1 \<leftarrow> add_nodes E (sl_nodes L (mt_table m)) b;
     let meta2 = (case Skiplist_SeekToLast L (mt_table m) of
                    None \<Rightarrow> meta1 | Some q \<Rightarrow> meta1\<lparr>fm_largest := nd_key q\<rparr>);
     (s, b2) \<leftarrow> Tablebuilder_Finish E b1;
     Some (s, meta2, b2) }"

section \<open>Footer round trip\<close>

lemma magic_split:
  "push_bit 32 (ucast (ucast (drop_bit 32 kTableMagicNumber) :: u32)) OR ucast (ucast kTableMagicNumber :: u32)
    = kTableMagicNumber"
  by (simp add: kTableMagicNumber_def)

lemma BlockHandle_EncodeTo_append: "BlockHandle_EncodeTo h dst = dst @ BlockHandle_EncodeTo h []"
  by (simp add: BlockHandle_EncodeTo_def PutVarint64_def)

lemma BlockHandle_Decode_Encode:
  "BlockHandle_DecodeFrom (BlockHandle_EncodeTo h [] @ rest) h0 = (kok, h, rest)"
  by (simp add: BlockHandle_EncodeTo_def BlockHandle_DecodeFrom_def PutVarint64_def GetVarint64_Encode)

lemma length_BlockHandle: "length (BlockHandle_EncodeTo h []) \<le> 20"
  using length_EncodeVarint64_bounds(2) [of "bh_offset h"] length_EncodeVarint64_bounds(2) [of "bh_size h"]
  by (simp add: BlockHandle_EncodeTo_def PutVarint64_def)

lemma Footer_bytes:
  obtains pad where
    "Footer_EncodeTo ft [] = (BlockHandle_EncodeTo (ft_metaindex ft) [] @ BlockHandle_EncodeTo (ft_index ft) [] @ pad)
       @ EncodeFixed32 (ucast kTableMagicNumber) @ EncodeFixed32 (ucast (drop_bit 32 kTableMagicNumber))"
    "length (BlockHandle_EncodeTo (ft_metaindex ft) [] @ BlockHandle_EncodeTo (ft_index ft) [] @ pad) = 40"
proof -
  let ?h = "BlockHandle_EncodeTo (ft_metaindex ft) [] @ BlockHandle_EncodeTo (ft_index ft) []"
  have l: "length ?h \<le> 40"
    using length_BlockHandle [of "ft_metaindex ft"] length_BlockHandle [of "ft_index ft"] by simp
  have "BlockHandle_EncodeTo (ft_index ft) (BlockHandle_EncodeTo (ft_metaindex ft) []) = ?h"
    by (rule BlockHandle_EncodeTo_append)
  moreover have "str_resize 40 ?h = ?h @ replicate (40 - length ?h) 0"
    using l by (simp add: str_resize_def)
  ultimately have "Footer_EncodeTo ft [] = (?h @ replicate (40 - length ?h) 0)
      @ EncodeFixed32 (ucast kTableMagicNumber) @ EncodeFixed32 (ucast (drop_bit 32 kTableMagicNumber))"
    by (simp add: Footer_EncodeTo_def Let_def PutFixed32_def)
  then show ?thesis
    using that [of "replicate (40 - length ?h) 0"] l by simp
qed

lemma Footer_length: "length (Footer_EncodeTo ft []) = 48"
proof -
  obtain pad where p:
    "Footer_EncodeTo ft [] = (BlockHandle_EncodeTo (ft_metaindex ft) [] @ BlockHandle_EncodeTo (ft_index ft) [] @ pad)
       @ EncodeFixed32 (ucast kTableMagicNumber) @ EncodeFixed32 (ucast (drop_bit 32 kTableMagicNumber))"
    "length (BlockHandle_EncodeTo (ft_metaindex ft) [] @ BlockHandle_EncodeTo (ft_index ft) [] @ pad) = 40"
    by (rule Footer_bytes)
  show ?thesis
    unfolding p(1) length_append using p(2) by simp
qed

lemma Footer_Decode_Encode [codec]:
  "Footer_DecodeFrom (Footer_EncodeTo ft [] @ rest) ft0 = Some (kok, ft, rest)"
proof -
  obtain pad where p:
    "Footer_EncodeTo ft [] = (BlockHandle_EncodeTo (ft_metaindex ft) [] @ BlockHandle_EncodeTo (ft_index ft) [] @ pad)
       @ EncodeFixed32 (ucast kTableMagicNumber) @ EncodeFixed32 (ucast (drop_bit 32 kTableMagicNumber))"
    "length (BlockHandle_EncodeTo (ft_metaindex ft) [] @ BlockHandle_EncodeTo (ft_index ft) [] @ pad) = 40"
    by (rule Footer_bytes)
  let ?body = "BlockHandle_EncodeTo (ft_metaindex ft) [] @ BlockHandle_EncodeTo (ft_index ft) [] @ pad"
  let ?lo = "EncodeFixed32 (ucast kTableMagicNumber)"
  let ?hi = "EncodeFixed32 (ucast (drop_bit 32 kTableMagicNumber))"
  let ?in = "Footer_EncodeTo ft [] @ rest"
  have in_: "?in = ?body @ ?lo @ ?hi @ rest"
    using p(1) by simp
  have len: "length (Footer_EncodeTo ft []) = 48"
    by (rule Footer_length)
  have d40: "drop 40 ?in = ?lo @ ?hi @ rest"
    unfolding in_ using p(2) by (metis append_eq_conv_conj)
  have "drop 44 ?in = drop 4 (drop 40 ?in)"
    by (simp del: drop_append)
  then have d44: "drop 44 ?in = ?hi @ rest"
    unfolding d40 by simp
  have d48: "drop 48 ?in = rest"
    using len by simp
  have h1: "BlockHandle_DecodeFrom ?in h = (kok, ft_metaindex ft,
      BlockHandle_EncodeTo (ft_index ft) [] @ pad @ ?lo @ ?hi @ rest)" for h
    unfolding in_ append_assoc by (rule BlockHandle_Decode_Encode)
  show ?thesis
    using magic_split
    by (simp add: Footer_DecodeFrom_def d40 d44 d48 h1 BlockHandle_Decode_Encode Let_def
        del: drop_append append_assoc)
qed

section \<open>Properties\<close>

text \<open>
  The footer of a table file: its encoding has 48 bytes (\<open>kEncodedLength\<close>), whatever the two handles are, and is
  decoded to the same handles with the status ok; the input then continues behind it.
\<close>

theorem Footer_roundtrip:
  "length (Footer_EncodeTo ft []) = 48 \<and>
   Footer_DecodeFrom (Footer_EncodeTo ft [] @ rest) ft0 = Some (kok, ft, rest)"
  by (simp only: Footer_length Footer_Decode_Encode simp_thms)

text \<open>The contents of the file and the offset move together.\<close>

definition tb_offset_ok :: "Tablebuilder \<Rightarrow> bool" where
  "tb_offset_ok b \<longleftrightarrow> wf_inv (tb_file b) \<and> tb_offset b = of_nat (length (wf_abs (tb_file b)))"

definition raw_block_image :: "tenv \<Rightarrow> bytes \<Rightarrow> CompressionType \<Rightarrow> bytes" where
  "raw_block_image E contents type =
     contents @ [CompressionType_code type]
       @ EncodeFixed32 (te_ext E (te_ext E 0 contents) [CompressionType_code type])"

lemma WriteRawBlock_ok:
  assumes "tb_offset_ok b" "unat (wf_offset (tb_file b)) + length contents + 5 \<le> 65536"
  obtains f' where "WriteRawBlock E contents type b
      = Some (\<lparr>bh_offset = tb_offset b, bh_size = of_nat (length contents)\<rparr>,
          b\<lparr>tb_file := f', tb_state := kok, tb_offset := tb_offset b + of_nat (length contents) + 5\<rparr>)"
    "wf_inv f'" "wf_abs f' = wf_abs (tb_file b) @ raw_block_image E contents type"
    "wf_os f' = wf_os (tb_file b)" "unat (wf_offset f') = unat (wf_offset (tb_file b)) + length contents + 5"
proof -
  let ?t = "CompressionType_code type"
  let ?tr = "?t # EncodeFixed32 (te_ext E (te_ext E 0 contents) [?t])"
  have inv: "wf_inv (tb_file b)"
    using assms(1) by (simp add: tb_offset_ok_def)
  obtain f1 where f1: "WritableFile_Append contents (tb_file b) = Some (kok, f1)" "wf_inv f1"
    "wf_abs f1 = wf_abs (tb_file b) @ contents" "wf_os f1 = wf_os (tb_file b)"
    "unat (wf_offset f1) = unat (wf_offset (tb_file b)) + length contents"
    using Append_fits [OF inv, of contents] assms(2) by auto
  obtain f2 where f2: "WritableFile_Append ?tr f1 = Some (kok, f2)" "wf_inv f2" "wf_abs f2 = wf_abs f1 @ ?tr"
    "wf_os f2 = wf_os f1" "unat (wf_offset f2) = unat (wf_offset f1) + length ?tr"
    using Append_fits [OF f1(2), of ?tr] f1(5) assms(2) by auto
  show ?thesis
    by (rule that [of f2]) (use f1 f2 in \<open>simp_all add: WriteRawBlock_def raw_block_image_def Let_def\<close>)
qed

text \<open>
  \<open>WriteRawBlock\<close>: as long as the block and its trailer fit the file's buffer, it appends the contents, the type and the
  checksum of both, returns the handle of exactly this place, and keeps \<open>offset\<close> equal to the
  length of the file.
\<close>

theorem WriteRawBlock_image:
  assumes "tb_offset_ok b" "unat (wf_offset (tb_file b)) + length contents + 5 \<le> 65536"
  shows "\<exists>b'. WriteRawBlock E contents type b
      = Some (\<lparr>bh_offset = tb_offset b, bh_size = of_nat (length contents)\<rparr>, b') \<and>
    tb_state b' = kok \<and> tb_offset_ok b' \<and>
    wf_abs (tb_file b') = wf_abs (tb_file b) @ contents @ [CompressionType_code type]
      @ EncodeFixed32 (te_ext E (te_ext E 0 contents) [CompressionType_code type])"
  by (rule WriteRawBlock_ok [OF assms, of E type])
    (use assms(1) in \<open>simp add: tb_offset_ok_def raw_block_image_def\<close>)

text \<open>An environment with the default options; its compression puts a byte in front.\<close>

definition sample_env :: tenv where
  "sample_env =
     \<lparr>te_bloom = mk_BloomFilter 10, te_hash = (\<lambda>k. 5), te_ext = crc32c_Extend, te_compress = (\<lambda>s. 1 # s),
      te_block_size = 4096, te_restart_interval = 16, te_compression = kSnappyCompression\<rparr>"

lemma sample_payload: "block_payload sample_env x = (0 # x, kSnappyCompression)"
  by (simp add: block_payload_def sample_env_def cleared_view_def)

theorem WriteRawBlock_image_witness:
  "\<exists>b'. WriteRawBlock sample_env [1, 2, 3] kNoCompression (mk_Tablebuilder (mk_WritableFile [] []))
      = Some (\<lparr>bh_offset = tb_offset (mk_Tablebuilder (mk_WritableFile [] [])),
               bh_size = of_nat (length [1, 2, 3 :: byte])\<rparr>, b') \<and>
    tb_state b' = kok \<and> tb_offset_ok b' \<and>
    wf_abs (tb_file b') = wf_abs (tb_file (mk_Tablebuilder (mk_WritableFile [] []))) @ [1, 2, 3]
      @ [CompressionType_code kNoCompression]
      @ EncodeFixed32 (te_ext sample_env (te_ext sample_env 0 [1, 2, 3]) [CompressionType_code kNoCompression])"
  by (rule WriteRawBlock_image)
    (simp_all add: tb_offset_ok_def mk_Tablebuilder_def wf_inv_mk, simp_all add: mk_WritableFile_def)

text \<open>\<open>Flush\<close> of a data block that fits the buffer puts its image on disk and the buffer is empty again.\<close>

lemma Tablebuilder_Flush_ok:
  assumes "tb_offset_ok b" "wf_offset (tb_file b) = 0" "wf_os (tb_file b) = WFull # os"
    and "bb_buffer (tb_data_block b) \<noteq> []"
    and "block_payload E (bb_buffer (Blockbuilder_Finish (tb_data_block b))) = (c, t)" "length c + 5 \<le> 65536"
  obtains b' where "Tablebuilder_Flush E b = Some b'" "tb_offset_ok b'"
    "wf_disk (tb_file b') = wf_disk (tb_file b) @ raw_block_image E c t"
    "tb_pending_handle b' = \<lparr>bh_offset = tb_offset b, bh_size = of_nat (length c)\<rparr>"
proof -
  let ?b = "b\<lparr>tb_compressed_output := []\<rparr>"
  have ok: "tb_offset_ok ?b" "unat (wf_offset (tb_file ?b)) + length c + 5 \<le> 65536"
    using assms(1,2,6) by (simp_all add: tb_offset_ok_def)
  obtain f' where f': "WriteRawBlock E c t ?b = Some (\<lparr>bh_offset = tb_offset ?b, bh_size = of_nat (length c)\<rparr>,
      ?b\<lparr>tb_file := f', tb_state := kok, tb_offset := tb_offset ?b + of_nat (length c) + 5\<rparr>)"
    "wf_inv f'" "wf_abs f' = wf_abs (tb_file ?b) @ raw_block_image E c t" "wf_os f' = wf_os (tb_file ?b)"
    by (rule WriteRawBlock_ok [OF ok])
  have "wf_os f' = replicate 0 WIntr @ WFull # os"
    using f'(4) assms(3) by simp
  then obtain f2 where f2: "WritableFile_Flush f' = Some (kok, f2)" "wf_inv f2" "wf_disk f2 = wf_abs f'"
    "wf_abs f2 = wf_abs f'"
    by (rule Flush_complete_abs [OF f'(2)])
  show ?thesis
    by (rule that)
      (use assms f' f2 in \<open>auto simp: Tablebuilder_Flush_def WriteBlock_def Blockbuilder_empty_def Let_def
        tb_offset_ok_def wf_abs_def raw_block_image_def split: prod.splits\<close>)
qed

section \<open>The index block\<close>

fun add_entries :: "tenv \<Rightarrow> (bytes \<times> bytes) list \<Rightarrow> Tablebuilder \<Rightarrow> Tablebuilder option" where
  "add_entries E [] b = Some b"
| "add_entries E ((k, v) # es) b = do {
     b' \<leftarrow> Tablebuilder_Add E k v b;
     add_entries E es b' }"

definition index_untouched :: "Tablebuilder \<Rightarrow> bool" where
  "index_untouched b \<longleftrightarrow> \<not> tb_pending_index_entry b \<and> tb_index_block b = mk_Blockbuilder"

lemma WriteRawBlock_keeps:
  "WriteRawBlock E c t b = Some (h, b') \<Longrightarrow>
    tb_index_block b' = tb_index_block b \<and> tb_pending_index_entry b' = tb_pending_index_entry b \<and>
    tb_num_entries b' = tb_num_entries b"
  by (auto simp: WriteRawBlock_def Let_def split: bind_splits if_splits)

lemma WriteBlock_keeps:
  "WriteBlock E block b = Some (h, block', b') \<Longrightarrow>
    tb_index_block b' = tb_index_block b \<and> tb_pending_index_entry b' = tb_pending_index_entry b \<and>
    tb_num_entries b' = tb_num_entries b"
  by (auto simp: WriteBlock_def Let_def split: bind_splits prod.splits dest!: WriteRawBlock_keeps)

lemma Tablebuilder_Flush_index:
  "Tablebuilder_Flush E b = Some b' \<Longrightarrow> index_untouched b \<Longrightarrow>
    index_untouched b' \<and> tb_num_entries b' = tb_num_entries b"
  by (auto simp: Tablebuilder_Flush_def index_untouched_def Let_def split: if_splits bind_splits
      dest!: WriteBlock_keeps)

lemma Tablebuilder_Add_index:
  assumes "Tablebuilder_Add E k v b = Some b'" "index_untouched b"
  shows "index_untouched b' \<and> tb_num_entries b' = tb_num_entries b + 1"
  using assms Tablebuilder_Flush_index [of E _ b']
  by (fastforce simp: Tablebuilder_Add_def index_untouched_def Let_def split: if_splits)

lemma add_entries_index:
  "add_entries E es b = Some b' \<Longrightarrow> index_untouched b \<Longrightarrow>
    index_untouched b' \<and> tb_num_entries b' = tb_num_entries b + int (length es)"
  by (induction E es b rule: add_entries.induct)
    (auto split: bind_splits dest!: Tablebuilder_Add_index)

text \<open>
  The index block of a table is always empty.  However many entries are added, and however many data blocks that
  writes, no handle of a data block is ever added to the index block, because \<open>Flush\<close> clears
  \<open>pending_index_entry\<close> instead of setting it; \<open>Finish\<close> then writes the block of no entries as the index.
\<close>

theorem index_block_always_empty:
  assumes "add_entries E es (mk_Tablebuilder f) = Some b" "Tablebuilder_Flush E b = Some b1"
  shows "tb_num_entries b1 = int (length es) \<and> \<not> tb_pending_index_entry b1 \<and>
    bb_buffer (Blockbuilder_Finish (tb_index_block b1)) = build_block 1 []"
proof -
  have "index_untouched (mk_Tablebuilder f)" "tb_num_entries (mk_Tablebuilder f) = 0"
    by (simp_all add: index_untouched_def mk_Tablebuilder_def)
  then have "index_untouched b1 \<and> tb_num_entries b1 = int (length es)"
    using add_entries_index [OF assms(1)] Tablebuilder_Flush_index [OF assms(2)] by simp
  then show ?thesis
    by (simp add: index_untouched_def build_block_def)
qed

lemma sample_flush:
  obtains b b1 where
    "add_entries sample_env [([1], [2]), ([3], [])] (mk_Tablebuilder (mk_WritableFile [] [WFull])) = Some b"
    "Tablebuilder_Flush sample_env b = Some b1"
proof -
  obtain b where b: "add_entries sample_env [([1], [2]), ([3], [])] (mk_Tablebuilder (mk_WritableFile [] [WFull])) = Some b"
    "tb_file b = mk_WritableFile [] [WFull]" "tb_offset b = 0" "bb_buffer (tb_data_block b) = [0, 1, 1, 1, 2, 0, 1, 0, 3]"
    "bb_restarts (tb_data_block b) = [0]"
    by (simp add: Tablebuilder_Add_def mk_Tablebuilder_def mk_Blockbuilder_def Blockbuilder_Add_def
        CurrentSizeEstimate_def sample_env_def PutVarint32_def EncodeVarint32_small Let_def)
  have ok: "tb_offset_ok b" "wf_offset (tb_file b) = 0" "wf_os (tb_file b) = WFull # []"
    by (simp_all add: tb_offset_ok_def b wf_inv_mk) (simp_all add: mk_WritableFile_def)
  show ?thesis
    by (rule Tablebuilder_Flush_ok [OF ok _ sample_payload])
      (use that b in \<open>simp_all add: Blockbuilder_Finish_def PutFixed32_def\<close>)
qed

theorem index_block_always_empty_witness:
  "\<exists>b b1. add_entries sample_env [([1], [2]), ([3], [])] (mk_Tablebuilder (mk_WritableFile [] [WFull])) = Some b \<and>
    Tablebuilder_Flush sample_env b = Some b1 \<and>
    tb_num_entries b1 = 2 \<and> bb_buffer (Blockbuilder_Finish (tb_index_block b1)) = build_block 1 []"
proof -
  obtain b b1 where
    "add_entries sample_env [([1], [2]), ([3], [])] (mk_Tablebuilder (mk_WritableFile [] [WFull])) = Some b"
    "Tablebuilder_Flush sample_env b = Some b1"
    by (rule sample_flush)
  with index_block_always_empty [OF this] show ?thesis
    by auto
qed

section \<open>The layout of a finished file\<close>

definition data_part :: "tenv \<Rightarrow> Tablebuilder \<Rightarrow> bytes \<times> CompressionType" where
  "data_part E b = block_payload E (bb_buffer (Blockbuilder_Finish (tb_data_block b)))"

definition filter_part :: "tenv \<Rightarrow> u64 \<Rightarrow> Tablebuilder \<Rightarrow> bytes" where
  "filter_part E off b =
     fb_result (FilterBlock_Finish (te_bloom E) (te_hash E)
       (StartBlock (te_bloom E) (te_hash E) off (tb_filter_block b)))"

definition meta_part :: "tenv \<Rightarrow> BlockHandle \<Rightarrow> bytes \<times> CompressionType" where
  "meta_part E h = block_payload E (build_block (te_restart_interval E)
     [(filter_bloom_key, BlockHandle_EncodeTo h [])])"

definition index_part :: "tenv \<Rightarrow> Tablebuilder \<Rightarrow> bytes \<times> CompressionType" where
  "index_part E b = block_payload E (bb_buffer (Blockbuilder_Finish (tb_index_block b)))"

lemma WriteBlock_ok:
  assumes "tb_offset_ok b" "block_payload E (bb_buffer (Blockbuilder_Finish block)) = (c, t)"
    and "unat (wf_offset (tb_file b)) + length c + 5 \<le> 65536"
  obtains f' where "WriteBlock E block b = Some (\<lparr>bh_offset = tb_offset b, bh_size = of_nat (length c)\<rparr>,
      Blockbuilder_Reset (Blockbuilder_Finish block),
      b\<lparr>tb_compressed_output := [], tb_file := f', tb_state := kok,
        tb_offset := tb_offset b + of_nat (length c) + 5\<rparr>)"
    "wf_inv f'" "wf_abs f' = wf_abs (tb_file b) @ raw_block_image E c t"
    "wf_os f' = wf_os (tb_file b)" "unat (wf_offset f') = unat (wf_offset (tb_file b)) + length c + 5"
proof -
  let ?b = "b\<lparr>tb_compressed_output := []\<rparr>"
  have ok: "tb_offset_ok ?b" "unat (wf_offset (tb_file ?b)) + length c + 5 \<le> 65536"
    using assms(1,3) by (simp_all add: tb_offset_ok_def)
  obtain f' where f': "WriteRawBlock E c t ?b = Some (\<lparr>bh_offset = tb_offset ?b, bh_size = of_nat (length c)\<rparr>,
      ?b\<lparr>tb_file := f', tb_state := kok, tb_offset := tb_offset ?b + of_nat (length c) + 5\<rparr>)"
    "wf_inv f'" "wf_abs f' = wf_abs (tb_file ?b) @ raw_block_image E c t" "wf_os f' = wf_os (tb_file ?b)"
    "unat (wf_offset f') = unat (wf_offset (tb_file ?b)) + length c + 5"
    by (rule WriteRawBlock_ok [OF ok])
  show ?thesis
    by (rule that [of f']) (use f' assms(2) in \<open>simp_all add: WriteBlock_def Let_def\<close>)
qed

lemma length_raw_block [simp]: "length (raw_block_image E c t) = length c + 5"
  by (simp add: raw_block_image_def)

lemma meta_part_eq:
  "block_payload E (bb_buffer (Blockbuilder_Finish (Blockbuilder_Add (te_restart_interval E) filter_bloom_key
     (BlockHandle_EncodeTo h []) mk_Blockbuilder))) = meta_part E h"
  by (simp add: meta_part_def build_block_def)

lemma Finish_layout:
  assumes "tb_offset_ok b" "wf_offset (tb_file b) = 0" "wf_os (tb_file b) = WFull # os"
    and "bb_buffer (tb_data_block b) \<noteq> []" "\<not> tb_pending_index_entry b"
    and "data_part E b = (c, t)"
    and "o1 = tb_offset b + of_nat (length c) + 5" "filter_part E o1 b = fc"
    and "o2 = o1 + of_nat (length fc) + 5" "meta_part E \<lparr>bh_offset = o1, bh_size = of_nat (length fc)\<rparr> = (mc, mt)"
    and "o3 = o2 + of_nat (length mc) + 5" "index_part E b = (ic, it)"
    and "length c + 5 \<le> 65536" "length fc + length mc + length ic + 63 \<le> 65536"
  shows "\<exists>b'. Tablebuilder_Finish E b = Some (kok, b') \<and> tb_offset_ok b' \<and> wf_os (tb_file b') \<in> {os, WFull # os} \<and>
    wf_abs (tb_file b') = wf_abs (tb_file b) @ raw_block_image E c t @ raw_block_image E fc kNoCompression
      @ raw_block_image E mc mt @ raw_block_image E ic it
      @ Footer_EncodeTo \<lparr>ft_metaindex = \<lparr>bh_offset = o2, bh_size = of_nat (length mc)\<rparr>,
                         ft_index = \<lparr>bh_offset = o3, bh_size = of_nat (length ic)\<rparr>\<rparr> []"
proof -
  let ?disk = "wf_abs (tb_file b)"
  obtain f0 where f0: "WriteBlock E (tb_data_block b) b = Some (\<lparr>bh_offset = tb_offset b, bh_size = of_nat (length c)\<rparr>,
      Blockbuilder_Reset (Blockbuilder_Finish (tb_data_block b)),
      b\<lparr>tb_compressed_output := [], tb_file := f0, tb_state := kok, tb_offset := o1\<rparr>)"
    "wf_inv f0" "wf_abs f0 = ?disk @ raw_block_image E c t" "wf_os f0 = wf_os (tb_file b)"
    unfolding assms(7)
    by (rule WriteBlock_ok [OF assms(1), of E "tb_data_block b" c t]) (use assms in \<open>simp_all add: data_part_def\<close>)
  have "wf_os f0 = replicate 0 WIntr @ WFull # os"
    using f0(4) assms(3) by simp
  then obtain f1 where f1: "WritableFile_Flush f0 = Some (kok, f1)" "wf_inv f1" "wf_disk f1 = wf_abs f0"
    "wf_abs f1 = wf_abs f0" "wf_offset f1 = 0" "wf_os f1 \<in> {os, wf_os f0}"
    by (rule Flush_complete_abs [OF f0(2)])
  define b1 where "b1 = b\<lparr>tb_compressed_output := [], tb_file := f1, tb_state := kok, tb_offset := o1,
      tb_data_block := Blockbuilder_Reset (Blockbuilder_Finish (tb_data_block b)),
      tb_pending_handle := \<lparr>bh_offset = tb_offset b, bh_size = of_nat (length c)\<rparr>,
      tb_pending_index_entry := False,
      tb_filter_block := StartBlock (te_bloom E) (te_hash E) o1 (tb_filter_block b)\<rparr>"
  have fl: "Tablebuilder_Flush E b = Some b1"
    using assms(4,5) f0(1) f1(1)
    by (simp add: Tablebuilder_Flush_def Blockbuilder_empty_def Let_def b1_def)
  let ?fb = "FilterBlock_Finish (te_bloom E) (te_hash E) (tb_filter_block b1)"
  let ?b1 = "b1\<lparr>tb_closed := True, tb_filter_block := ?fb\<rparr>"
  have fc: "fb_result ?fb = fc"
    using assms(8) by (simp add: b1_def filter_part_def)
  have len1: "(of_nat (length (wf_abs f1)) :: u64) = o1"
    using assms(1) f0(3) f1(4) by (simp add: tb_offset_ok_def assms(7))
  have ok1: "tb_offset_ok ?b1"
    using f1(2) len1 by (simp add: tb_offset_ok_def b1_def)
  obtain f2 where f2: "WriteRawBlock E fc kNoCompression ?b1
      = Some (\<lparr>bh_offset = o1, bh_size = of_nat (length fc)\<rparr>,
          ?b1\<lparr>tb_file := f2, tb_state := kok, tb_offset := o2\<rparr>)"
    "wf_inv f2" "wf_abs f2 = wf_abs f1 @ raw_block_image E fc kNoCompression"
    "unat (wf_offset f2) = length fc + 5" "wf_os f2 = wf_os f1"
    using WriteRawBlock_ok [OF ok1, of fc E kNoCompression] assms(14) f1(5)
    by (auto simp: b1_def assms(9))
  define b2 where "b2 = ?b1\<lparr>tb_file := f2, tb_state := kok, tb_offset := o2\<rparr>"
  have ff: "finish_filter E (b1\<lparr>tb_closed := True\<rparr>) = Some (\<lparr>bh_offset = o1, bh_size = of_nat (length fc)\<rparr>, b2)"
    using f2(1) by (simp add: finish_filter_def fc Let_def b2_def) (simp add: b1_def)
  let ?hf = "\<lparr>bh_offset = o1, bh_size = of_nat (length fc) :: u64\<rparr>"
  have ok2: "tb_offset_ok b2"
    using f2 len1 by (simp add: tb_offset_ok_def b2_def assms(9))
  let ?mb = "Blockbuilder_Add (te_restart_interval E) filter_bloom_key (BlockHandle_EncodeTo ?hf []) mk_Blockbuilder"
  obtain f3 where f3: "WriteBlock E ?mb b2 = Some (\<lparr>bh_offset = o2, bh_size = of_nat (length mc)\<rparr>,
      Blockbuilder_Reset (Blockbuilder_Finish ?mb),
      b2\<lparr>tb_compressed_output := [], tb_file := f3, tb_state := kok, tb_offset := o3\<rparr>)"
    "wf_inv f3" "wf_abs f3 = wf_abs f2 @ raw_block_image E mc mt"
    "unat (wf_offset f3) = length fc + 5 + length mc + 5" "wf_os f3 = wf_os f2"
    using WriteBlock_ok [OF ok2, of E ?mb mc mt] assms(10,14) f2(4)
    by (auto simp: meta_part_eq b2_def assms(11))
  define b3 where "b3 = b2\<lparr>tb_compressed_output := [], tb_file := f3, tb_state := kok, tb_offset := o3\<rparr>"
  have fm: "finish_metaindex E ?hf b2 = Some (\<lparr>bh_offset = o2, bh_size = of_nat (length mc)\<rparr>, b3)"
    using f3(1) by (simp add: finish_metaindex_def Let_def b3_def) (simp add: b2_def)
  have ok3: "tb_offset_ok b3"
    using f3 ok2 by (simp add: tb_offset_ok_def b3_def b2_def assms(11))
  have ib: "tb_index_block b3 = tb_index_block b" "\<not> tb_pending_index_entry b3" "tb_state b3 = kok"
    by (simp_all add: b3_def b2_def b1_def)
  obtain f4 where f4: "WriteBlock E (tb_index_block b3) b3 = Some (\<lparr>bh_offset = o3, bh_size = of_nat (length ic)\<rparr>,
      Blockbuilder_Reset (Blockbuilder_Finish (tb_index_block b3)),
      b3\<lparr>tb_compressed_output := [], tb_file := f4, tb_state := kok, tb_offset := o3 + of_nat (length ic) + 5\<rparr>)"
    "wf_inv f4" "wf_abs f4 = wf_abs f3 @ raw_block_image E ic it"
    "unat (wf_offset f4) = length fc + 5 + length mc + 5 + length ic + 5" "wf_os f4 = wf_os f3"
    using WriteBlock_ok [OF ok3, of E "tb_index_block b3" ic it] assms(12,14) f3(4) ib(1)
    by (auto simp: index_part_def b3_def)
  define b4 where "b4 = b3\<lparr>tb_compressed_output := [], tb_file := f4, tb_state := kok,
      tb_offset := o3 + of_nat (length ic) + 5, tb_index_block := Blockbuilder_Reset (Blockbuilder_Finish (tb_index_block b3))\<rparr>"
  have fi: "finish_index E b3 = Some (\<lparr>bh_offset = o3, bh_size = of_nat (length ic)\<rparr>, b4)"
    using f4(1) ib(2,3) by (simp add: finish_index_def Let_def b4_def)
  let ?ft = "Footer_EncodeTo \<lparr>ft_metaindex = \<lparr>bh_offset = o2, bh_size = of_nat (length mc)\<rparr>,
      ft_index = \<lparr>bh_offset = o3, bh_size = of_nat (length ic)\<rparr>\<rparr> []"
  have l48: "length ?ft = 48"
    using Footer_length by simp
  obtain f5 where f5: "WritableFile_Append ?ft f4 = Some (kok, f5)" "wf_inv f5" "wf_abs f5 = wf_abs f4 @ ?ft" "wf_os f5 = wf_os f4"
    using Append_fits [OF f4(2), of ?ft] l48 f4(4) assms(14) by auto
  let ?b5 = "b4\<lparr>tb_file := f5, tb_state := kok, tb_offset := tb_offset b4 + of_nat (length ?ft)\<rparr>"
  have fo: "finish_footer \<lparr>bh_offset = o2, bh_size = of_nat (length mc)\<rparr> \<lparr>bh_offset = o3, bh_size = of_nat (length ic)\<rparr> b4
      = Some ?b5"
    using f5(1) by (simp add: finish_footer_def Let_def) (simp add: b4_def)
  have "Tablebuilder_Finish E b = Some (kok, ?b5)"
    unfolding Tablebuilder_Finish_def fl ff fm fi fo bind.bind_lunit prod.case by simp
  moreover have "wf_abs f5 = ?disk @ raw_block_image E c t @ raw_block_image E fc kNoCompression
      @ raw_block_image E mc mt @ raw_block_image E ic it @ ?ft"
    by (simp add: f5(3) f4(3) f3(3) f2(3) f1(4) f0(3))
  moreover have "tb_offset_ok ?b5"
    using f5 f4(3) ok3 by (simp add: tb_offset_ok_def b4_def b3_def)
  moreover have "wf_os f5 \<in> {os, WFull # os}"
    using f1(6) f0(4) assms(3) f2(5) f3(5) f4(5) f5(4) by simp
  ultimately show ?thesis
    by (intro exI [of _ ?b5]) simp
qed

text \<open>A small table, as an instance: two entries, added and finished.\<close>

definition sample_entries :: "(bytes \<times> bytes) list" where
  "sample_entries = [(mk_InternalKey [1] 5 kTypeValue, []), (mk_InternalKey [2] 4 kTypeValue, [])]"

lemma length_build_block_1: "length (build_block iv [(k, v)]) \<le> length k + length v + 27"
proof -
  have "length (EncodeVarint32 x) \<le> 5" for x
    by (rule length_EncodeVarint32_bounds)
  from this [of 0] this [of "of_nat (length k)"] this [of "of_nat (length v)"] show ?thesis
    by (simp add: build_block_def Blockbuilder_Finish_def Blockbuilder_Add_def mk_Blockbuilder_def
        PutVarint32_def PutFixed32_def Let_def)
qed

lemma sample_filter_length:
  assumes "tb_filter_block b = \<lparr>fb_keys = kk, fb_start = [n, m], fb_result = [], fb_tmp_keys = [], fb_filter_offsets = []\<rparr>"
    and "unat off < 2048"
  shows "length (filter_part sample_env off b) = 18"
proof -
  have "length (CreateFiler F h ks flt) = length flt + filter_bytes F (length ks) + 1" for F h ks flt
    by (subst CreateFiler_append) (simp add: length_CreateFiler)
  moreover have "filter_bytes (mk_BloomFilter 10) (Suc (Suc 0)) = 8"
    by (simp add: filter_bytes_def mk_BloomFilter_def)
  ultimately show ?thesis
    using assms
    by (simp add: filter_part_def sample_env_def FilterBlock_Finish_def StartBlock_def StartBlock_loop.simps
        CreateNewfilter_def PutFixed32_def Let_def)
qed

lemma sample_added:
  obtains b where "add_entries sample_env sample_entries (mk_Tablebuilder (mk_WritableFile [] (WFull # os))) = Some b"
    "tb_file b = mk_WritableFile [] (WFull # os)" "tb_offset b = 0" "\<not> tb_pending_index_entry b"
    "bb_buffer (tb_data_block b) \<noteq> []" "length (bb_buffer (Blockbuilder_Finish (tb_data_block b))) \<le> 100"
    "tb_index_block b = mk_Blockbuilder"
    "\<exists>kk n m. tb_filter_block b = \<lparr>fb_keys = kk, fb_start = [n, m], fb_result = [], fb_tmp_keys = [], fb_filter_offsets = []\<rparr>"
proof -
  show ?thesis
    using that
    by (simp add: sample_entries_def Tablebuilder_Add_def mk_Tablebuilder_def mk_Blockbuilder_def Blockbuilder_Add_def
        CurrentSizeEstimate_def sample_env_def PutVarint32_def EncodeVarint32_small Let_def
        mk_InternalKey_def PutFixed64_def
        mk_FilterBlockbuilder_def AddKey_def Blockbuilder_Finish_def PutFixed32_def)
qed

lemma sample_conditions:
  obtains b c o1 fc o2 mc o3 ic where
    "add_entries sample_env sample_entries (mk_Tablebuilder (mk_WritableFile [] (WFull # os))) = Some b"
    "tb_offset_ok b" "wf_offset (tb_file b) = 0" "wf_os (tb_file b) = WFull # os"
    "bb_buffer (tb_data_block b) \<noteq> []" "\<not> tb_pending_index_entry b"
    "data_part sample_env b = (c, kSnappyCompression)"
    "o1 = tb_offset b + of_nat (length c) + 5" "filter_part sample_env o1 b = fc"
    "o2 = o1 + of_nat (length fc) + 5"
    "meta_part sample_env \<lparr>bh_offset = o1, bh_size = of_nat (length fc)\<rparr> = (mc, kSnappyCompression)"
    "o3 = o2 + of_nat (length mc) + 5" "index_part sample_env b = (ic, kSnappyCompression)"
    "length c + 5 \<le> 65536" "length fc + length mc + length ic + 63 \<le> 65536" "tb_file b = mk_WritableFile [] (WFull # os)"
proof -
  obtain b where b: "add_entries sample_env sample_entries (mk_Tablebuilder (mk_WritableFile [] (WFull # os))) = Some b"
    "tb_file b = mk_WritableFile [] (WFull # os)" "tb_offset b = 0" "\<not> tb_pending_index_entry b"
    "bb_buffer (tb_data_block b) \<noteq> []" "length (bb_buffer (Blockbuilder_Finish (tb_data_block b))) \<le> 100"
    "tb_index_block b = mk_Blockbuilder"
    "\<exists>kk n m. tb_filter_block b = \<lparr>fb_keys = kk, fb_start = [n, m], fb_result = [], fb_tmp_keys = [], fb_filter_offsets = []\<rparr>"
    by (rule sample_added)
  have ok: "tb_offset_ok b" "wf_offset (tb_file b) = 0" "wf_os (tb_file b) = WFull # os"
    by (simp_all add: tb_offset_ok_def b wf_inv_mk) (simp_all add: mk_WritableFile_def)
  define c where "c = 0 # bb_buffer (Blockbuilder_Finish (tb_data_block b))"
  define o1 where "o1 = tb_offset b + of_nat (length c) + 5"
  define fc where "fc = filter_part sample_env o1 b"
  define mc where "mc = 0 # build_block (te_restart_interval sample_env) [(filter_bloom_key,
      BlockHandle_EncodeTo \<lparr>bh_offset = o1, bh_size = of_nat (length fc)\<rparr> [])]"
  have "o1 = of_nat (length c + 5)"
    using b(3) by (simp add: o1_def)
  then have "unat o1 = length c + 5"
    using b(6) by (simp add: unat_of_nat c_def del: of_nat_add)
  then have "length fc = 18"
    using b(6,8) sample_filter_length [of b _ _ _ o1] by (auto simp: c_def fc_def)
  moreover have "length mc \<le> 12 + 20 + 28"
    using length_build_block_1 [of "te_restart_interval sample_env" filter_bloom_key
        "BlockHandle_EncodeTo \<lparr>bh_offset = o1, bh_size = of_nat (length fc)\<rparr> []"]
      length_BlockHandle [of "\<lparr>bh_offset = o1, bh_size = of_nat (length fc)\<rparr>"]
    by (simp add: filter_bloom_key_def mc_def)
  moreover have "length (bb_buffer (Blockbuilder_Finish mk_Blockbuilder)) = 8"
    by (simp add: Blockbuilder_Finish_def mk_Blockbuilder_def PutFixed32_def)
  ultimately show ?thesis
    using that [OF b(1) ok b(5,4) _ o1_def fc_def [symmetric] refl _ refl] b(6)
    by (simp add: data_part_def meta_part_def index_part_def sample_payload b(2,7) c_def mc_def)
qed

lemma sample_finish:
  obtains b b' where "add_entries sample_env sample_entries (mk_Tablebuilder (mk_WritableFile [] (WFull # os))) = Some b"
    "Tablebuilder_Finish sample_env b = Some (kok, b')" "tb_offset_ok b'" "wf_os (tb_file b') \<in> {os, WFull # os}"
    "length (wf_abs (tb_file b')) \<in> {0<..<200000}" "tb_file b = mk_WritableFile [] (WFull # os)"
proof (rule sample_conditions [of os], goal_cases)
  case (1 b c o1 fc o2 mc o3 ic)
  have "length (wf_abs (tb_file b)) = 0"
    using 1(17) by (simp add: wf_abs_def mk_WritableFile_def)
  then have len: "length (wf_abs (tb_file b) @ raw_block_image sample_env c kSnappyCompression @ raw_block_image sample_env fc kNoCompression
      @ raw_block_image sample_env mc kSnappyCompression @ raw_block_image sample_env ic kSnappyCompression @ Footer_EncodeTo ft [])
      \<in> {0<..<200000}" for ft
    using 1(15,16) by (simp add: Footer_length)
  obtain b' where "Tablebuilder_Finish sample_env b = Some (kok, b')" "tb_offset_ok b'" "wf_os (tb_file b') \<in> {os, WFull # os}"
      "length (wf_abs (tb_file b')) \<in> {0<..<200000}"
    using Finish_layout [OF 1(3-16)] len by metis
  then show ?case
    using 1(1) [of b b'] 1(2,17) by simp
qed

text \<open>What \<open>WriteBlock\<close> makes of a block that Snappy has compressed.\<close>

definition snappy_payload :: "tenv \<Rightarrow> bytes \<Rightarrow> bytes" where
  "snappy_payload E raw = 0 # tl (te_compress E raw)"

lemma block_payload_snappy:
  "te_compression E = kSnappyCompression \<Longrightarrow> te_compress E raw \<noteq> [] \<Longrightarrow>
    block_payload E raw = (snappy_payload E raw, kSnappyCompression)"
  by (cases "te_compress E raw") (simp_all add: block_payload_def cleared_view_def snappy_payload_def)

text \<open>
  C26: What \<open>Finish\<close> leaves in the file.  Every builder compresses with Snappy: the copy constructor of the options sets it.  From a builder with
  entries in its data block, no index entry pending and its file flushed, whose data block, and whose other blocks together, fit the 64 KB buffer of the
  file, \<open>Finish\<close> returns ok and the file holds, behind what was there, four blocks with their trailers: the compressed data block, the filter block as
  it is, the compressed metaindex block (one entry, from \<open>filter.bloom\<close> to the handle of the filter block) and the compressed index block, of
  each compressed one the first byte cleared; and then the footer with the handles of the last two, each handle being the place of its block.
\<close>

theorem Tablebuilder_Finish_layout:
  assumes "te_compression E = kSnappyCompression" "\<forall>s. te_compress E s \<noteq> []"
    and "tb_offset_ok b" "wf_offset (tb_file b) = 0" "wf_os (tb_file b) = WFull # os"
    and "bb_buffer (tb_data_block b) \<noteq> []" "\<not> tb_pending_index_entry b"
    and "c = snappy_payload E (bb_buffer (Blockbuilder_Finish (tb_data_block b)))"
    and "o1 = tb_offset b + of_nat (length c) + 5"
    and "fc = fb_result (FilterBlock_Finish (te_bloom E) (te_hash E) (StartBlock (te_bloom E) (te_hash E) o1 (tb_filter_block b)))"
    and "o2 = o1 + of_nat (length fc) + 5"
    and "mc = snappy_payload E (build_block (te_restart_interval E)
      [(filter_bloom_key, BlockHandle_EncodeTo \<lparr>bh_offset = o1, bh_size = of_nat (length fc)\<rparr> [])])"
    and "o3 = o2 + of_nat (length mc) + 5" "ic = snappy_payload E (bb_buffer (Blockbuilder_Finish (tb_index_block b)))"
    and "length c + 5 \<le> 65536" "length fc + length mc + length ic + 63 \<le> 65536"
  shows "\<exists>b'. Tablebuilder_Finish E b = Some (kok, b') \<and> tb_offset_ok b' \<and>
    wf_abs (tb_file b') = wf_abs (tb_file b) @ raw_block_image E c kSnappyCompression @ raw_block_image E fc kNoCompression
      @ raw_block_image E mc kSnappyCompression @ raw_block_image E ic kSnappyCompression
      @ Footer_EncodeTo \<lparr>ft_metaindex = \<lparr>bh_offset = o2, bh_size = of_nat (length mc)\<rparr>,
                         ft_index = \<lparr>bh_offset = o3, bh_size = of_nat (length ic)\<rparr>\<rparr> []"
proof -
  have p: "block_payload E raw = (snappy_payload E raw, kSnappyCompression)" for raw
    using assms(1,2) by (simp add: block_payload_snappy)
  have parts: "data_part E b = (c, kSnappyCompression)" "filter_part E o1 b = fc"
      "meta_part E \<lparr>bh_offset = o1, bh_size = of_nat (length fc)\<rparr> = (mc, kSnappyCompression)"
      "index_part E b = (ic, kSnappyCompression)"
    unfolding data_part_def filter_part_def meta_part_def index_part_def p assms(8,12,14) by (simp_all flip: assms(10))
  show ?thesis
    using Finish_layout [OF assms(3-7) parts(1) assms(9) parts(2) assms(11) parts(3) assms(13) parts(4) assms(15,16)] by blast
qed

text \<open>A table of two entries.\<close>

theorem Tablebuilder_Finish_layout_witness:
  "\<exists>b b' c fc o2 mc o3 ic.
    add_entries sample_env sample_entries (mk_Tablebuilder (mk_WritableFile [] [WFull])) = Some b \<and>
    Tablebuilder_Finish sample_env b = Some (kok, b') \<and>
    wf_abs (tb_file b') = wf_abs (tb_file b) @ raw_block_image sample_env c kSnappyCompression
      @ raw_block_image sample_env fc kNoCompression @ raw_block_image sample_env mc kSnappyCompression
      @ raw_block_image sample_env ic kSnappyCompression
      @ Footer_EncodeTo \<lparr>ft_metaindex = \<lparr>bh_offset = o2, bh_size = of_nat (length mc)\<rparr>,
                         ft_index = \<lparr>bh_offset = o3, bh_size = of_nat (length ic)\<rparr>\<rparr> []"
proof (rule sample_conditions [of "[]"], goal_cases)
  case (1 b c o1 fc o2 mc o3 ic)
  have s: "te_compression sample_env = kSnappyCompression" "\<forall>s. te_compress sample_env s \<noteq> []"
    by (simp_all add: sample_env_def)
  then have p: "block_payload sample_env raw = (snappy_payload sample_env raw, kSnappyCompression)" for raw
    by (simp add: block_payload_snappy)
  have parts: "c = snappy_payload sample_env (bb_buffer (Blockbuilder_Finish (tb_data_block b)))"
      "mc = snappy_payload sample_env (build_block (te_restart_interval sample_env)
        [(filter_bloom_key, BlockHandle_EncodeTo \<lparr>bh_offset = o1, bh_size = of_nat (length fc)\<rparr> [])])"
      "ic = snappy_payload sample_env (bb_buffer (Blockbuilder_Finish (tb_index_block b)))"
    using 1(7,11,13) by (simp_all add: data_part_def meta_part_def index_part_def p)
  show ?case
    using Tablebuilder_Finish_layout [OF s 1(2-6) parts(1) 1(8) _ 1(10) parts(2) 1(12) parts(3) 1(14,15)] 1(1,9)
    unfolding filter_part_def by blast
qed

lemma add_nodes_entries:
  "add_nodes E ns b = add_entries E (map (\<lambda>n. (nd_key n, hs_view (nd_val n))) ns) b"
  by (induction E ns b rule: add_nodes.induct) (simp_all split: bind_split)

section \<open>The range of a flushed memtable\<close>

lemma nodes_range:
  assumes "nodes_ok ns" "n \<in> set ns"
  shows "nd_abs (hd ns) \<le> nd_abs n" "nd_abs n \<le> nd_abs (last ns)"
proof -
  obtain i where i: "i < length ns" "n = ns ! i"
    using assms(2) by (auto simp: in_set_conv_nth)
  have s: "sorted (map nd_abs ns)"
    using assms(1) by (simp add: nodes_ok_def)
  have "nd_abs (ns ! 0) \<le> nd_abs (ns ! i)" "nd_abs (ns ! i) \<le> nd_abs (ns ! (length ns - 1))"
    using s i(1) by (auto simp: sorted_iff_nth_mono)
  moreover have "ns \<noteq> []"
    using i(1) by auto
  then have "hd ns = ns ! 0" "last ns = ns ! (length ns - 1)"
    by (rule hd_conv_nth, rule last_conv_nth)
  ultimately show "nd_abs (hd ns) \<le> nd_abs n" "nd_abs n \<le> nd_abs (last ns)"
    unfolding i(2) by (simp_all only:)
qed

text \<open>
  The file metadata of a flushed memtable is its key range: whenever \<open>Flushlevel0fromskip\<close> returns, \<open>meta.smallest\<close> and
  \<open>meta.largest\<close> are keys of the table, and every key of the table lies between them in the order of
  internal keys; the number and the size of the file are left to the caller.
\<close>

theorem Flushlevel0_range:
  assumes "nodes_ok (sl_nodes L (mt_table m))"
    and "Flushlevel0fromskip E L m meta b = Some (s, meta', b')"
  shows "fm_smallest meta' \<in> nd_key ` set (sl_nodes L (mt_table m)) \<and>
    fm_largest meta' \<in> nd_key ` set (sl_nodes L (mt_table m)) \<and>
    (\<forall>n \<in> set (sl_nodes L (mt_table m)).
       ikey_abs (fm_smallest meta') \<le> nd_abs n \<and> nd_abs n \<le> ikey_abs (fm_largest meta')) \<and>
    fm_num meta' = fm_num meta \<and> fm_file_size meta' = fm_file_size meta"
proof -
  let ?ns = "sl_nodes L (mt_table m)"
  obtain p where p: "Skiplist_SeekToFirst L (mt_table m) = Some p"
    using assms(2) by (auto simp: Flushlevel0fromskip_def split: bind_splits)
  then have ne: "?ns \<noteq> []" and p': "Skiplist_SeekToFirst L (mt_table m) = Some (hd ?ns)"
    by (auto simp: Skiplist_SeekToFirst_def split: list.splits)
  have q: "Skiplist_SeekToLast L (mt_table m) = Some (last ?ns)"
    using ne by (cases ?ns rule: rev_cases) (simp_all add: Skiplist_SeekToLast_def)
  have m': "meta' = meta\<lparr>fm_smallest := nd_key (hd ?ns), fm_largest := nd_key (last ?ns)\<rparr>"
    using assms(2) unfolding Flushlevel0fromskip_def p' q Let_def bind.bind_lunit option.case
    by (auto split: bind_splits)
  have "hd ?ns \<in> set ?ns" "last ?ns \<in> set ?ns"
    using ne by simp_all
  then show ?thesis
    unfolding m' using nodes_range [OF assms(1)] by auto
qed

theorem Flushlevel0_range_witness:
  "\<exists>m s meta' b'. Flushlevel0fromskip sample_env list_skiplist m
      \<lparr>fm_num = 3, fm_file_size = 0, fm_smallest = [], fm_largest = []\<rparr>
      (mk_Tablebuilder (mk_WritableFile [] [WFull])) = Some (s, meta', b') \<and>
    ikey_abs (fm_smallest meta') \<le> ikey_abs (mk_InternalKey [2] 4 kTypeValue) \<and> fm_num meta' = 3"
proof -
  let ?meta = "\<lparr>fm_num = 3, fm_file_size = 0, fm_smallest = [], fm_largest = []\<rparr>"
  let ?ns = "[mk_key_node (mk_InternalKey [1] 5 kTypeValue), mk_key_node (mk_InternalKey [2] 4 kTypeValue)]"
  let ?m = "\<lparr>mt_arena = mk_Arena, mt_table = ?ns\<rparr>"
  have nodes: "sl_nodes list_skiplist (mt_table ?m) = ?ns"
    by (simp add: list_skiplist_def)
  have ok: "nodes_ok (sl_nodes list_skiplist (mt_table ?m))"
    unfolding nodes by (simp add: nodes_ok_def mk_key_node_def less_eq_skey_def)
  obtain b b' where b: "add_entries sample_env sample_entries (mk_Tablebuilder (mk_WritableFile [] [WFull])) = Some b"
    "Tablebuilder_Finish sample_env b = Some (kok, b')"
    by (rule sample_finish [of "[]"])
  have "add_nodes sample_env ?ns (mk_Tablebuilder (mk_WritableFile [] [WFull])) = Some b"
    unfolding add_nodes_entries using b(1) by (simp add: sample_entries_def mk_key_node_def)
  then obtain meta' where f: "Flushlevel0fromskip sample_env list_skiplist ?m ?meta
      (mk_Tablebuilder (mk_WritableFile [] [WFull])) = Some (kok, meta', b')"
    using b(2) nodes
    by (simp add: Flushlevel0fromskip_def Skiplist_SeekToFirst_def Skiplist_SeekToLast_def Let_def)
  from Flushlevel0_range [OF ok f] show ?thesis
    unfolding nodes using f by (intro exI [of _ ?m]) (auto simp: mk_key_node_def)
qed

section \<open>The values of a flushed memtable\<close>

text \<open>
  C35: The values a flush writes are damaged.  For a memtable with any entries, the table builder receives exactly one entry per
  entry of the memtable, with its internal key, but instead of the value the first \<open>length\<close> bytes of
  (length as a varint, value): the string of \<open>SkiplistKey::Val\<close> is as long as the value and holds its length first.
\<close>

theorem flush_truncates_values:
  assumes "skiplist_lib L" "\<forall>e \<in> set es. mentry_fits e"
    and "Memtable_Add_all new_char L (mk_Memtable L) es = Some m"
  shows "\<exists>ps. (\<forall>E b. add_nodes E (sl_nodes L (mt_table m)) b = add_entries E ps b) \<and>
    mset ps = image_mset (\<lambda>e. (mk_InternalKey (me_key e) (me_seq e) (me_type e),
      take (length (me_value e)) (EncodeVarint32 (of_nat (length (me_value e))) @ me_value e))) (mset es)"
proof -
  have "Memtable_rep L m es"
    using skiplist_lib.Add_all_rep [OF assms(1) skiplist_lib.rep_mk [OF assms(1)] assms(2)
        Add_all_short [OF assms(3,2)], of new_char] assms(3) by auto
  then have ms: "mset (sl_nodes L (mt_table m)) = image_mset mentry_node (mset es)"
    by (simp add: Memtable_rep_def)
  let ?ps = "map (\<lambda>n. (nd_key n, hs_view (nd_val n))) (sl_nodes L (mt_table m))"
  have "mset ?ps = image_mset (\<lambda>n. (nd_key n, hs_view (nd_val n))) (image_mset mentry_node (mset es))"
    by (simp flip: ms)
  also have "\<dots> = image_mset (\<lambda>e. (mk_InternalKey (me_key e) (me_seq e) (me_type e),
      take (length (me_value e)) (EncodeVarint32 (of_nat (length (me_value e))) @ me_value e))) (mset es)"
    by (simp add: multiset.map_comp comp_def mentry_node_def mentry_val_def)
  finally show ?thesis
    using add_nodes_entries by blast
qed

theorem flush_truncates_values_witness:
  "\<exists>m ps. Memtable_Add_all bump_new list_skiplist (mk_Memtable list_skiplist)
         [\<lparr>me_seq = 1, me_type = kTypeValue, me_key = [107], me_value = [7, 8, 9]\<rparr>] = Some m \<and>
    (\<forall>E b. add_nodes E (sl_nodes list_skiplist (mt_table m)) b = add_entries E ps b) \<and>
    ps = [(mk_InternalKey [107] 1 kTypeValue, [3, 7, 8])]"
proof -
  let ?es = "[\<lparr>me_seq = 1, me_type = kTypeValue, me_key = [107], me_value = [7, 8, 9]\<rparr>]"
  have fits: "\<forall>e \<in> set ?es. mentry_fits e" "\<forall>e \<in> set ?es. mentry_short e"
    by (simp_all add: mentry_fits_def mentry_short_def kMaxSequenceNumber_def)
  obtain m where m: "Memtable_Add_all bump_new list_skiplist (mk_Memtable list_skiplist) ?es = Some m"
    using list_lib.Add_all_rep [OF list_lib.rep_mk fits, of bump_new] by auto
  from flush_truncates_values [OF list_lib.skiplist_lib_axioms fits(1) m]
  obtain ps where ps: "\<forall>E b. add_nodes E (sl_nodes list_skiplist (mt_table m)) b = add_entries E ps b"
    "mset ps = {#(mk_InternalKey [107] 1 kTypeValue, [3, 7, 8])#}"
    by (auto simp: EncodeVarint32_small)
  then have "ps = [(mk_InternalKey [107] 1 kTypeValue, [3, 7, 8])]"
    by (simp only: mset_single_iff)
  with m ps(1) show ?thesis
    by blast
qed

end
