(* ===== verification/TableRead.thy ===== *)
theory TableRead
  imports TableBuild
begin

text \<open>
  Reading a table file: \<open>RandomAccessFile::Read\<close> (src/src/util/env.h), \<open>ReadBlock\<close>
  (src/src/db/block.cpp) and \<open>Table\<close> (src/src/db/sstable.h, src/src/db/sstable.cpp).

  The record \<open>renv\<close> holds the libraries: \<open>std::hash\<close>, \<open>crc32c::Extend\<close>,
  \<open>snappy::GetUncompressedLength\<close> and \<open>snappy::Uncompress\<close>.  A value \<open>None\<close> is a read out of
  bounds, a null pointer or a function that ends without a \<open>return\<close>.
\<close>

section \<open>Files\<close>

text \<open>
  Whether \<open>open\<close> and \<open>pread\<close> succeed, and the contents; \<open>pread\<close> fails for an offset that is negative as an \<open>off_t\<close>.  The view \<open>Read\<close> returns points to an array of the frame it has left;
  the model is the most favourable case, in which the bytes are still there.
\<close>

record RandomAccessFile =
  ra_open_ok :: bool
  ra_pread_ok :: bool
  ra_content :: bytes

definition RandomAccessFile_Read ::
  "RandomAccessFile \<Rightarrow> u64 \<Rightarrow> nat \<Rightarrow> bytes \<Rightarrow> State \<times> bytes" where
  "RandomAccessFile_Read f offset n result =
     (if \<not> ra_open_ok f then (kioerror, result)
      else if \<not> ra_pread_ok f \<or> 2 ^ 63 \<le> unat offset then (kioerror, [])
      else (kok, take n (drop (unat offset) (ra_content f))))"

record renv =
  re_hash :: "bytes \<Rightarrow> u64"
  re_ext :: "u32 \<Rightarrow> bytes \<Rightarrow> u32"
  re_uncompressed_length :: "bytes \<Rightarrow> nat option"
  re_uncompress :: "bytes \<Rightarrow> bytes option"

section \<open>ReadBlock\<close>

text \<open>
  The status and \<open>*result\<close>.  Both cases that set \<open>*result\<close> leave the \<open>switch\<close> by \<open>break\<close> and run off the end of the
  function; the view of an uncompressed block keeps the five bytes of the trailer.  The size with the trailer, \<open>m\<close>, wraps: then the
  trailer is looked for outside what was read.
\<close>

definition ReadBlock :: "renv \<Rightarrow> RandomAccessFile \<Rightarrow> BlockHandle \<Rightarrow> (State \<times> bytes) option" where
  "ReadBlock R file handle =
     (let n = unat (bh_size handle); m = unat (bh_size handle + 5)
      in case RandomAccessFile_Read file (bh_offset handle) m [] of
           (s, content) \<Rightarrow>
             if \<not> State_ok s \<or> length content \<noteq> m then Some (s, [])
             else do {
               crc \<leftarrow> DecodeFixed32 (drop (n + 1) content);
               let truecrc = re_ext R 0 (take (n + 1) content);
               if crc \<noteq> truecrc then Some (kcorruption, [])
               else if content ! n = CompressionType_code kNoCompression then None
               else if content ! n = CompressionType_code kSnappyCompression then
                 (if re_uncompressed_length R (take n content) \<noteq> None then Some (kcorruption, [])
                  else
                    (case re_uncompress R (take n content) of
                       None \<Rightarrow> Some (kcorruption, [])
                     | Some _ \<Rightarrow> None))
               else Some (kcorruption, []) })"

section \<open>Table\<close>

record Table =
  tp_file :: RandomAccessFile
  tp_filter :: "FilterBlockReader option"
  tp_filter_past :: bytes
  tp_metaindex_handle :: BlockHandle
  tp_index_block :: Block

text \<open>\<open>NewIterator\<close> followed by a member call: a null pointer is dereferenced.\<close>

definition iter_deref :: "Block \<Rightarrow> Iter option" where
  "iter_deref b = do { p \<leftarrow> Block_NewIterator b; p }"

definition Table_ReadFilter :: "renv \<Rightarrow> bytes \<Rightarrow> Table \<Rightarrow> Table option" where
  "Table_ReadFilter R filter_handle_value t =
     (case BlockHandle_DecodeFrom filter_handle_value \<lparr>bh_offset = 0, bh_size = 0\<rparr> of
        (s, filter_handle, _) \<Rightarrow>
          if \<not> State_ok s then Some t
          else do {
            (s2, block) \<leftarrow> ReadBlock R (tp_file t) filter_handle;
            if \<not> State_ok s2 then Some t
            else Some (t\<lparr>tp_filter := Some (mk_FilterBlockReader block), tp_filter_past := []\<rparr>) })"

definition Table_ReadMeta :: "renv \<Rightarrow> Footer \<Rightarrow> Table \<Rightarrow> Table option" where
  "Table_ReadMeta R footer t = do {
     (s, rul) \<leftarrow> ReadBlock R (tp_file t) (ft_metaindex footer);
     if \<not> State_ok s then Some t
     else do {
       meta \<leftarrow> mk_Block rul;
       it0 \<leftarrow> iter_deref meta;
       it \<leftarrow> Iter_Seek filter_bloom_key it0;
       if Iter_Valid it \<and> Iter_key it = filter_bloom_key
       then do { v \<leftarrow> Iter_value it; Table_ReadFilter R v t }
       else Some t } }"

text \<open>The status and the table, the latter when \<open>table\<close> is set.\<close>

definition Table_Open :: "renv \<Rightarrow> RandomAccessFile \<Rightarrow> nat \<Rightarrow> (State \<times> Table option) option" where
  "Table_Open R file file_size =
     (if file_size < 48 then Some (kcorruption, None)
      else
        (case RandomAccessFile_Read file (of_nat (file_size - 48)) 48 [] of
           (s, foot_input) \<Rightarrow>
             if \<not> State_ok s then Some (s, None)
             else do {
               (s2, footer, _) \<leftarrow> Footer_DecodeFrom foot_input
                  \<lparr>ft_metaindex = \<lparr>bh_offset = 0, bh_size = 0\<rparr>, ft_index = \<lparr>bh_offset = 0, bh_size = 0\<rparr>\<rparr>;
               if \<not> State_ok s2 then Some (s2, None)
               else do {
                 (s3, index_blocks) \<leftarrow> ReadBlock R file (ft_index footer);
                 if State_ok s3 then do {
                   b \<leftarrow> mk_Block index_blocks;
                   t \<leftarrow> Table_ReadMeta R footer
                     \<lparr>tp_file = file, tp_filter = None, tp_filter_past = [],
                      tp_metaindex_handle = ft_metaindex footer, tp_index_block = b\<rparr>;
                   Some (s3, Some t) }
                 else Some (s3, None) } }))"

text \<open>\<open>BlockReader\<close>: the iterator, or \<open>Some None\<close> for the null pointer.\<close>

definition Table_BlockReader :: "renv \<Rightarrow> Table \<Rightarrow> bytes \<Rightarrow> Iter option option" where
  "Table_BlockReader R t index_value =
     (case BlockHandle_DecodeFrom index_value \<lparr>bh_offset = 0, bh_size = 0\<rparr> of
        (s, handle, _) \<Rightarrow>
          if \<not> State_ok s then Some None
          else do {
            (s2, contents) \<leftarrow> ReadBlock R (tp_file t) handle;
            if \<not> State_ok s2 then Some None
            else do { b \<leftarrow> mk_Block contents; Block_NewIterator b } })"

text \<open>The status, and the entry \<open>handle_result\<close> was called with.\<close>

definition Table_InternalGet ::
  "renv \<Rightarrow> Table \<Rightarrow> bytes \<Rightarrow> (State \<times> (bytes \<times> bytes) option) option" where
  "Table_InternalGet R t k = do {
     it0 \<leftarrow> iter_deref (tp_index_block t);
     iiter \<leftarrow> Iter_Seek k it0;
     if Iter_Valid iiter then do {
       handle_value \<leftarrow> Iter_value iiter;
       let (hs, handle, _) = BlockHandle_DecodeFrom handle_value \<lparr>bh_offset = 0, bh_size = 0\<rparr>;
       may_match \<leftarrow> (case tp_filter t of
                        None \<Rightarrow> Some True
                      | Some fl \<Rightarrow>
                          if State_ok hs
                          then FilterBlockReader_KeyMayMatch (re_hash R) (tp_filter_past t) fl (bh_offset handle) k
                          else Some True);
       if \<not> may_match then Some (kok, None)
       else do {
         bi \<leftarrow> Table_BlockReader R t handle_value;
         block_iter0 \<leftarrow> bi;
         block_iter \<leftarrow> Iter_Seek k block_iter0;
         if Iter_Valid block_iter
         then do { v \<leftarrow> Iter_value block_iter; Some (kok, Some (Iter_key block_iter, v)) }
         else Some (kok, None) } }
     else Some (kok, None) }"

section \<open>No block is ever read\<close>

lemma ReadBlock_empty:
  assumes "ReadBlock R file handle = Some (s, r)"
  shows "r = []"
  using assms by (auto simp: ReadBlock_def Let_def split: prod.splits if_splits option.splits bind_splits)

lemma iter_deref_empty: "mk_Block [] = Some b \<Longrightarrow> iter_deref b = None"
  by (auto simp: mk_Block_def iter_deref_def Block_NewIterator_def)

lemma ReadMeta_no_filter:
  assumes "Table_ReadMeta R footer t = Some t'"
  shows "t' = t"
  using assms iter_deref_empty
  by (auto simp: Table_ReadMeta_def split: bind_splits if_splits dest!: ReadBlock_empty)

text \<open>
  C33: \<open>ReadBlock\<close> never delivers a block.  Whatever the file, the handle and the libraries: if the call returns at all, the
  result view is empty; and if the file holds the whole block and its trailer, the status it returns is not ok.
  (On a correct checksum it reports corruption for every compressed block that has a length, and otherwise ends
  without a \<open>return\<close>.)
\<close>

theorem ReadBlock_never_delivers:
  "case ReadBlock R file handle of
     None \<Rightarrow> True
   | Some (s, r) \<Rightarrow> r = [] \<and>
       \<not> (State_ok s \<and> unat (bh_offset handle) + unat (bh_size handle) + 5 \<le> length (ra_content file))"
proof (cases "ReadBlock R file handle")
  case (Some p)
  then obtain s r where p: "ReadBlock R file handle = Some (s, r)"
    by (cases p) auto
  have "unat (bh_size handle + 5) \<le> unat (bh_size handle) + 5"
    by (simp add: unat_word_ariths)
  then have "\<not> State_ok s" if "unat (bh_offset handle) + unat (bh_size handle) + 5 \<le> length (ra_content file)"
    using p that
    by (auto simp: ReadBlock_def RandomAccessFile_Read_def Let_def DecodeFixed32_def
        split: prod.splits if_splits option.splits bind_splits)
  then show ?thesis
    using p ReadBlock_empty [OF p] by auto
qed simp

text \<open>
  C34: No key can be looked up in a table file.  If \<open>Table::Open\<close> returns a table, its index block is empty and it has no
  filter, and every \<open>InternalGet\<close> on it dereferences the null iterator of that block.
\<close>

theorem Table_lookup_fails:
  assumes "Table_Open R file file_size = Some (s, Some t)"
  shows "blk_size (tp_index_block t) = 0 \<and> tp_filter t = None \<and> Table_InternalGet R t k = None"
proof -
  obtain footer b where *: "mk_Block [] = Some b"
    "Table_ReadMeta R footer \<lparr>tp_file = file, tp_filter = None, tp_filter_past = [],
       tp_metaindex_handle = ft_metaindex footer, tp_index_block = b\<rparr> = Some t"
    using assms by (auto simp: Table_Open_def split: if_splits prod.splits bind_splits dest!: ReadBlock_empty)
  have t: "t = \<lparr>tp_file = file, tp_filter = None, tp_filter_past = [],
       tp_metaindex_handle = ft_metaindex footer, tp_index_block = b\<rparr>"
    by (rule ReadMeta_no_filter [OF *(2)])
  have "blk_size b = 0"
    using *(1) by (auto simp: mk_Block_def)
  then show ?thesis
    using iter_deref_empty [OF *(1)] by (simp add: t Table_InternalGet_def)
qed

text \<open>A file with a good footer, whose index handle points behind its end.\<close>

definition sample_file :: RandomAccessFile where
  "sample_file =
     \<lparr>ra_open_ok = True, ra_pread_ok = True,
      ra_content = Footer_EncodeTo \<lparr>ft_metaindex = \<lparr>bh_offset = 0, bh_size = 0\<rparr>,
                                     ft_index = \<lparr>bh_offset = 100, bh_size = 50\<rparr>\<rparr> []\<rparr>"

definition sample_renv :: renv where
  "sample_renv =
     \<lparr>re_hash = (\<lambda>k. 5), re_ext = (\<lambda>c d. 0), re_uncompressed_length = (\<lambda>d. None), re_uncompress = Some\<rparr>"

lemma sample_open: "\<exists>t. Table_Open sample_renv sample_file 48 = Some (kok, Some t)"
proof -
  let ?ft = "\<lparr>ft_metaindex = \<lparr>bh_offset = 0, bh_size = 0\<rparr>, ft_index = \<lparr>bh_offset = 100, bh_size = 50\<rparr>\<rparr>"
  have len: "length (ra_content sample_file) = 48"
    by (simp add: sample_file_def Footer_length)
  have rd: "RandomAccessFile_Read sample_file 0 48 [] = (kok, Footer_EncodeTo ?ft [] @ [])"
    by (simp add: RandomAccessFile_Read_def sample_file_def Footer_length)
  have ix: "ReadBlock sample_renv sample_file (ft_index ?ft) = Some (kok, [])"
    using len by (simp add: ReadBlock_def RandomAccessFile_Read_def sample_file_def)
  have five: "take 5 (Footer_EncodeTo ?ft []) = [0, 0, 100, 50, 0]"
    by (simp add: Footer_EncodeTo_def BlockHandle_EncodeTo_def PutVarint64_def EncodeVarint64.simps
        str_resize_def PutFixed32_def Let_def)
  have mt: "ReadBlock sample_renv sample_file (ft_metaindex ?ft) = Some (kcorruption, [])"
    using len five
    by (simp add: ReadBlock_def RandomAccessFile_Read_def sample_file_def sample_renv_def DecodeFixed32_def Let_def)
  show ?thesis
    using rd ix mt Footer_Decode_Encode [of ?ft "[]"]
    by (simp add: Table_Open_def Table_ReadMeta_def mk_Block_def)
qed

theorem Table_lookup_fails_witness:
  "\<exists>t. Table_Open sample_renv sample_file 48 = Some (kok, Some t) \<and> blk_size (tp_index_block t) = 0 \<and>
    tp_filter t = None \<and> Table_InternalGet sample_renv t [1, 2, 3] = None"
  using sample_open Table_lookup_fails [of sample_renv sample_file 48 kok] by blast

end
