(* ===== verification/Filename.thy ===== *)
theory Filename
  imports Prelude
begin

text \<open>
  File names: src/src/util/filename.h and src/src/util/filename.cpp.

  A file name is a \<open>string\<close>.  The assertions that numbers are positive are compiled out.  \<open>snprintf\<close> with \<open>%06llu\<close> and \<open>strtoull\<close> with base 0 are the C library
  functions, written out; the buffers of 100 bytes are large enough for every number and suffix.
\<close>

datatype FileType =
  kLogFile | kDBLockFile | kTableFile | kDescriptorFile | kCurrentFile | kTempFile | kInfoLogFile

section \<open>Printing numbers\<close>

definition digit_of :: "nat \<Rightarrow> char" where
  "digit_of d = char_of (48 + d)"

fun dec_digits :: "nat \<Rightarrow> string" where
  "dec_digits n = (if n < 10 then [digit_of n] else dec_digits (n div 10) @ [digit_of (n mod 10)])"

declare dec_digits.simps [simp del]

definition printf_06llu :: "u64 \<Rightarrow> string" where
  "printf_06llu number =
     (let ds = dec_digits (unat number) in replicate (6 - length ds) CHR ''0'' @ ds)"

section \<open>Names\<close>

definition MakeFileName :: "string \<Rightarrow> u64 \<Rightarrow> string \<Rightarrow> string" where
  "MakeFileName dbname number suffix = dbname @ ''/'' @ printf_06llu number @ ''.'' @ suffix"

definition LogFileName :: "string \<Rightarrow> u64 \<Rightarrow> string" where
  "LogFileName dbname number = MakeFileName dbname number ''log''"

definition TableFileName :: "string \<Rightarrow> u64 \<Rightarrow> string" where
  "TableFileName dbname number = MakeFileName dbname number ''ldb''"

definition SSTTableFileName :: "string \<Rightarrow> u64 \<Rightarrow> string" where
  "SSTTableFileName dbname number = MakeFileName dbname number ''sst''"

definition VSSTTableFileName :: "string \<Rightarrow> u64 \<Rightarrow> string" where
  "VSSTTableFileName dbname number = MakeFileName dbname number ''v_sst''"

definition DescriptorFileName :: "string \<Rightarrow> u64 \<Rightarrow> string" where
  "DescriptorFileName dbname number = dbname @ ''/MANIFEST-'' @ printf_06llu number"

definition TempFileName :: "string \<Rightarrow> u64 \<Rightarrow> string" where
  "TempFileName dbname number = MakeFileName dbname number ''dbtmp''"

definition CurrentFileName :: "string \<Rightarrow> string" where
  "CurrentFileName dbname = dbname @ ''/CURRENT''"

definition LockFileName :: "string \<Rightarrow> string" where
  "LockFileName dbname = dbname @ ''/LOCK''"

definition InfoLogFileName :: "string \<Rightarrow> string" where
  "InfoLogFileName dbname = dbname @ ''/LOG''"

definition OldInfoLogFileName :: "string \<Rightarrow> string" where
  "OldInfoLogFileName dbname = dbname @ ''/LOG.old''"

section \<open>Reading numbers: \<open>strtoull(s, NULL, 0)\<close>\<close>

definition digit_val :: "char \<Rightarrow> nat option" where
  "digit_val c =
     (let n = of_char c
      in if 48 \<le> n \<and> n \<le> 57 then Some (n - 48)
         else if 97 \<le> n \<and> n \<le> 122 then Some (n - 87)
         else if 65 \<le> n \<and> n \<le> 90 then Some (n - 55) else None)"

fun parse_digits :: "nat \<Rightarrow> nat \<Rightarrow> string \<Rightarrow> nat" where
  "parse_digits base acc [] = acc"
| "parse_digits base acc (c # s) =
     (case digit_val c of
        None \<Rightarrow> acc
      | Some d \<Rightarrow> if d < base then parse_digits base (acc * base + d) s else acc)"

definition is_space :: "char \<Rightarrow> bool" where
  "is_space c = (let n = of_char c :: nat in n = 32 \<or> 9 \<le> n \<and> n \<le> 13)"

definition strtoull_base :: "string \<Rightarrow> nat \<times> string" where
  "strtoull_base s =
     (case s of
        c # x # d # t \<Rightarrow>
          if c \<noteq> CHR ''0'' then (10, s)
          else if x \<in> {CHR ''x'', CHR ''X''} \<and> (case digit_val d of Some v \<Rightarrow> v < 16 | None \<Rightarrow> False)
          then (16, d # t) else (8, s)
      | c # t \<Rightarrow> if c = CHR ''0'' then (8, s) else (10, s)
      | [] \<Rightarrow> (10, s))"

definition strtoull :: "string \<Rightarrow> u64" where
  "strtoull s =
     (let s1 = dropWhile is_space s;
          neg = (case s1 of c # _ \<Rightarrow> c = CHR ''-'' | [] \<Rightarrow> False);
          s2 = (case s1 of c # t \<Rightarrow> if c \<in> {CHR ''-'', CHR ''+''} then t else s1 | [] \<Rightarrow> s1);
          (base, s3) = strtoull_base s2;
          n = parse_digits base 0 s3
      in if 2 ^ 64 \<le> n then - 1 else if neg then - of_nat n else of_nat n)"

section \<open>ParsefileName\<close>

text \<open>
  The result, \<open>*number\<close> and \<open>*type\<close>.  \<open>find('.')\<close> is stored in an \<open>int\<close>: for a name without a dot it is
  -1, and \<open>remove_prefix\<close> by that is undefined.  The number is read up to its
  first other character, whatever that is; after the prefix of a manifest the code asks whether the rest is empty.
\<close>

definition find_dot :: "string \<Rightarrow> nat option" where
  "find_dot s = (if CHR ''.'' \<in> set s then Some (length (takeWhile (\<lambda>c. c \<noteq> CHR ''.'') s)) else None)"

definition ParsefileName ::
  "string \<Rightarrow> u64 \<Rightarrow> FileType \<Rightarrow> (bool \<times> u64 \<times> FileType) option" where
  "ParsefileName filename number type =
     (if filename = ''CURRENT'' then Some (True, 0, kCurrentFile)
      else if filename = ''LOCK'' then Some (True, 0, kDBLockFile)
      else if filename = ''LOG'' \<or> filename = ''LOG.old'' then Some (True, 0, kInfoLogFile)
      else if take 9 filename = ''MANIFEST-'' then
        (let pfile = drop 9 filename; num = strtoull pfile
         in if pfile \<noteq> [] then Some (False, number, type) else Some (True, num, kDescriptorFile))
      else
        (case find_dot filename of
           None \<Rightarrow> None
         | Some i \<Rightarrow>
             (let suffix = drop i filename; num = strtoull filename
              in if suffix = ''.log'' then Some (True, num, kLogFile)
                 else if suffix = ''.sst'' \<or> suffix = ''.ldb'' then Some (True, num, kTableFile)
                 else if suffix = ''.dbtmp'' then Some (True, num, kTempFile)
                 else Some (False, number, type))))"

section \<open>Digits\<close>

lemma digit_char:
  assumes "d < 10"
  shows "of_char (digit_of d) = 48 + d" "digit_val (digit_of d) = Some d" "digit_of d \<noteq> CHR ''.''"
    "digit_of d \<noteq> CHR ''-''" "digit_of d \<noteq> CHR ''+''" "\<not> is_space (digit_of d)"
    "digit_of d \<noteq> CHR ''x''" "digit_of d \<noteq> CHR ''X''" "digit_of d = CHR ''0'' \<longleftrightarrow> d = 0"
    "digit_of d \<noteq> CHR ''M''" "digit_of d \<noteq> CHR ''C''" "digit_of d \<noteq> CHR ''L''"
proof -
  show c: "of_char (digit_of d) = 48 + d"
    using assms by (simp add: digit_of_def)
  have ne: "digit_of d \<noteq> x" if "of_char x \<noteq> 48 + d" for x
    using c that by metis
  show "digit_val (digit_of d) = Some d" "\<not> is_space (digit_of d)"
    using assms by (simp_all add: digit_val_def is_space_def c)
  show "digit_of d \<noteq> CHR ''.''" "digit_of d \<noteq> CHR ''-''" "digit_of d \<noteq> CHR ''+''"
    "digit_of d \<noteq> CHR ''x''" "digit_of d \<noteq> CHR ''X''"
    "digit_of d \<noteq> CHR ''M''" "digit_of d \<noteq> CHR ''C''" "digit_of d \<noteq> CHR ''L''"
    by (rule ne, use assms in simp)+
  have "of_char CHR ''0'' = (48::nat)"
    by simp
  then show "digit_of d = CHR ''0'' \<longleftrightarrow> d = 0"
    using c by (metis add_cancel_right_right of_char_eq_iff)
qed

lemma digit_0: "CHR ''0'' = digit_of 0"
  using digit_char(9) [of 0] by simp

text \<open>A printed number is a non-empty string of digits, the first of them 0 only for 0.\<close>

lemma dec_digits_shape:
  "dec_digits n \<noteq> [] \<and> (\<forall>c \<in> set (dec_digits n). \<exists>d < 10. c = digit_of d) \<and>
   (hd (dec_digits n) = digit_of 0 \<longleftrightarrow> n = 0)"
proof (induction n rule: dec_digits.induct)
  case (1 n)
  show ?case
  proof (cases "n < 10")
    case True
    then show ?thesis
      using digit_char(9) [of n] by (subst (1 2 3) dec_digits.simps) (auto simp: digit_0 [symmetric])
  next
    case False
    then show ?thesis
      using "1.IH" by (subst (1 2 3) dec_digits.simps) (auto simp: div_eq_0_iff intro: exI [of _ "n mod 10"])
  qed
qed

lemma printf_shape:
  "\<exists>ds. printf_06llu n = map digit_of ds \<and> (\<forall>d \<in> set ds. d < 10) \<and> 6 \<le> length ds"
proof -
  obtain ds where "dec_digits (unat n) = map digit_of ds" "\<forall>d \<in> set ds. d < 10"
  proof -
    have "\<forall>c \<in> set (dec_digits (unat n)). \<exists>d. d < 10 \<and> c = digit_of d"
      using dec_digits_shape [of "unat n"] by blast
    then obtain f where f: "\<forall>c \<in> set (dec_digits (unat n)). f c < 10 \<and> c = digit_of (f c)"
      by metis
    show ?thesis
      by (rule that [of "map f (dec_digits (unat n))"]) (use f in \<open>auto simp: map_idI\<close>)
  qed
  then show ?thesis
    by (intro exI [of _ "replicate (6 - length (dec_digits (unat n))) 0 @ ds"])
      (auto simp: printf_06llu_def digit_0 Let_def)
qed


lemma length_dec_digits: "0 < k \<Longrightarrow> length (dec_digits n) \<le> k \<longleftrightarrow> n < 10 ^ k"
proof (induction n arbitrary: k rule: dec_digits.induct)
  case (1 n)
  obtain k' where k: "k = Suc k'"
    using "1.prems" by (cases k) auto
  show ?case
  proof (cases "n < 10")
    case True
    moreover have "n < 10 * 10 ^ k'"
      by (rule less_le_trans [OF True]) simp
    ultimately show ?thesis
      by (simp add: k dec_digits.simps)
  next
    case False
    then have l: "length (dec_digits n) = Suc (length (dec_digits (n div 10)))"
      by (subst dec_digits.simps) simp
    show ?thesis
    proof (cases "k' = 0")
      case True
      then show ?thesis
        using False dec_digits_shape [of "n div 10"] by (simp add: k l)
    next
      case k': False
      then have "length (dec_digits (n div 10)) \<le> k' \<longleftrightarrow> n div 10 < 10 ^ k'"
        using "1.IH" [OF False, of k'] by simp
      then show ?thesis
        by (simp add: k l div_less_iff_less_mult mult.commute)
    qed
  qed
qed

section \<open>Reading a printed number back\<close>

lemma parse_digit:
  "d < 10 \<Longrightarrow> parse_digits base acc (digit_of d # s) =
     (if d < base then parse_digits base (acc * base + d) s else acc)"
  by (simp add: digit_char)

lemma parse_decimal: "parse_digits 10 0 (dec_digits n @ s) = parse_digits 10 n s"
proof (induction n arbitrary: s rule: dec_digits.induct)
  case (1 n)
  show ?case
  proof (cases "n < 10")
    case True
    then show ?thesis
      by (subst dec_digits.simps) (simp add: parse_digit del: parse_digits.simps)
  next
    case False
    then show ?thesis
      using "1.IH" by (subst dec_digits.simps) (simp add: parse_digit del: parse_digits.simps)
  qed
qed

text \<open>In base 8 the reader stops at a digit 8 or 9, and gets less than the number otherwise, from 8 on.\<close>

lemma parse_octal:
  "(\<exists>v \<le> n. (v = n \<longleftrightarrow> n < 8) \<and> (\<forall>s. parse_digits 8 0 (dec_digits n @ s) = parse_digits 8 v s)) \<or>
   (\<exists>v < n. 8 \<le> n \<and> (\<forall>s. parse_digits 8 0 (dec_digits n @ s) = v))"
proof (induction n rule: dec_digits.induct)
  case (1 n)
  show ?case
  proof (cases "n < 10")
    case True
    then have "parse_digits 8 0 (dec_digits n @ s) = (if n < 8 then parse_digits 8 n s else 0)" for s
      by (subst dec_digits.simps) (simp add: parse_digit del: parse_digits.simps)
    then show ?thesis
      by (cases "n < 8") auto
  next
    case False
    define m d where "m = n div 10" and "d = n mod 10"
    have n: "n = 10 * m + d" "d < 10" "0 < m"
      using False by (simp_all add: m_def d_def div_greater_zero_iff)
    have step: "parse_digits 8 0 (dec_digits n @ s) = parse_digits 8 0 (dec_digits m @ digit_of d # s)" for s
      using False by (subst dec_digits.simps) (simp add: m_def d_def)
    from "1.IH" [OF False, folded m_def] show ?thesis
    proof (elim disjE exE conjE)
      fix v assume v: "v \<le> m" "\<forall>s. parse_digits 8 0 (dec_digits m @ s) = parse_digits 8 v s"
      have e: "parse_digits 8 0 (dec_digits n @ s) = (if d < 8 then parse_digits 8 (v * 8 + d) s else v)" for s
        using v(2) n(2) by (simp add: step parse_digit del: parse_digits.simps)
      show ?thesis
      proof (cases "d < 8")
        case True
        have "v * 8 + d < n" "8 \<le> n"
          using v(1) n by simp_all
        then show ?thesis
          using e True by (intro disjI1 exI [of _ "v * 8 + d"]) simp
      next
        case d: False
        have "v < n" "8 \<le> n"
          using v(1) n by simp_all
        then show ?thesis
          using e d by (intro disjI2 exI [of _ v]) simp
      qed
    next
      fix v assume "v < m" "\<forall>s. parse_digits 8 0 (dec_digits m @ s) = v"
      then show ?thesis
        using n step by (intro disjI2 exI [of _ v]) simp
    qed
  qed
qed

lemma parse_zeros: "parse_digits base 0 (replicate k CHR ''0'' @ s) = parse_digits base 0 s" if "0 < base"
  using that by (induction k) (simp_all add: digit_0 parse_digit del: parse_digits.simps)

lemma unat_less_64: "unat (n :: u64) < 2 ^ 64"
  using unsigned_less [of n] by simp

lemma strtoull_printed:
  assumes "digit_val c = None"
  shows "strtoull (printf_06llu n @ c # s) =
    of_nat (parse_digits (if n < 100000 then 8 else 10) 0 (dec_digits (unat n) @ c # s))"
proof -
  let ?ds = "dec_digits (unat n)" and ?b = "if n < 100000 then 8 else 10 :: nat"
  obtain ds where ds: "printf_06llu n = map digit_of ds" "\<forall>d \<in> set ds. d < 10" "6 \<le> length ds"
    using printf_shape by blast
  then obtain d1 d2 d3 ds' where d: "ds = d1 # d2 # d3 # ds'" "d1 < 10" "d2 < 10" "d3 < 10"
    by (cases ds; cases "tl ds"; cases "tl (tl ds)") auto
  have short: "n < 100000 \<longleftrightarrow> length ?ds \<le> 5"
    by (simp add: length_dec_digits word_less_nat_alt)
  have d1: "d1 = 0 \<longleftrightarrow> n < 100000"
  proof -
    have "digit_of d1 = hd (printf_06llu n)"
      by (simp add: ds d)
    also have "\<dots> = (if length ?ds \<le> 5 then digit_of 0 else hd ?ds)"
      by (auto simp: printf_06llu_def Let_def digit_0 hd_append not_le)
    finally show ?thesis
      using dec_digits_shape [of "unat n"] short digit_char(9) [OF d(2)]
      by (cases "n = 0") (auto simp: digit_0 word_less_nat_alt unat_eq_zero split: if_splits)
  qed
  have "strtoull_base (printf_06llu n @ c # s) = (?b, printf_06llu n @ c # s)"
    using d d1 by (simp add: strtoull_base_def ds digit_char)
  moreover have "parse_digits ?b 0 (printf_06llu n @ c # s) = parse_digits ?b 0 (?ds @ c # s)"
    by (simp add: printf_06llu_def Let_def parse_zeros)
  moreover have "parse_digits ?b 0 (?ds @ c # s) < 2 ^ 64"
  proof -
    have "parse_digits ?b 0 (?ds @ c # s) \<le> unat n"
      using parse_octal [of "unat n"] assms by (auto simp: parse_decimal)
    then show ?thesis
      using unat_less_64 [of n] by (auto elim: le_less_trans)
  qed
  ultimately show ?thesis
    using d ds by (simp add: strtoull_def digit_char Let_def not_le)
qed

lemma strtoull_printed_eq:
  assumes "digit_val c = None"
  shows "strtoull (printf_06llu n @ c # s) = n \<longleftrightarrow> n < 8 \<or> 100000 \<le> n"
proof (cases "n < 100000")
  case False
  then show ?thesis
    using assms by (simp add: strtoull_printed parse_decimal not_less leD)
next
  case True
  obtain v where v: "parse_digits 8 0 (dec_digits (unat n) @ c # s) = v" "v \<le> unat n" "v = unat n \<longleftrightarrow> n < 8"
    using parse_octal [of "unat n"] assms by (fastforce simp: word_less_nat_alt)
  have "v < 2 ^ 64"
    using v(2) unat_less_64 [of n] by simp
  then have "unat (of_nat v :: u64) = v"
    by (simp add: unat_of_nat)
  then have "of_nat v = n \<longleftrightarrow> v = unat n"
    by (metis word_unat_eq_iff)
  then show ?thesis
    using True v assms by (auto simp: strtoull_printed)
qed

section \<open>Parsing the names the code makes\<close>

lemma ParsefileName_printed:
  assumes "CHR ''.'' \<notin> set suf"
  shows "ParsefileName (printf_06llu n @ CHR ''.'' # suf) number type =
    (let num = strtoull (printf_06llu n @ CHR ''.'' # suf)
     in if suf = ''log'' then Some (True, num, kLogFile)
        else if suf = ''sst'' \<or> suf = ''ldb'' then Some (True, num, kTableFile)
        else if suf = ''dbtmp'' then Some (True, num, kTempFile)
        else Some (False, number, type))"
proof -
  obtain ds where ds: "printf_06llu n = map digit_of ds" "\<forall>d \<in> set ds. d < 10" "6 \<le> length ds"
    using printf_shape by blast
  then obtain d ds' where d: "ds = d # ds'" "d < 10"
    by (cases ds) auto
  have "takeWhile (\<lambda>c. c \<noteq> CHR ''.'') (map digit_of ds @ CHR ''.'' # suf) = map digit_of ds"
    using ds(2) by (simp add: takeWhile_append digit_char)
  then have "find_dot (printf_06llu n @ CHR ''.'' # suf) = Some (length (printf_06llu n))"
    by (simp add: find_dot_def ds)
  moreover have "take 9 (printf_06llu n @ CHR ''.'' # suf) \<noteq> ''MANIFEST-''"
    using digit_char(10) [OF d(2)] by (simp add: ds d take_Cons')
  moreover have "printf_06llu n @ CHR ''.'' # suf \<noteq> ''CURRENT''" "printf_06llu n @ CHR ''.'' # suf \<noteq> ''LOCK''"
    "printf_06llu n @ CHR ''.'' # suf \<noteq> ''LOG''" "printf_06llu n @ CHR ''.'' # suf \<noteq> ''LOG.old''"
    using digit_char(11,12) [OF d(2)] by (auto simp: ds d)
  ultimately show ?thesis
    by (simp add: ParsefileName_def Let_def)
qed


section \<open>Properties\<close>

text \<open>
  File numbers do not survive their names.  A log, table or temporary file is recognised from its own name with the right
  type, but \<open>strtoull\<close> with base 0 takes the padding zeros of \<open>%06llu\<close> as the prefix of an octal
  number: the number that is read is the right one exactly below 8 and from 100000 on.
\<close>

theorem file_number_octal:
  assumes "(mk, type) \<in> {(LogFileName, kLogFile), (TableFileName, kTableFile),
      (SSTTableFileName, kTableFile), (TempFileName, kTempFile)}"
  shows "\<exists>name num. mk dbname n = dbname @ ''/'' @ name \<and>
    ParsefileName name number type0 = Some (True, num, type) \<and> (num = n \<longleftrightarrow> n < 8 \<or> 100000 \<le> n)"
proof -
  have name: "ParsefileName (printf_06llu n @ CHR ''.'' # suf) number type0 =
      Some (True, strtoull (printf_06llu n @ CHR ''.'' # suf), type)"
    if "(suf, type) \<in> {(''log'', kLogFile), (''ldb'', kTableFile), (''sst'', kTableFile), (''dbtmp'', kTempFile)}"
    for suf
    using that by (subst ParsefileName_printed) (auto simp: Let_def)
  have num: "strtoull (printf_06llu n @ CHR ''.'' # suf) = n \<longleftrightarrow> n < 8 \<or> 100000 \<le> n" for suf
    by (intro strtoull_printed_eq) (simp add: digit_val_def)
  show ?thesis
    using assms name [of "''log''"] name [of "''ldb''"] name [of "''sst''"] name [of "''dbtmp''"] num
    by (auto simp: LogFileName_def TableFileName_def SSTTableFileName_def TempFileName_def MakeFileName_def)
qed

theorem file_number_octal_witness:
  "\<exists>name num. LogFileName ''db'' 8 = ''db'' @ ''/'' @ name \<and>
    ParsefileName name 0 kTempFile = Some (True, num, kLogFile) \<and>
    (num = 8 \<longleftrightarrow> (8::u64) < 8 \<or> 100000 \<le> (8::u64))"
  by (rule file_number_octal) simp_all

text \<open>
  Manifests are never recognised: \<open>ParsefileName\<close> answers false for the name of every manifest (and for the
  key-value separated tables), leaving number and type alone, while the three fixed names get their type and number 0.
\<close>

theorem manifest_name_unparsed:
  "(\<exists>m v. DescriptorFileName dbname n = dbname @ ''/'' @ m \<and>
      ParsefileName m number type = Some (False, number, type) \<and>
      VSSTTableFileName dbname n = dbname @ ''/'' @ v \<and>
      ParsefileName v number type = Some (False, number, type)) \<and>
    ParsefileName (drop (Suc (length dbname)) (CurrentFileName dbname)) number type = Some (True, 0, kCurrentFile) \<and>
    ParsefileName (drop (Suc (length dbname)) (LockFileName dbname)) number type = Some (True, 0, kDBLockFile) \<and>
    ParsefileName (drop (Suc (length dbname)) (InfoLogFileName dbname)) number type = Some (True, 0, kInfoLogFile)"
proof -
  obtain ds where ds: "printf_06llu n = map digit_of ds" "6 \<le> length ds"
    using printf_shape by blast
  have "ParsefileName (''MANIFEST-'' @ printf_06llu n) number type = Some (False, number, type)"
    using ds by (cases ds) (simp_all add: ParsefileName_def)
  moreover have "ParsefileName (printf_06llu n @ CHR ''.'' # ''v_sst'') number type = Some (False, number, type)"
    by (subst ParsefileName_printed) simp_all
  ultimately show ?thesis
    by (simp add: DescriptorFileName_def VSSTTableFileName_def MakeFileName_def
        CurrentFileName_def LockFileName_def InfoLogFileName_def ParsefileName_def)
qed

end
