(* ===== verification/Cache.thy ===== *)
theory Cache
  imports TableRead Filename "HOL-Library.Multiset"
begin

text \<open>
  The caches: \<open>LruCache\<close>, \<open>ShareCache\<close> and \<open>TableCache\<close> of src/src/db/cache.h and src/src/db/cache.cpp.

  A node of the \<open>std::list\<close> has an identity, a number, because the map holds list iterators; a
  new node takes the next number.  The functions return the cached value where the code returns a
  pointer to it, \<open>None\<close> inside for the null pointer.  Mutexes are not modelled.  \<open>std::hash\<close> is the parameter \<open>hash\<close>.
\<close>

section \<open>LruCache\<close>

record 'v LruCache =
  lc_size :: u64
  lc_list :: "(nat \<times> bytes \<times> 'v) list"
  lc_map :: "bytes \<rightharpoonup> nat"
  lc_next :: nat

definition mk_LruCache :: "u64 \<Rightarrow> 'v LruCache" where
  "mk_LruCache capacity = \<lparr>lc_size = capacity, lc_list = [], lc_map = Map.empty, lc_next = 0\<rparr>"

text \<open>The node an iterator points to; the end iterator points to none.\<close>

definition list_node :: "nat \<Rightarrow> (nat \<times> bytes \<times> 'v) list \<Rightarrow> (nat \<times> bytes \<times> 'v) option" where
  "list_node i l = List.find (\<lambda>n. fst n = i) l"

definition list_erase :: "nat \<Rightarrow> (nat \<times> bytes \<times> 'v) list \<Rightarrow> (nat \<times> bytes \<times> 'v) list" where
  "list_erase i l = filter (\<lambda>n. fst n \<noteq> i) l"

definition splice_front :: "nat \<Rightarrow> (nat \<times> bytes \<times> 'v) list \<Rightarrow> (nat \<times> bytes \<times> 'v) list option" where
  "splice_front i l = (case list_node i l of None \<Rightarrow> None | Some n \<Rightarrow> Some (n # list_erase i l))"

definition LruCache_Erase :: "bytes \<Rightarrow> 'v LruCache \<Rightarrow> 'v LruCache" where
  "LruCache_Erase key c =
     (case lc_map c key of
        None \<Rightarrow> c
      | Some i \<Rightarrow> c\<lparr>lc_list := list_erase i (lc_list c), lc_map := (lc_map c)(key := None)\<rparr>)"

text \<open>
  A key that is present gets a second node, and the last node is dropped, with its key, when there are too many; for a
  key that is absent, the code splices with the end iterator's \<open>second\<close>.
\<close>

definition LruCache_Insert :: "bytes \<Rightarrow> 'v \<Rightarrow> 'v LruCache \<Rightarrow> ('v \<times> 'v LruCache) option" where
  "LruCache_Insert key v c =
     (case lc_map c key of
        Some _ \<Rightarrow>
          (let i = lc_next c;
               l = (i, key, v) # lc_list c;
               c1 = c\<lparr>lc_list := l, lc_map := (lc_map c)(key \<mapsto> i), lc_next := Suc i\<rparr>
           in if unat (lc_size c) < length l
              then Some (v, c1\<lparr>lc_map := (lc_map c1)(fst (snd (last l)) := None), lc_list := butlast l\<rparr>)
              else Some (v, c1))
      | None \<Rightarrow> None)"

definition LruCache_Lookup :: "bytes \<Rightarrow> 'v LruCache \<Rightarrow> ('v option \<times> 'v LruCache) option" where
  "LruCache_Lookup key c =
     (case lc_map c key of
        None \<Rightarrow> Some (None, c)
      | Some i \<Rightarrow> do {
          (_, _, v) \<leftarrow> list_node i (lc_list c);
          l \<leftarrow> splice_front i (lc_list c);
          Some (Some v, c\<lparr>lc_list := l\<rparr>) })"

text \<open>The size of a \<open>kvpair\<close> is 32 bytes.\<close>

definition LruCache_Getsize :: "'v LruCache \<Rightarrow> nat" where
  "LruCache_Getsize c = length (lc_list c) * (32 + 8)"

section \<open>ShareCache\<close>

record 'v ShareCache =
  sc_sharecache :: "'v LruCache list"
  sc_last_id :: u32

definition mk_ShareCache :: "u64 \<Rightarrow> 'v ShareCache" where
  "mk_ShareCache size0 = \<lparr>sc_sharecache = replicate 16 (mk_LruCache (size0 div 16)), sc_last_id = 0\<rparr>"

definition shard :: "(bytes \<Rightarrow> u64) \<Rightarrow> bytes \<Rightarrow> nat" where
  "shard hash key = unat (hash key mod 16)"

definition ShareCache_Insert ::
  "(bytes \<Rightarrow> u64) \<Rightarrow> bytes \<Rightarrow> 'v \<Rightarrow> 'v ShareCache \<Rightarrow> ('v \<times> 'v ShareCache) option" where
  "ShareCache_Insert hash key v s = do {
     let index = shard hash key;
     (r, c) \<leftarrow> LruCache_Insert key v (sc_sharecache s ! index);
     Some (r, s\<lparr>sc_sharecache := (sc_sharecache s)[index := c]\<rparr>) }"

definition ShareCache_Lookup ::
  "(bytes \<Rightarrow> u64) \<Rightarrow> bytes \<Rightarrow> 'v ShareCache \<Rightarrow> ('v option \<times> 'v ShareCache) option" where
  "ShareCache_Lookup hash key s = do {
     let index = shard hash key;
     (r, c) \<leftarrow> LruCache_Lookup key (sc_sharecache s ! index);
     Some (r, s\<lparr>sc_sharecache := (sc_sharecache s)[index := c]\<rparr>) }"

definition ShareCache_Erase :: "(bytes \<Rightarrow> u64) \<Rightarrow> bytes \<Rightarrow> 'v ShareCache \<Rightarrow> 'v ShareCache" where
  "ShareCache_Erase hash key s =
     (let index = shard hash key
      in s\<lparr>sc_sharecache := (sc_sharecache s)[index := LruCache_Erase key (sc_sharecache s ! index)]\<rparr>)"

text \<open>The counter is an \<open>int\<close>: incrementing the largest one is undefined.\<close>

definition ShareCache_NewId :: "'v ShareCache \<Rightarrow> (u64 \<times> 'v ShareCache) option" where
  "ShareCache_NewId s =
     (if sc_last_id s = 0x7FFFFFFF then None
      else (let i = sc_last_id s + 1 in Some (scast i, s\<lparr>sc_last_id := i\<rparr>)))"

definition ShareCache_Getsize :: "'v ShareCache \<Rightarrow> nat" where
  "ShareCache_Getsize s = fold (\<lambda>c all. all + LruCache_Getsize c) (sc_sharecache s) 0"

section \<open>TableCache\<close>

text \<open>
  A cached \<open>TableAndFile\<close>.  \<open>open_file\<close> is the system's \<open>open\<close> for reading: the file, or \<open>None\<close> for an error.
\<close>

definition NewRandomAccessFile :: "(string \<Rightarrow> RandomAccessFile option) \<Rightarrow> string \<Rightarrow> State \<times> RandomAccessFile option" where
  "NewRandomAccessFile open_file filename =
     (case open_file filename of None \<Rightarrow> (kioerror, None) | Some f \<Rightarrow> (kok, Some f))"

record TableCache =
  tc_dbname :: string
  tc_cache :: "(RandomAccessFile \<times> Table) ShareCache"

definition mk_TableCache :: "string \<Rightarrow> u64 \<Rightarrow> TableCache" where
  "mk_TableCache dbname max_open_files =
     \<lparr>tc_dbname = dbname, tc_cache = mk_ShareCache (max_open_files - 10)\<rparr>"

definition TableCache_Evict :: "renv \<Rightarrow> u64 \<Rightarrow> TableCache \<Rightarrow> TableCache" where
  "TableCache_Evict R file_number t =
     t\<lparr>tc_cache := ShareCache_Erase (re_hash R) (EncodeFixed64 file_number) (tc_cache t)\<rparr>"

text \<open>
  \<open>FindTable\<close>: the status and \<open>*handle\<close>.  After a table is opened, the code stores into the fields of
  the object of a null \<open>shared_ptr\<close>.
\<close>

definition FindTable ::
  "renv \<Rightarrow> (string \<Rightarrow> RandomAccessFile option) \<Rightarrow> u64 \<Rightarrow> u64 \<Rightarrow> TableCache
    \<Rightarrow> (State \<times> (RandomAccessFile \<times> Table) option \<times> TableCache) option" where
  "FindTable R open_file file_num file_size t = do {
     let key = EncodeFixed64 file_num;
     (handle, cache) \<leftarrow> ShareCache_Lookup (re_hash R) key (tc_cache t);
     let t1 = t\<lparr>tc_cache := cache\<rparr>;
     (case handle of
        Some h \<Rightarrow> Some (kok, Some h, t1)
      | None \<Rightarrow> do {
          let fname = TableFileName (tc_dbname t) file_num;
          let old_fname = SSTTableFileName (tc_dbname t) file_num;
          let (s, file) = NewRandomAccessFile open_file fname;
          let (s1, file1) = (if State_ok s then (s, file)
            else (let (s2, file2) = NewRandomAccessFile open_file old_fname in (if State_ok s2 then kok else s, file2)));
          if State_ok s1 then do {
            f \<leftarrow> file1;
            (s3, _) \<leftarrow> Table_Open R f (unat file_size);
            if State_ok s3 then None else Some (s3, None, t1) }
          else Some (s1, None, t1) }) }"

text \<open>The status, the entry \<open>handle_rul\<close> was called with, and the cache.\<close>

definition TableCache_Get ::
  "renv \<Rightarrow> (string \<Rightarrow> RandomAccessFile option) \<Rightarrow> u64 \<Rightarrow> u64 \<Rightarrow> bytes \<Rightarrow> TableCache
    \<Rightarrow> (State \<times> (bytes \<times> bytes) option \<times> TableCache) option" where
  "TableCache_Get R open_file file_num file_size key t = do {
     (s, handle, t1) \<leftarrow> FindTable R open_file file_num file_size t;
     if State_ok s then do {
       (_, table) \<leftarrow> handle;
       (s2, call) \<leftarrow> Table_InternalGet R table key;
       Some (s2, call, t1) }
     else Some (s, None, t1) }"

text \<open>\<open>NewIterator\<close> uses the handle whatever the status is; the result is the table it iterates.\<close>

definition TableCache_NewIterator ::
  "renv \<Rightarrow> (string \<Rightarrow> RandomAccessFile option) \<Rightarrow> u64 \<Rightarrow> u64 \<Rightarrow> TableCache
    \<Rightarrow> (Table \<times> TableCache) option" where
  "TableCache_NewIterator R open_file file_number file_size t = do {
     (_, handle, t1) \<leftarrow> FindTable R open_file file_number file_size t;
     (_, table) \<leftarrow> handle;
     Some (table, t1) }"

section \<open>The cache as a list of keys and values\<close>

text \<open>
  A cache is well-formed when its nodes have different identities and keys, and the map leads from exactly the
  keys of the nodes to them.
\<close>

definition lru_wf :: "'v LruCache \<Rightarrow> bool" where
  "lru_wf c \<longleftrightarrow> distinct (map fst (lc_list c)) \<and> distinct (map (fst \<circ> snd) (lc_list c)) \<and>
     (\<forall>k i. lc_map c k = Some i \<longleftrightarrow> (\<exists>v. (i, k, v) \<in> set (lc_list c))) \<and>
     (\<forall>n \<in> set (lc_list c). fst n < lc_next c)"

definition lru_entries :: "'v LruCache \<Rightarrow> (bytes \<times> 'v) list" where
  "lru_entries c = map snd (lc_list c)"

lemma list_node_in:
  "distinct (map fst l) \<Longrightarrow> (i, k, v) \<in> set l \<Longrightarrow> list_node i l = Some (i, k, v)"
  by (induction l) (auto simp: list_node_def image_iff)

lemma erase_entries:
  assumes "distinct (map fst l)" "distinct (map (fst \<circ> snd) l)" "(i, k, v) \<in> set l"
  shows "map snd (list_erase i l) = filter (\<lambda>e. fst e \<noteq> k) (map snd l)"
proof -
  have "fst n \<noteq> i \<longleftrightarrow> fst (snd n) \<noteq> k" if "n \<in> set l" for n
    using assms that by (metis comp_apply eq_key_imp_eq_value fst_conv prod.collapse snd_conv map_of_eq_Some_iff inj_on_eq_iff distinct_map)
  then have "list_erase i l = filter (\<lambda>n. fst (snd n) \<noteq> k) l"
    by (simp add: list_erase_def cong: filter_cong)
  then show ?thesis
    by (simp add: filter_map comp_def)
qed


lemma map_of_entries:
  assumes "lru_wf c" "(i, k, v) \<in> set (lc_list c)"
  shows "map_of (lru_entries c) k = Some v"
proof -
  have "distinct (map fst (lru_entries c))"
    using assms(1) by (simp add: lru_wf_def lru_entries_def comp_def)
  moreover have "(k, v) \<in> set (lru_entries c)"
    using assms(2) by (force simp: lru_entries_def)
  ultimately show ?thesis
    by (rule map_of_is_SomeI)
qed

lemma map_of_entries_None:
  "lru_wf c \<Longrightarrow> lc_map c k = None \<longleftrightarrow> map_of (lru_entries c) k = None"
  by (force simp: lru_wf_def lru_entries_def map_of_eq_None_iff not_Some_eq [symmetric] simp del: not_Some_eq)

lemma lru_same:
  assumes "lru_wf c" "(i, k, v) \<in> set (lc_list c)" "(j, k', v') \<in> set (lc_list c)"
  shows "j = i \<longleftrightarrow> k' = k" "j = i \<Longrightarrow> v' = v"
proof -
  have "inj_on fst (set (lc_list c))" "inj_on (fst \<circ> snd) (set (lc_list c))"
    using assms(1) by (simp_all add: lru_wf_def distinct_map)
  then show "j = i \<longleftrightarrow> k' = k" "j = i \<Longrightarrow> v' = v"
    using inj_onD [of fst _ "(j, k', v')" "(i, k, v)"] inj_onD [of "fst \<circ> snd" _ "(j, k', v')" "(i, k, v)"]
      assms(2,3) by auto
qed

lemma wf_erase:
  assumes "lru_wf c" "(i, k, v) \<in> set (lc_list c)"
  shows "lru_wf (c\<lparr>lc_list := list_erase i (lc_list c), lc_map := (lc_map c)(k := None)\<rparr>)"
proof -
  have "((lc_map c)(k := None)) k' = Some j \<longleftrightarrow> (\<exists>v'. (j, k', v') \<in> set (list_erase i (lc_list c)))" for k' j
    using assms(1) lru_same(1) [OF assms, of j k'] by (auto simp: lru_wf_def list_erase_def)
  then show ?thesis
    using assms(1) by (auto simp: lru_wf_def list_erase_def distinct_map_filter)
qed

lemma wf_perm:
  assumes "lru_wf c" "mset l = mset (lc_list c)"
  shows "lru_wf (c\<lparr>lc_list := l\<rparr>)"
proof -
  have "set l = set (lc_list c)"
    using assms(2) by (rule mset_eq_setD)
  then show ?thesis
    using assms(1) mset_eq_imp_distinct_iff [of "map fst l" "map fst (lc_list c)"]
      mset_eq_imp_distinct_iff [of "map (fst \<circ> snd) l" "map (fst \<circ> snd) (lc_list c)"] assms(2)
    by (simp add: lru_wf_def)
qed

lemma mset_splice:
  assumes "distinct (map fst l)" "(i, e) \<in> set l"
  shows "mset ((i, e) # list_erase i l) = mset l"
  using assms
proof (induction l)
  case (Cons n l)
  show ?case
  proof (cases "fst n = i")
    case True
    then have i: "\<forall>x \<in> set l. fst x \<noteq> i"
      using Cons.prems(1) by (auto simp: image_iff)
    moreover have "n = (i, e)"
      using Cons.prems(2) i by auto
    ultimately have "list_erase i l = l" "n = (i, e)"
      by (simp_all add: list_erase_def filter_id_conv)
    then show ?thesis
      by (simp add: list_erase_def)
  next
    case False
    then show ?thesis
      using Cons by (auto simp: list_erase_def)
  qed
qed simp

lemma Erase_wf:
  assumes "lru_wf c"
  shows "lru_wf (LruCache_Erase k c) \<and>
    lru_entries (LruCache_Erase k c) = filter (\<lambda>e. fst e \<noteq> k) (lru_entries c)"
proof (cases "lc_map c k")
  case None
  then have "\<forall>e \<in> set (lru_entries c). fst e \<noteq> k"
    using map_of_entries_None [OF assms, of k] by (auto simp: map_of_eq_None_iff)
  then have "filter (\<lambda>e. fst e \<noteq> k) (lru_entries c) = lru_entries c"
    by (simp add: filter_id_conv)
  then show ?thesis
    using None assms by (simp add: LruCache_Erase_def)
next
  case (Some i)
  then obtain v where v: "(i, k, v) \<in> set (lc_list c)"
    using assms by (auto simp: lru_wf_def)
  have d: "distinct (map fst (lc_list c))" "distinct (map (fst \<circ> snd) (lc_list c))"
    using assms by (simp_all add: lru_wf_def)
  show ?thesis
    using Some wf_erase [OF assms v] erase_entries [OF d v]
    by (simp add: LruCache_Erase_def lru_entries_def)
qed

lemma Lookup_wf:
  assumes "lru_wf c"
  obtains c' where "LruCache_Lookup k c = Some (map_of (lru_entries c) k, c')" "lru_wf c'"
    "lru_entries c' = (case map_of (lru_entries c) k of None \<Rightarrow> lru_entries c
       | Some v \<Rightarrow> (k, v) # filter (\<lambda>e. fst e \<noteq> k) (lru_entries c))"
proof (cases "lc_map c k")
  case None
  then show ?thesis
    using map_of_entries_None [OF assms, of k] assms by (intro that [of c]) (simp_all add: LruCache_Lookup_def)
next
  case (Some i)
  then obtain v where v: "(i, k, v) \<in> set (lc_list c)"
    using assms by (auto simp: lru_wf_def)
  have d: "distinct (map fst (lc_list c))" "distinct (map (fst \<circ> snd) (lc_list c))"
    using assms by (simp_all add: lru_wf_def)
  let ?c = "c\<lparr>lc_list := (i, k, v) # list_erase i (lc_list c)\<rparr>"
  have "lru_wf ?c"
    by (rule wf_perm [OF assms mset_splice [OF d(1) v]])
  moreover have "lru_entries ?c = (k, v) # filter (\<lambda>e. fst e \<noteq> k) (lru_entries c)"
    using erase_entries [OF d v] by (simp add: lru_entries_def)
  moreover have "LruCache_Lookup k c = Some (map_of (lru_entries c) k, ?c)"
    using Some list_node_in [OF d(1) v] map_of_entries [OF assms v]
    by (simp add: LruCache_Lookup_def splice_front_def)
  ultimately show ?thesis
    using map_of_entries [OF assms v] by (intro that) simp_all
qed

lemma lru_wf_mk: "lru_wf (mk_LruCache n)" "lru_entries (mk_LruCache n) = []"
  by (simp_all add: lru_wf_def mk_LruCache_def lru_entries_def)

section \<open>Histories of a cache\<close>

datatype 'v lop = LInsert bytes 'v | LLookup bytes | LErase bytes

text \<open>Each operation with the pointer it returns.\<close>

fun lop_step :: "'v lop \<Rightarrow> 'v LruCache \<Rightarrow> ('v option \<times> 'v LruCache) option" where
  "lop_step (LInsert k v) c = map_option (\<lambda>(r, c'). (Some r, c')) (LruCache_Insert k v c)"
| "lop_step (LLookup k) c = LruCache_Lookup k c"
| "lop_step (LErase k) c = Some (None, LruCache_Erase k c)"

fun lop_run :: "'v lop list \<Rightarrow> 'v LruCache \<Rightarrow> ('v option list \<times> 'v LruCache) option" where
  "lop_run [] c = Some ([], c)"
| "lop_run (x # xs) c = do {
     (r, c1) \<leftarrow> lop_step x c;
     (rs, c2) \<leftarrow> lop_run xs c1;
     Some (r # rs, c2) }"

lemma empty_step:
  assumes "lc_map c = Map.empty"
  shows "lop_step x c = (case x of LInsert k v \<Rightarrow> None | _ \<Rightarrow> Some (None, c))"
  using assms by (cases x) (simp_all add: LruCache_Insert_def LruCache_Lookup_def LruCache_Erase_def)

lemma empty_run:
  assumes "lc_map c = Map.empty"
  shows "lop_run xs c = (if \<exists>k v. LInsert k v \<in> set xs then None else Some (replicate (length xs) None, c))"
proof (induction xs)
  case (Cons x xs)
  then show ?case
    by (cases x) (auto simp add: empty_step [OF assms])
qed simp

section \<open>No table is ever cached\<close>

definition sc_empty :: "'v ShareCache \<Rightarrow> bool" where
  "sc_empty s \<longleftrightarrow> length (sc_sharecache s) = 16 \<and> (\<forall>c \<in> set (sc_sharecache s). lc_map c = Map.empty)"

lemma shard_less: "shard hash key < 16"
  by (simp add: shard_def word_less_nat_alt [symmetric] unat_mod)

lemma ShareCache_empty:
  assumes "sc_empty s"
  shows "ShareCache_Lookup hash key s = Some (None, s)" "ShareCache_Erase hash key s = s"
    "ShareCache_Insert hash key v s = None"
proof -
  have "lc_map (sc_sharecache s ! shard hash key) = Map.empty"
    using assms shard_less [of hash key] by (simp add: sc_empty_def)
  then show "ShareCache_Lookup hash key s = Some (None, s)" "ShareCache_Erase hash key s = s"
    "ShareCache_Insert hash key v s = None"
    by (simp_all add: ShareCache_Lookup_def ShareCache_Erase_def ShareCache_Insert_def
        LruCache_Lookup_def LruCache_Erase_def LruCache_Insert_def)
qed

lemma FindTable_empty:
  assumes "sc_empty (tc_cache t)" "FindTable R open_file n sz t = Some (s, h, t')"
  shows "\<not> State_ok s \<and> h = None \<and> t' = t"
  using assms by (auto simp: FindTable_def NewRandomAccessFile_def ShareCache_empty Let_def
      split: option.splits bind_splits if_splits)


lemma sc_empty_mk: "sc_empty (tc_cache (mk_TableCache dbname n))"
  by (simp add: sc_empty_def mk_TableCache_def mk_ShareCache_def mk_LruCache_def)

section \<open>Properties\<close>

text \<open>
  Lookups keep the cache a recency list.  From a well-formed cache, \<open>Lookup\<close> returns the value of the key (null if
  there is none), never follows a stale iterator, and moves the entry to the front; \<open>Erase\<close> removes exactly the key; both keep
  the cache well-formed, with its map pointing to the nodes of the list.
\<close>

theorem LruCache_recency:
  assumes "lru_wf c"
  shows "(\<exists>c'. LruCache_Lookup k c = Some (map_of (lru_entries c) k, c') \<and> lru_wf c' \<and>
      lru_entries c' = (case map_of (lru_entries c) k of None \<Rightarrow> lru_entries c
        | Some v \<Rightarrow> (k, v) # filter (\<lambda>e. fst e \<noteq> k) (lru_entries c))) \<and>
    lru_wf (LruCache_Erase k c) \<and>
    lru_entries (LruCache_Erase k c) = filter (\<lambda>e. fst e \<noteq> k) (lru_entries c)"
  using Lookup_wf [OF assms, of k] Erase_wf [OF assms, of k] by metis

definition sample_cache :: "nat LruCache" where
  "sample_cache = \<lparr>lc_size = 4, lc_list = [(0, [1], 10), (1, [2], 20)],
     lc_map = Map.empty([1] \<mapsto> 0, [2] \<mapsto> 1), lc_next = 2\<rparr>"

theorem LruCache_recency_witness:
  "lru_wf sample_cache \<and> (\<exists>c'. LruCache_Lookup [2] sample_cache = Some (Some 20, c') \<and>
     lru_entries c' = [([2], 20), ([1], 10)])"
proof -
  have "lru_wf sample_cache"
    by (auto simp: lru_wf_def sample_cache_def split: if_splits)
  from this LruCache_recency [OF this, of "[2]"] show ?thesis
    by (auto simp: sample_cache_def lru_entries_def)
qed

text \<open>
  A new cache stays empty.  \<open>LruCache::Insert\<close> has its two cases exchanged: in any history of a new cache, every lookup
  returns null and every insertion of a key is undefined behaviour, because it splices with the end iterator of the map.
\<close>

theorem LruCache_never_fills:
  "lop_run ops (mk_LruCache capacity) =
     (if \<exists>k v. LInsert k v \<in> set ops then None
      else Some (replicate (length ops) None, mk_LruCache capacity))"
  by (rule empty_run) (simp add: mk_LruCache_def)

text \<open>
  No table can be used through the table cache.  On a new \<open>TableCache\<close>, whatever the files hold, if \<open>FindTable\<close> or \<open>Get\<close>
  return at all, their status is not ok and nothing was looked up, and the cache stays as it is, so that this holds for every
  later call; \<open>NewIterator\<close> always dereferences a null handle.
\<close>

theorem TableCache_unusable:
  assumes "t = mk_TableCache dbname max_open_files"
  shows "(case FindTable R open_file n sz t of None \<Rightarrow> True
      | Some (s, h, t') \<Rightarrow> \<not> State_ok s \<and> h = None \<and> t' = t) \<and>
    (case TableCache_Get R open_file n sz k t of None \<Rightarrow> True
      | Some (s, call, t') \<Rightarrow> \<not> State_ok s \<and> call = None \<and> t' = t) \<and>
    TableCache_NewIterator R open_file n sz t = None \<and> TableCache_Evict R n t = t"
proof -
  have e: "sc_empty (tc_cache t)"
    using assms sc_empty_mk by simp
  show ?thesis
  proof (cases "FindTable R open_file n sz t")
    case None
    then show ?thesis
      by (simp add: TableCache_Get_def TableCache_NewIterator_def TableCache_Evict_def ShareCache_empty [OF e])
  next
    case (Some r)
    moreover obtain s h t' where "r = (s, h, t')"
      by (cases r)
    moreover from calculation have "\<not> State_ok s" "h = None" "t' = t"
      using FindTable_empty [OF e, of R open_file n sz s h t'] by simp_all
    ultimately show ?thesis
      by (simp add: TableCache_Get_def TableCache_NewIterator_def TableCache_Evict_def ShareCache_empty [OF e])
  qed
qed

theorem TableCache_unusable_witness:
  "TableCache_NewIterator sample_renv (\<lambda>_. None) 7 100 (mk_TableCache ''db'' 1000) = None \<and>
   TableCache_Get sample_renv (\<lambda>_. None) 7 100 [] (mk_TableCache ''db'' 1000) =
     Some (kioerror, None, mk_TableCache ''db'' 1000)"
proof -
  note e = sc_empty_mk [of "''db''" 1000]
  have "TableCache_Get sample_renv (\<lambda>_. None) 7 100 [] (mk_TableCache ''db'' 1000) =
     Some (kioerror, None, mk_TableCache ''db'' 1000)"
    by (simp add: TableCache_Get_def FindTable_def NewRandomAccessFile_def ShareCache_empty [OF e] TableFileName_def SSTTableFileName_def)
  with TableCache_unusable [OF refl, of "''db''" 1000 sample_renv "\<lambda>_. None" 7 100 "[]"] show ?thesis
    by simp
qed

end
