(* ===== verification/Iterators.thy ===== *)
theory Iterators
  imports Cursor Cache
begin

text \<open>
  The iterators over iterators: \<open>IteratorWrapper\<close>, \<open>Merageitor\<close> and \<open>TweLevelIterator\<close> of
  src/src/db/iterator.h and src/src/db/iterator.cpp.

  The virtual functions of the abstract class \<open>Iterator\<close> are a record of operations on the
  iterators of a type \<open>'it\<close>; an operation that may be undefined gives an \<open>option\<close>.
\<close>

record 'it iter_ops =
  io_Valid :: "'it \<Rightarrow> bool"
  io_key :: "'it \<Rightarrow> bytes"
  io_value :: "'it \<Rightarrow> bytes option"
  io_SeekToFirst :: "'it \<Rightarrow> 'it option"
  io_SeekToLast :: "'it \<Rightarrow> 'it option"
  io_Seek :: "bytes \<Rightarrow> 'it \<Rightarrow> 'it option"
  io_Next :: "'it \<Rightarrow> 'it option"
  io_Prev :: "'it \<Rightarrow> 'it option"
  io_state :: "'it \<Rightarrow> State"

section \<open>IteratorWrapper\<close>

record 'it IteratorWrapper =
  iw_iter :: "'it option"
  iw_valid :: bool
  iw_key :: bytes

definition mk_IteratorWrapper :: "'it IteratorWrapper" where
  "mk_IteratorWrapper = \<lparr>iw_iter = None, iw_valid = False, iw_key = []\<rparr>"

text \<open>\<open>Update\<close>, after the iterator has become \<open>it\<close>; the key is left alone when it is not valid.\<close>

definition iw_Update :: "'it iter_ops \<Rightarrow> 'it \<Rightarrow> 'it IteratorWrapper \<Rightarrow> 'it IteratorWrapper" where
  "iw_Update Op it w =
     (let w1 = w\<lparr>iw_iter := Some it, iw_valid := io_Valid Op it\<rparr>
      in if io_Valid Op it then w1\<lparr>iw_key := io_key Op it\<rparr> else w1)"

definition iw_Set :: "'it iter_ops \<Rightarrow> 'it option \<Rightarrow> 'it IteratorWrapper \<Rightarrow> 'it IteratorWrapper" where
  "iw_Set Op iter w =
     (case iter of
        None \<Rightarrow> w\<lparr>iw_iter := None, iw_valid := False\<rparr>
      | Some it \<Rightarrow> iw_Update Op it w)"

definition iw_clear :: "'it IteratorWrapper \<Rightarrow> 'it IteratorWrapper" where
  "iw_clear w = w\<lparr>iw_iter := None, iw_valid := False\<rparr>"

definition iw_value :: "'it iter_ops \<Rightarrow> 'it IteratorWrapper \<Rightarrow> bytes option" where
  "iw_value Op w = do { it \<leftarrow> iw_iter w; io_value Op it }"

definition iw_state :: "'it iter_ops \<Rightarrow> 'it IteratorWrapper \<Rightarrow> State option" where
  "iw_state Op w = map_option (io_state Op) (iw_iter w)"

definition iw_Next :: "'it iter_ops \<Rightarrow> 'it IteratorWrapper \<Rightarrow> 'it IteratorWrapper option" where
  "iw_Next Op w = do { it \<leftarrow> iw_iter w; it' \<leftarrow> io_Next Op it; Some (iw_Update Op it' w) }"

definition iw_Prev :: "'it iter_ops \<Rightarrow> 'it IteratorWrapper \<Rightarrow> 'it IteratorWrapper option" where
  "iw_Prev Op w = do { it \<leftarrow> iw_iter w; it' \<leftarrow> io_Prev Op it; Some (iw_Update Op it' w) }"

definition iw_Seek :: "'it iter_ops \<Rightarrow> bytes \<Rightarrow> 'it IteratorWrapper \<Rightarrow> 'it IteratorWrapper option" where
  "iw_Seek Op k w = do { it \<leftarrow> iw_iter w; it' \<leftarrow> io_Seek Op k it; Some (iw_Update Op it' w) }"

definition iw_SeekToFirst :: "'it iter_ops \<Rightarrow> 'it IteratorWrapper \<Rightarrow> 'it IteratorWrapper option" where
  "iw_SeekToFirst Op w = do { it \<leftarrow> iw_iter w; it' \<leftarrow> io_SeekToFirst Op it; Some (iw_Update Op it' w) }"

definition iw_SeekToLast :: "'it iter_ops \<Rightarrow> 'it IteratorWrapper \<Rightarrow> 'it IteratorWrapper option" where
  "iw_SeekToLast Op w = do { it \<leftarrow> iw_iter w; it' \<leftarrow> io_SeekToLast Op it; Some (iw_Update Op it' w) }"

section \<open>Merageitor\<close>

datatype Direction = kForward | kReverse

text \<open>\<open>current_\<close> points into \<open>children_\<close>: it is an index.\<close>

record 'it Merageitor =
  mi_children :: "'it IteratorWrapper list"
  mi_current :: "nat option"
  mi_direction :: Direction

definition mk_Merageitor :: "'it iter_ops \<Rightarrow> 'it option list \<Rightarrow> 'it Merageitor" where
  "mk_Merageitor Op children =
     \<lparr>mi_children = map (\<lambda>c. iw_Set Op c mk_IteratorWrapper) children,
      mi_current = None, mi_direction = kForward\<rparr>"

definition Merageitor_Valid :: "'it Merageitor \<Rightarrow> bool" where
  "Merageitor_Valid m \<longleftrightarrow> mi_current m \<noteq> None"

definition Merageitor_key :: "'it Merageitor \<Rightarrow> bytes" where
  "Merageitor_key m = iw_key (mi_children m ! the (mi_current m))"

definition Merageitor_value :: "'it iter_ops \<Rightarrow> 'it Merageitor \<Rightarrow> bytes option" where
  "Merageitor_value Op m = do { c \<leftarrow> mi_current m; iw_value Op (mi_children m ! c) }"

text \<open>The status of the first child that is not ok; a null child is dereferenced.\<close>

fun children_state :: "'it iter_ops \<Rightarrow> State \<Rightarrow> 'it IteratorWrapper list \<Rightarrow> State option" where
  "children_state Op s [] = Some s"
| "children_state Op s (c # cs) = do {
     s' \<leftarrow> iw_state Op c;
     if \<not> State_ok s' then Some s' else children_state Op s' cs }"

definition Merageitor_state :: "'it iter_ops \<Rightarrow> 'it Merageitor \<Rightarrow> State option" where
  "Merageitor_state Op m = children_state Op kok (mi_children m)"

text \<open>
  The loops of \<open>FindSmallest\<close> and \<open>FindLargest\<close>: the indices still to visit, and the best child so
  far.  Among equal keys both keep the child they meet first.
\<close>

fun find_best ::
  "(int \<Rightarrow> bool) \<Rightarrow> 'it IteratorWrapper list \<Rightarrow> nat list \<Rightarrow> nat option \<Rightarrow> nat option option" where
  "find_best better cs [] best = Some best"
| "find_best better cs (i # is) best =
     (if iw_valid (cs ! i) then
        (case best of
           None \<Rightarrow> find_best better cs is (Some i)
         | Some j \<Rightarrow> do {
             r \<leftarrow> cmp_view (iw_key (cs ! i)) (iw_key (cs ! j));
             find_best better cs is (if better r then Some i else Some j) })
      else find_best better cs is best)"

definition FindSmallest :: "'it Merageitor \<Rightarrow> 'it Merageitor option" where
  "FindSmallest m = do {
     c \<leftarrow> find_best (\<lambda>r. r < 0) (mi_children m) [0..<length (mi_children m)] None;
     Some (m\<lparr>mi_current := c\<rparr>) }"

definition FindLargest :: "'it Merageitor \<Rightarrow> 'it Merageitor option" where
  "FindLargest m = do {
     c \<leftarrow> find_best (\<lambda>r. r > 0) (mi_children m) (rev [0..<length (mi_children m)]) None;
     Some (m\<lparr>mi_current := c\<rparr>) }"

text \<open>The loops over the children; the second one leaves out the child with the index of \<open>current_\<close>.\<close>

fun for_children ::
  "('it IteratorWrapper \<Rightarrow> 'it IteratorWrapper option) \<Rightarrow> 'it IteratorWrapper list \<Rightarrow> 'it IteratorWrapper list option" where
  "for_children f [] = Some []"
| "for_children f (c # cs) = do { c' \<leftarrow> f c; cs' \<leftarrow> for_children f cs; Some (c' # cs') }"

fun for_others ::
  "('it IteratorWrapper \<Rightarrow> 'it IteratorWrapper option) \<Rightarrow> nat \<Rightarrow> nat \<Rightarrow> 'it IteratorWrapper list
    \<Rightarrow> 'it IteratorWrapper list option" where
  "for_others f current i [] = Some []"
| "for_others f current i (c # cs) = do {
     c' \<leftarrow> (if i \<noteq> current then f c else Some c);
     cs' \<leftarrow> for_others f current (Suc i) cs;
     Some (c' # cs') }"

definition Merageitor_SeekToFirst :: "'it iter_ops \<Rightarrow> 'it Merageitor \<Rightarrow> 'it Merageitor option" where
  "Merageitor_SeekToFirst Op m = do {
     cs \<leftarrow> for_children (iw_SeekToFirst Op) (mi_children m);
     m' \<leftarrow> FindSmallest (m\<lparr>mi_children := cs\<rparr>);
     Some (m'\<lparr>mi_direction := kForward\<rparr>) }"

definition Merageitor_SeekToLast :: "'it iter_ops \<Rightarrow> 'it Merageitor \<Rightarrow> 'it Merageitor option" where
  "Merageitor_SeekToLast Op m = do {
     cs \<leftarrow> for_children (iw_SeekToLast Op) (mi_children m);
     m' \<leftarrow> FindLargest (m\<lparr>mi_children := cs\<rparr>);
     Some (m'\<lparr>mi_direction := kReverse\<rparr>) }"

definition Merageitor_Seek :: "'it iter_ops \<Rightarrow> bytes \<Rightarrow> 'it Merageitor \<Rightarrow> 'it Merageitor option" where
  "Merageitor_Seek Op target m = do {
     cs \<leftarrow> for_children (iw_Seek Op target) (mi_children m);
     m' \<leftarrow> FindSmallest (m\<lparr>mi_children := cs\<rparr>);
     Some (m'\<lparr>mi_direction := kForward\<rparr>) }"

text \<open>The bodies of the loops that turn the other children around.\<close>

definition turn_forward :: "'it iter_ops \<Rightarrow> bytes \<Rightarrow> 'it IteratorWrapper \<Rightarrow> 'it IteratorWrapper option" where
  "turn_forward Op key child = do {
     child1 \<leftarrow> iw_Seek Op key child;
     if iw_valid child1 then do {
       r \<leftarrow> cmp_view key (iw_key child1);
       if r = 0 then iw_Next Op child1 else Some child1 }
     else Some child1 }"

definition turn_backward :: "'it iter_ops \<Rightarrow> bytes \<Rightarrow> 'it IteratorWrapper \<Rightarrow> 'it IteratorWrapper option" where
  "turn_backward Op key child = do {
     child1 \<leftarrow> iw_Seek Op key child;
     if iw_valid child1 then iw_Prev Op child1 else iw_SeekToLast Op child1 }"

definition Merageitor_Next :: "'it iter_ops \<Rightarrow> 'it Merageitor \<Rightarrow> 'it Merageitor option" where
  "Merageitor_Next Op m = do {
     current \<leftarrow> mi_current m;
     cs \<leftarrow> (if mi_direction m \<noteq> kForward
            then for_others (turn_forward Op (Merageitor_key m)) current 0 (mi_children m)
            else Some (mi_children m));
     c \<leftarrow> iw_Next Op (cs ! current);
     FindSmallest (m\<lparr>mi_children := cs[current := c], mi_direction := kForward\<rparr>) }"

definition Merageitor_Prev :: "'it iter_ops \<Rightarrow> 'it Merageitor \<Rightarrow> 'it Merageitor option" where
  "Merageitor_Prev Op m = do {
     current \<leftarrow> mi_current m;
     cs \<leftarrow> (if mi_direction m \<noteq> kReverse
            then for_others (turn_backward Op (Merageitor_key m)) current 0 (mi_children m)
            else Some (mi_children m));
     c \<leftarrow> iw_Prev Op (cs ! current);
     FindLargest (m\<lparr>mi_children := cs[current := c], mi_direction := kReverse\<rparr>) }"

text \<open>Null for no children, the child itself for one.\<close>

definition NewMergingIterator :: "'it iter_ops \<Rightarrow> 'it option list \<Rightarrow> ('it option + 'it Merageitor) option" where
  "NewMergingIterator Op children =
     (case children of
        [] \<Rightarrow> None
      | [c] \<Rightarrow> Some (Inl c)
      | _ \<Rightarrow> Some (Inr (mk_Merageitor Op children)))"

section \<open>TweLevelIterator\<close>

text \<open>
  \<open>block_function\<close> is a parameter: \<open>Some None\<close> is a null iterator.  \<open>IO\<close> and \<open>DO\<close> are the operations of
  the index iterators and of the data iterators.
\<close>

record ('i, 'd) TweLevelIterator =
  tl_index_iter :: "'i IteratorWrapper"
  tl_data_iter :: "'d IteratorWrapper"
  tl_data_block_handle :: bytes
  tl_s :: State

definition mk_TweLevelIterator :: "'i iter_ops \<Rightarrow> 'i option \<Rightarrow> ('i, 'd) TweLevelIterator" where
  "mk_TweLevelIterator IO index_iter =
     \<lparr>tl_index_iter = iw_Set IO index_iter mk_IteratorWrapper, tl_data_iter = mk_IteratorWrapper,
      tl_data_block_handle = [], tl_s = kok\<rparr>"

definition TweLevelIterator_Valid :: "('i, 'd) TweLevelIterator \<Rightarrow> bool" where
  "TweLevelIterator_Valid t \<longleftrightarrow> iw_valid (tl_data_iter t)"

definition TweLevelIterator_key :: "('i, 'd) TweLevelIterator \<Rightarrow> bytes" where
  "TweLevelIterator_key t = iw_key (tl_data_iter t)"

definition TweLevelIterator_value :: "'d iter_ops \<Rightarrow> ('i, 'd) TweLevelIterator \<Rightarrow> bytes option" where
  "TweLevelIterator_value DO t = iw_value DO (tl_data_iter t)"

definition TweLevelIterator_state ::
  "'i iter_ops \<Rightarrow> 'd iter_ops \<Rightarrow> ('i, 'd) TweLevelIterator \<Rightarrow> State option" where
  "TweLevelIterator_state IO DO t = do {
     si \<leftarrow> iw_state IO (tl_index_iter t);
     if \<not> State_ok si then Some si
     else
       (case iw_state DO (tl_data_iter t) of
          None \<Rightarrow> Some (tl_s t)
        | Some sd \<Rightarrow> Some (if State_ok sd then tl_s t else sd)) }"

definition tl_clear :: "('i, 'd) TweLevelIterator \<Rightarrow> ('i, 'd) TweLevelIterator" where
  "tl_clear t =
     (if iw_iter (tl_data_iter t) \<noteq> None then t\<lparr>tl_data_iter := iw_clear (tl_data_iter t)\<rparr> else t)"

definition SetDataIterator ::
  "'d iter_ops \<Rightarrow> 'd option \<Rightarrow> ('i, 'd) TweLevelIterator \<Rightarrow> ('i, 'd) TweLevelIterator" where
  "SetDataIterator DO iter t =
     (if iw_iter (tl_data_iter t) \<noteq> None
      then t\<lparr>tl_data_iter := iw_Set DO iter (tl_data_iter t)\<rparr> else t)"

definition InitDataBlock ::
  "'i iter_ops \<Rightarrow> 'd iter_ops \<Rightarrow> (bytes \<Rightarrow> 'd option option) \<Rightarrow> ('i, 'd) TweLevelIterator
    \<Rightarrow> ('i, 'd) TweLevelIterator option" where
  "InitDataBlock IO DO block_function t =
     (if \<not> iw_valid (tl_index_iter t) then Some (tl_clear t)
      else do {
        handle \<leftarrow> iw_value IO (tl_index_iter t);
        if iw_iter (tl_data_iter t) \<noteq> None \<and> handle = tl_data_block_handle t then Some t
        else do {
          iter \<leftarrow> block_function handle;
          Some (SetDataIterator DO iter (t\<lparr>tl_data_block_handle := handle\<rparr>)) } })"

text \<open>\<open>if (data_iter.iter() != nullptr) data_iter.f()\<close>\<close>

definition on_data ::
  "('d IteratorWrapper \<Rightarrow> 'd IteratorWrapper option) \<Rightarrow> ('i, 'd) TweLevelIterator
    \<Rightarrow> ('i, 'd) TweLevelIterator option" where
  "on_data f t =
     (if iw_iter (tl_data_iter t) \<noteq> None
      then do { d \<leftarrow> f (tl_data_iter t); Some (t\<lparr>tl_data_iter := d\<rparr>) } else Some t)"

definition on_index ::
  "('i IteratorWrapper \<Rightarrow> 'i IteratorWrapper option) \<Rightarrow> ('i, 'd) TweLevelIterator
    \<Rightarrow> ('i, 'd) TweLevelIterator option" where
  "on_index f t = do { i \<leftarrow> f (tl_index_iter t); Some (t\<lparr>tl_index_iter := i\<rparr>) }"

text \<open>
  The loops may run forever over an index iterator without an end: then their value is \<open>None\<close>.
\<close>

partial_function (option) SkipEmptyDataBlocks ::
  "('i IteratorWrapper \<Rightarrow> 'i IteratorWrapper option) \<Rightarrow> ('d IteratorWrapper \<Rightarrow> 'd IteratorWrapper option)
    \<Rightarrow> 'i iter_ops \<Rightarrow> 'd iter_ops \<Rightarrow> (bytes \<Rightarrow> 'd option option) \<Rightarrow> ('i, 'd) TweLevelIterator
    \<Rightarrow> ('i, 'd) TweLevelIterator option" where
  "SkipEmptyDataBlocks step start IO DO block_function t =
     (if iw_iter (tl_data_iter t) = None \<or> \<not> iw_valid (tl_data_iter t) then
        if \<not> iw_valid (tl_index_iter t) then Some (tl_clear t)
        else do {
          t1 \<leftarrow> on_index step t;
          t2 \<leftarrow> InitDataBlock IO DO block_function t1;
          t3 \<leftarrow> on_data start t2;
          SkipEmptyDataBlocks step start IO DO block_function t3 }
      else Some t)"

definition SkipEmptyDataBlocksForward ::
  "'i iter_ops \<Rightarrow> 'd iter_ops \<Rightarrow> (bytes \<Rightarrow> 'd option option) \<Rightarrow> ('i, 'd) TweLevelIterator
    \<Rightarrow> ('i, 'd) TweLevelIterator option" where
  "SkipEmptyDataBlocksForward IO DO = SkipEmptyDataBlocks (iw_Next IO) (iw_SeekToFirst DO) IO DO"

definition SkipEmptyDataBlocksBackward ::
  "'i iter_ops \<Rightarrow> 'd iter_ops \<Rightarrow> (bytes \<Rightarrow> 'd option option) \<Rightarrow> ('i, 'd) TweLevelIterator
    \<Rightarrow> ('i, 'd) TweLevelIterator option" where
  "SkipEmptyDataBlocksBackward IO DO = SkipEmptyDataBlocks (iw_Prev IO) (iw_SeekToLast DO) IO DO"

definition TweLevelIterator_Seek ::
  "'i iter_ops \<Rightarrow> 'd iter_ops \<Rightarrow> (bytes \<Rightarrow> 'd option option) \<Rightarrow> bytes \<Rightarrow> ('i, 'd) TweLevelIterator
    \<Rightarrow> ('i, 'd) TweLevelIterator option" where
  "TweLevelIterator_Seek IO DO block_function target t = do {
     t1 \<leftarrow> on_index (iw_Seek IO target) t;
     t2 \<leftarrow> InitDataBlock IO DO block_function t1;
     t3 \<leftarrow> on_data (iw_Seek DO target) t2;
     SkipEmptyDataBlocksForward IO DO block_function t3 }"

definition TweLevelIterator_SeekToFirst ::
  "'i iter_ops \<Rightarrow> 'd iter_ops \<Rightarrow> (bytes \<Rightarrow> 'd option option) \<Rightarrow> ('i, 'd) TweLevelIterator
    \<Rightarrow> ('i, 'd) TweLevelIterator option" where
  "TweLevelIterator_SeekToFirst IO DO block_function t = do {
     t1 \<leftarrow> on_index (iw_SeekToFirst IO) t;
     t2 \<leftarrow> InitDataBlock IO DO block_function t1;
     t3 \<leftarrow> on_data (iw_SeekToFirst DO) t2;
     SkipEmptyDataBlocksForward IO DO block_function t3 }"

definition TweLevelIterator_SeekToLast ::
  "'i iter_ops \<Rightarrow> 'd iter_ops \<Rightarrow> (bytes \<Rightarrow> 'd option option) \<Rightarrow> ('i, 'd) TweLevelIterator
    \<Rightarrow> ('i, 'd) TweLevelIterator option" where
  "TweLevelIterator_SeekToLast IO DO block_function t = do {
     t1 \<leftarrow> on_index (iw_SeekToLast IO) t;
     t2 \<leftarrow> InitDataBlock IO DO block_function t1;
     t3 \<leftarrow> on_data (iw_SeekToLast DO) t2;
     SkipEmptyDataBlocksBackward IO DO block_function t3 }"

definition TweLevelIterator_Next ::
  "'i iter_ops \<Rightarrow> 'd iter_ops \<Rightarrow> (bytes \<Rightarrow> 'd option option) \<Rightarrow> ('i, 'd) TweLevelIterator
    \<Rightarrow> ('i, 'd) TweLevelIterator option" where
  "TweLevelIterator_Next IO DO block_function t = do {
     d \<leftarrow> iw_Next DO (tl_data_iter t);
     SkipEmptyDataBlocksForward IO DO block_function (t\<lparr>tl_data_iter := d\<rparr>) }"

definition TweLevelIterator_Prev ::
  "'i iter_ops \<Rightarrow> 'd iter_ops \<Rightarrow> (bytes \<Rightarrow> 'd option option) \<Rightarrow> ('i, 'd) TweLevelIterator
    \<Rightarrow> ('i, 'd) TweLevelIterator option" where
  "TweLevelIterator_Prev IO DO block_function t = do {
     d \<leftarrow> iw_Prev DO (tl_data_iter t);
     SkipEmptyDataBlocksBackward IO DO block_function (t\<lparr>tl_data_iter := d\<rparr>) }"

text \<open>The files of a level: an index value is the number and the size of a file.\<close>

definition GetFileIterator ::
  "renv \<Rightarrow> (string \<Rightarrow> RandomAccessFile option) \<Rightarrow> bytes \<Rightarrow> TableCache \<Rightarrow> (Table option \<times> TableCache) option" where
  "GetFileIterator R open_file file_value t =
     (if length file_value \<noteq> 16 then Some (None, t)
      else do {
        n \<leftarrow> DecodeFixed64 file_value;
        sz \<leftarrow> DecodeFixed64 (drop 8 file_value);
        (table, t') \<leftarrow> TableCache_NewIterator R open_file n sz t;
        Some (Some table, t') })"

end
