(* ===== verification/Merging.thy ===== *)
theory Merging
  imports Iterators BlockContents "HOL-Library.Multiset"
begin

text \<open>
  Merging is a contract like that of its children: over children that are sorted cursors, \<open>Merageitor\<close> is
  a sorted cursor over the merge of their entries, in both directions.  The entries of all children
  have different internal keys.
\<close>

section \<open>Cutting sorted lists\<close>

abbreviation ekey_abs :: "bytes \<times> bytes \<Rightarrow> skey" where
  "ekey_abs e \<equiv> ikey_abs (fst e)"

definition merged :: "(bytes \<times> bytes) list list \<Rightarrow> (bytes \<times> bytes) list" where
  "merged ess = sort_key ekey_abs (concat ess)"

definition mergeable :: "(bytes \<times> bytes) list list \<Rightarrow> bool" where
  "mergeable ess \<longleftrightarrow> distinct (map ekey_abs (concat ess)) \<and>
     (\<forall>es \<in> set ess. sorted (map ekey_abs es) \<and> (\<forall>k \<in> fst ` set es. ikey_wf k))"

text \<open>The number of leading entries in a lower set \<open>Q\<close> of keys, and the last of them.\<close>

definition cut :: "(skey \<Rightarrow> bool) \<Rightarrow> (bytes \<times> bytes) list \<Rightarrow> nat" where
  "cut Q es = length (takeWhile (\<lambda>e. Q (ekey_abs e)) es)"

definition back_at :: "(skey \<Rightarrow> bool) \<Rightarrow> (bytes \<times> bytes) list \<Rightarrow> nat" where
  "back_at Q es = (if cut Q es = 0 then length es else cut Q es - 1)"

definition lower :: "(skey \<Rightarrow> bool) \<Rightarrow> bool" where
  "lower Q \<longleftrightarrow> (\<forall>x y. x \<le> y \<longrightarrow> Q y \<longrightarrow> Q x)"

lemma lowerI [intro, simp]: "lower (\<lambda>x. x < t)" "lower (\<lambda>x. x \<le> t)" "lower (\<lambda>x. True)" "lower (\<lambda>x. False)"
  by (auto simp: lower_def)

lemma cut_le: "cut Q es \<le> length es"
  by (simp add: cut_def length_takeWhile_le)

lemma cut_const: "cut (\<lambda>x. True) es = length es" "cut (\<lambda>x. False) es = 0"
  by (induction es) (simp_all add: cut_def)

lemma seek_pos_cut: "seek_pos ikey_abs es t = cut (\<lambda>x. x < ikey_abs t) es"
  by (simp add: seek_pos_def cut_def)

lemma cut_iff:
  assumes "lower Q" "sorted (map ekey_abs es)" "i < length es"
  shows "i < cut Q es \<longleftrightarrow> Q (ekey_abs (es ! i))"
proof
  assume "i < cut Q es"
  then show "Q (ekey_abs (es ! i))"
    using nth_mem [of i "takeWhile (\<lambda>e. Q (ekey_abs e)) es"]
    by (auto simp: cut_def takeWhile_nth dest: set_takeWhileD)
next
  assume Q: "Q (ekey_abs (es ! i))"
  show "i < cut Q es"
  proof (rule ccontr)
    assume n: "\<not> i < cut Q es"
    then have "ekey_abs (es ! cut Q es) \<le> ekey_abs (es ! i)"
      using assms(2,3) by (auto simp: sorted_iff_nth_mono)
    then have "Q (ekey_abs (es ! cut Q es))"
      using assms(1) Q by (auto simp: lower_def)
    moreover have "cut Q es < length es"
      using n assms(3) by simp
    ultimately show False
      using nth_length_takeWhile [of "\<lambda>e. Q (ekey_abs e)" es] by (simp add: cut_def)
  qed
qed

lemma cut_cong: "(\<And>e. e \<in> set es \<Longrightarrow> Q (ekey_abs e) = Q' (ekey_abs e)) \<Longrightarrow> cut Q es = cut Q' es"
  by (simp add: cut_def cong: takeWhile_cong)

lemma back_cong: "cut Q es = cut Q' es \<Longrightarrow> back_at Q es = back_at Q' es"
  by (simp add: back_at_def)

section \<open>The merge of lists with different keys\<close>

lemma distinct_concat_nth:
  "distinct (concat xs) \<Longrightarrow> i < length xs \<Longrightarrow> j < length xs \<Longrightarrow> x \<in> set (xs ! i) \<Longrightarrow> x \<in> set (xs ! j) \<Longrightarrow> i = j"
proof (induction xs arbitrary: i j)
  case (Cons y ys)
  have d: "x \<in> set y \<Longrightarrow> k < length ys \<Longrightarrow> x \<notin> set (ys ! k)" for k
    using Cons.prems(1) nth_mem by fastforce
  show ?case
    using Cons.prems d Cons.IH [of "i - 1" "j - 1"] by (cases i; cases j) auto
qed simp

lemma set_concat_nth: "set (concat ess) = (\<Union>i < length ess. set (ess ! i))"
proof -
  have "set ess = (!) ess ` {..<length ess}"
    by (auto simp: set_conv_nth)
  then show ?thesis
    by simp
qed

lemma merged_sorted: "sorted (map ekey_abs (merged ess))"
  by (simp add: merged_def)

lemma merged_set: "set (merged ess) = (\<Union>i < length ess. set (ess ! i))"
  using set_concat_nth [of ess] by (simp add: merged_def)

lemma child_sorted:
  assumes M: "mergeable ess"
  shows "i < length ess \<Longrightarrow> sorted (map ekey_abs (ess ! i))"
  using M by (simp add: mergeable_def)

lemma child_wf:
  assumes M: "mergeable ess"
  shows "i < length ess \<Longrightarrow> e \<in> set (ess ! i) \<Longrightarrow> ikey_wf (fst e)"
  using M by (auto simp: mergeable_def)

lemma merged_wf:
  assumes M: "mergeable ess"
  shows "\<forall>k \<in> fst ` set (merged ess). ikey_wf k"
  using child_wf [OF M] by (auto simp: merged_set)

lemma merged_mono:
  "p \<le> q \<Longrightarrow> q < length (merged ess) \<Longrightarrow> ekey_abs (merged ess ! p) \<le> ekey_abs (merged ess ! q)"
  using merged_sorted [of ess] by (simp add: sorted_iff_nth_mono)

text \<open>An internal key occurs once.\<close>

lemma same_key:
  assumes M: "mergeable ess" and "i < length ess" "x \<in> set (ess ! i)" "j < length ess" "y \<in> set (ess ! j)" "ekey_abs x = ekey_abs y"
  shows "i = j \<and> x = y"
proof -
  have "inj_on ekey_abs (set (concat ess))" "distinct (concat ess)"
    using M by (simp_all add: mergeable_def distinct_map)
  moreover have "x \<in> set (concat ess)" "y \<in> set (concat ess)"
    using assms set_concat_nth by auto
  ultimately have "x = y"
    using assms(6) by (auto dest: inj_onD)
  then show ?thesis
    using distinct_concat_nth [OF \<open>distinct (concat ess)\<close>] assms by auto
qed

lemma merged_distinct:
  assumes M: "mergeable ess"
  shows "distinct (map ekey_abs (merged ess))"
proof -
  have "mset (map ekey_abs (merged ess)) = mset (map ekey_abs (concat ess))"
    by (simp add: merged_def)
  then show ?thesis
    using M mset_eq_imp_distinct_iff unfolding mergeable_def by blast
qed

lemma merged_strict:
  assumes M: "mergeable ess"
  shows "p < q \<Longrightarrow> q < length (merged ess) \<Longrightarrow> ekey_abs (merged ess ! p) < ekey_abs (merged ess ! q)"
  using merged_sorted merged_distinct [OF M] strict_sorted_iff [of "map ekey_abs (merged ess)"]
  by (auto simp: sorted_wrt_iff_nth_less)

lemma child_strict:
  assumes M: "mergeable ess" and "c < length ess"
  shows "p < q \<Longrightarrow> q < length (ess ! c) \<Longrightarrow> ekey_abs (ess ! c ! p) < ekey_abs (ess ! c ! q)"
proof -
  assume pq: "p < q" "q < length (ess ! c)"
  have "distinct (ess ! c)"
    using assms by (auto simp: mergeable_def distinct_map distinct_concat_iff)
  then have "ess ! c ! p \<noteq> ess ! c ! q"
    using pq by (simp add: nth_eq_iff_index_eq)
  then have "ekey_abs (ess ! c ! p) \<noteq> ekey_abs (ess ! c ! q)"
    using same_key [OF M assms(2) _ assms(2), of "ess ! c ! p" "ess ! c ! q"] pq by auto
  moreover have "ekey_abs (ess ! c ! p) \<le> ekey_abs (ess ! c ! q)"
    using child_sorted [OF M assms(2)] pq by (auto simp: sorted_iff_nth_mono)
  ultimately show ?thesis
    by simp
qed

lemma child_in_merged:
  assumes M: "mergeable ess" and "i < length ess" "j < length (ess ! i)"
  obtains q where "q < length (merged ess)" "merged ess ! q = ess ! i ! j"
proof -
  have "ess ! i ! j \<in> set (merged ess)"
    using assms(2,3) merged_set [of ess] nth_mem by blast
  then show ?thesis
    using that by (auto simp: in_set_conv_nth)
qed

lemma merged_in_child:
  assumes M: "mergeable ess" and "p < length (merged ess)"
  obtains i j where "i < length ess" "j < length (ess ! i)" "ess ! i ! j = merged ess ! p"
proof -
  have "merged ess ! p \<in> (\<Union>i < length ess. set (ess ! i))"
    using assms merged_set nth_mem by blast
  then show ?thesis
    using that by (auto simp: in_set_conv_nth)
qed

text \<open>The first entry that is not in a lower set is the head of one child, and before all other heads.\<close>

lemma first_after_cut:
  assumes M: "mergeable ess" and Q: "lower Q" and p: "cut Q (merged ess) < length (merged ess)"
  obtains c where "c < length ess" "cut Q (ess ! c) < length (ess ! c)"
    "ess ! c ! cut Q (ess ! c) = merged ess ! cut Q (merged ess)"
    "\<And>i. i < length ess \<Longrightarrow> i \<noteq> c \<Longrightarrow> cut Q (ess ! i) < length (ess ! i) \<Longrightarrow>
      ekey_abs (merged ess ! cut Q (merged ess)) < ekey_abs (ess ! i ! cut Q (ess ! i))"
proof -
  let ?p = "cut Q (merged ess)"
  have least: "ekey_abs (merged ess ! ?p) \<le> ekey_abs (ess ! i ! cut Q (ess ! i))"
    if i: "i < length ess" "cut Q (ess ! i) < length (ess ! i)" for i
  proof -
    obtain q where q: "q < length (merged ess)" "merged ess ! q = ess ! i ! cut Q (ess ! i)"
      using child_in_merged [OF M i] by blast
    have "\<not> Q (ekey_abs (merged ess ! q))"
      using cut_iff [OF Q child_sorted [OF M i(1)] i(2)] q(2) by simp
    then have "?p \<le> q"
      using cut_iff [OF Q merged_sorted [of ess] q(1)] by simp
    then show ?thesis
      using q merged_mono [of ?p q ess] by simp
  qed
  obtain c j where c: "c < length ess" "j < length (ess ! c)" "ess ! c ! j = merged ess ! ?p"
    using merged_in_child [OF M p] by blast
  have "\<not> Q (ekey_abs (ess ! c ! j))"
    using cut_iff [OF Q merged_sorted [of ess] p] c(3) by simp
  then have j: "cut Q (ess ! c) \<le> j"
    using cut_iff [OF Q child_sorted [OF M c(1)] c(2)] by simp
  then have l: "cut Q (ess ! c) < length (ess ! c)"
    using c(2) by simp
  have "ekey_abs (ess ! c ! cut Q (ess ! c)) \<le> ekey_abs (ess ! c ! j)"
    using child_sorted [OF M c(1)] j c(2) by (auto simp: sorted_iff_nth_mono)
  then have "ess ! c ! cut Q (ess ! c) = merged ess ! ?p"
    using least [OF c(1) l] c l same_key [OF M c(1) nth_mem [OF l] c(1) nth_mem [OF c(2)]] by auto
  moreover have "ekey_abs (merged ess ! ?p) \<noteq> ekey_abs (ess ! i ! cut Q (ess ! i))"
    if "i < length ess" "i \<noteq> c" "cut Q (ess ! i) < length (ess ! i)" for i
    using same_key [OF M c(1) nth_mem [OF l] that(1) nth_mem [OF that(3)]] that(2) calculation by auto
  ultimately show ?thesis
    using that [OF c(1) l] least by force
qed

lemma none_after_cut:
  assumes M: "mergeable ess" and "lower Q" "cut Q (merged ess) = length (merged ess)" "i < length ess"
  shows "cut Q (ess ! i) = length (ess ! i)"
proof (rule ccontr)
  assume "cut Q (ess ! i) \<noteq> length (ess ! i)"
  then have l: "cut Q (ess ! i) < length (ess ! i)"
    using cut_le [of Q "ess ! i"] by simp
  then obtain q where q: "q < length (merged ess)" "merged ess ! q = ess ! i ! cut Q (ess ! i)"
    using child_in_merged [OF M assms(4)] by blast
  then show False
    using cut_iff [OF assms(2) merged_sorted [of ess] q(1)] q(2) cut_iff [OF assms(2) child_sorted [OF M assms(4)] l] assms(3)
    by auto
qed

text \<open>The last entry of a lower set, likewise.\<close>

lemma last_before_cut:
  assumes M: "mergeable ess" and Q: "lower Q" and p: "0 < cut Q (merged ess)"
  obtains c where "c < length ess" "0 < cut Q (ess ! c)"
    "ess ! c ! (cut Q (ess ! c) - 1) = merged ess ! (cut Q (merged ess) - 1)"
    "\<And>i. i < length ess \<Longrightarrow> i \<noteq> c \<Longrightarrow> 0 < cut Q (ess ! i) \<Longrightarrow>
      ekey_abs (ess ! i ! (cut Q (ess ! i) - 1)) < ekey_abs (merged ess ! (cut Q (merged ess) - 1))"
proof -
  let ?p = "cut Q (merged ess) - 1"
  have pl: "?p < length (merged ess)"
    using cut_le [of Q "merged ess"] p by simp
  have il: "cut Q (ess ! i) - 1 < length (ess ! i)" if "0 < cut Q (ess ! i)" for i
    using cut_le [of Q "ess ! i"] that by simp
  have greatest: "ekey_abs (ess ! i ! (cut Q (ess ! i) - 1)) \<le> ekey_abs (merged ess ! ?p)"
    if i: "i < length ess" "0 < cut Q (ess ! i)" for i
  proof -
    obtain q where q: "q < length (merged ess)" "merged ess ! q = ess ! i ! (cut Q (ess ! i) - 1)"
      using child_in_merged [OF M i(1) il [OF i(2)]] by blast
    have "Q (ekey_abs (merged ess ! q))"
      using cut_iff [OF Q child_sorted [OF M i(1)] il [OF i(2)]] q(2) i(2) by simp
    then have "q \<le> ?p"
      using cut_iff [OF Q merged_sorted [of ess] q(1)] by simp
    then show ?thesis
      using q pl merged_mono [of q ?p ess] by simp
  qed
  obtain c j where c: "c < length ess" "j < length (ess ! c)" "ess ! c ! j = merged ess ! ?p"
    using merged_in_child [OF M pl] by blast
  have "Q (ekey_abs (ess ! c ! j))"
    using cut_iff [OF Q merged_sorted [of ess] pl] c(3) p by simp
  then have j: "j < cut Q (ess ! c)"
    using cut_iff [OF Q child_sorted [OF M c(1)] c(2)] by simp
  then have l: "0 < cut Q (ess ! c)"
    by simp
  have "ekey_abs (ess ! c ! j) \<le> ekey_abs (ess ! c ! (cut Q (ess ! c) - 1))"
    using child_sorted [OF M c(1)] j il [OF l] by (auto simp: sorted_iff_nth_mono)
  then have "ess ! c ! (cut Q (ess ! c) - 1) = merged ess ! ?p"
    using greatest [OF c(1) l] c same_key [OF M c(1) nth_mem [OF il [OF l]] c(1) nth_mem [OF c(2)]] by auto
  moreover have "ekey_abs (ess ! i ! (cut Q (ess ! i) - 1)) \<noteq> ekey_abs (merged ess ! ?p)"
    if "i < length ess" "i \<noteq> c" "0 < cut Q (ess ! i)" for i
    using same_key [OF M c(1) nth_mem [OF il [OF l]] that(1) nth_mem [OF il [OF that(3)]]] that(2) calculation by auto
  ultimately show ?thesis
    using that [OF c(1) l] greatest by force
qed

lemma none_before_cut:
  assumes M: "mergeable ess" and "lower Q" "cut Q (merged ess) = 0" "i < length ess"
  shows "cut Q (ess ! i) = 0"
proof (rule ccontr)
  assume n: "cut Q (ess ! i) \<noteq> 0"
  then have l: "0 < length (ess ! i)"
    using cut_le [of Q "ess ! i"] by linarith
  then obtain q where q: "q < length (merged ess)" "merged ess ! q = ess ! i ! 0"
    using child_in_merged [OF M assms(4)] by blast
  then show False
    using cut_iff [OF assms(2) merged_sorted [of ess] q(1)] q(2) cut_iff [OF assms(2) child_sorted [OF M assms(4)] l] assms(3) n
    by auto
qed

text \<open>Lower sets with the same cut of the merge cut every child in the same place.\<close>

lemma cut_eq_child:
  assumes M: "mergeable ess" and "lower Q" "lower Q'" "cut Q (merged ess) = cut Q' (merged ess)" "i < length ess"
  shows "cut Q (ess ! i) = cut Q' (ess ! i)"
proof (rule cut_cong)
  fix e assume "e \<in> set (ess ! i)"
  then have "e \<in> set (merged ess)"
    using merged_set [of ess] assms(5) by blast
  then obtain q where q: "q < length (merged ess)" "merged ess ! q = e"
    by (auto simp: in_set_conv_nth)
  show "Q (ekey_abs e) = Q' (ekey_abs e)"
    using cut_iff [OF assms(2) merged_sorted [of ess] q(1)] cut_iff [OF assms(3) merged_sorted [of ess] q(1)]
      assms(4) q(2) by simp
qed

lemma cut_unique:
  assumes "p \<le> length es" "\<And>q. q < length es \<Longrightarrow> q < cut Q es \<longleftrightarrow> q < p"
  shows "cut Q es = p"
  using assms(2) [of p] assms(2) [of "cut Q es"] assms(1) cut_le [of Q es] by linarith

lemma cut_at:
  assumes M: "mergeable ess" and p: "p < length (merged ess)"
  shows "cut (\<lambda>x. x < ekey_abs (merged ess ! p)) (merged ess) = p"
    "cut (\<lambda>x. x \<le> ekey_abs (merged ess ! p)) (merged ess) = Suc p"
proof -
  have "ekey_abs (merged ess ! q) < ekey_abs (merged ess ! p) \<longleftrightarrow> q < p"
      "ekey_abs (merged ess ! q) \<le> ekey_abs (merged ess ! p) \<longleftrightarrow> q < Suc p" if "q < length (merged ess)" for q
    using merged_strict [OF M, of q p] merged_strict [OF M, of p q] p that
    by (cases q p rule: linorder_cases; force)+
  then show "cut (\<lambda>x. x < ekey_abs (merged ess ! p)) (merged ess) = p"
    "cut (\<lambda>x. x \<le> ekey_abs (merged ess ! p)) (merged ess) = Suc p"
    using p by (auto intro!: cut_unique simp: cut_iff [OF _ merged_sorted [of ess]])
qed


section \<open>Choosing a child\<close>

definition key_cmp :: "(int \<Rightarrow> bool) \<Rightarrow> bytes \<Rightarrow> bytes \<Rightarrow> bool" where
  "key_cmp better a b \<longleftrightarrow> (\<exists>r. cmp_view a b = Some r \<and> better r)"

lemma key_cmp_less: "ikey_wf a \<Longrightarrow> ikey_wf b \<Longrightarrow> key_cmp (\<lambda>r. r < 0) a b \<longleftrightarrow> ikey_abs a < ikey_abs b"
  by (auto simp: key_cmp_def cmp_view_cmp cmp_abs)

lemma key_cmp_greater: "ikey_wf a \<Longrightarrow> ikey_wf b \<Longrightarrow> key_cmp (\<lambda>r. r > 0) a b \<longleftrightarrow> ikey_abs b < ikey_abs a"
  by (auto simp: key_cmp_def cmp_view_cmp cmp_abs)

text \<open>The scan finds the child that is better than all other valid ones.\<close>

lemma find_best_unique:
  assumes wf: "\<And>i. i \<in> S \<Longrightarrow> iw_valid (cs ! i) \<Longrightarrow> ikey_wf (iw_key (cs ! i))"
    and c: "c \<in> S" "iw_valid (cs ! c)"
    and best: "\<And>i. i \<in> S \<Longrightarrow> iw_valid (cs ! i) \<Longrightarrow> i \<noteq> c \<Longrightarrow>
      key_cmp better (iw_key (cs ! c)) (iw_key (cs ! i)) \<and> \<not> key_cmp better (iw_key (cs ! i)) (iw_key (cs ! c))"
  shows "set is \<subseteq> S \<Longrightarrow> distinct is \<Longrightarrow>
    (if c \<in> set is then b = None \<or> (\<exists>j \<in> S. b = Some j \<and> iw_valid (cs ! j) \<and> j \<noteq> c) else b = Some c) \<Longrightarrow>
    find_best better cs is b = Some (Some c)"
proof (induction "is" arbitrary: b)
  case (Cons i "is")
  have i: "i \<in> S" "set is \<subseteq> S" "distinct is" "i \<notin> set is"
    using Cons.prems by auto
  have cmp: "\<exists>r. cmp_view (iw_key (cs ! i)) (iw_key (cs ! j)) = Some r \<and> (better r \<longleftrightarrow> key_cmp better (iw_key (cs ! i)) (iw_key (cs ! j)))"
    if "iw_valid (cs ! i)" "j \<in> S" "iw_valid (cs ! j)" for j
    using wf [OF i(1) that(1)] wf [OF that(2,3)] by (auto simp: key_cmp_def cmp_view_cmp cmp_abs)
  note IH = Cons.IH [OF i(2,3)]
  show ?case
  proof (cases "iw_valid (cs ! i)")
    case False
    then have "i \<noteq> c"
      using c(2) by auto
    then show ?thesis
      using False Cons.prems(3) by (auto intro!: IH)
  next
    case v: True
    show ?thesis
    proof (cases b)
      case None
      then have "c \<in> set (i # is)"
        using Cons.prems(3) by (auto split: if_splits)
      then show ?thesis
        using v None i(1,4) by (auto intro!: IH)
    next
      case (Some j)
      then have j: "j \<in> S" "iw_valid (cs ! j)" "j \<noteq> c \<longleftrightarrow> c \<in> set (i # is)"
        using Cons.prems(3) c by (auto split: if_splits)
      obtain r where r: "cmp_view (iw_key (cs ! i)) (iw_key (cs ! j)) = Some r"
          "better r \<longleftrightarrow> key_cmp better (iw_key (cs ! i)) (iw_key (cs ! j))"
        using cmp [OF v j(1,2)] by blast
      consider "i = c" | "i \<noteq> c" "j = c" | "i \<noteq> c" "j \<noteq> c"
        by blast
      then show ?thesis
      proof cases
        case 1
        then have "better r"
          using r(2) best [OF j(1,2)] j(3) by auto
        then show ?thesis
          using 1 v Some r(1) i(4) by (auto intro!: IH)
      next
        case 2
        then have "\<not> better r"
          using r(2) best [OF i(1) v] by auto
        then show ?thesis
          using 2 v Some r(1) j(3) by (auto intro!: IH)
      next
        case 3
        then show ?thesis
          using v Some r(1) j i(1) by (auto intro!: IH)
      qed
    qed
  qed
qed (auto split: if_splits)

lemma find_best_none:
  "(\<And>i. i \<in> set is \<Longrightarrow> \<not> iw_valid (cs ! i)) \<Longrightarrow> find_best better cs is None = Some None"
  by (induction "is") auto

section \<open>Loops over the children\<close>

lemma for_children_rel:
  assumes "list_all2 P xs cs" "\<And>x c. P x c \<Longrightarrow> \<exists>c'. f c = Some c' \<and> R x c'"
  obtains cs' where "for_children f cs = Some cs'" "list_all2 R xs cs'"
proof -
  have "\<exists>cs'. for_children f cs = Some cs' \<and> list_all2 R xs cs'"
    using assms(1)
  proof (induction rule: list_all2_induct)
    case (Cons x xs c cs)
    then show ?case
      using assms(2) [of x c] by auto
  qed simp
  then show ?thesis
    using that by blast
qed

lemma for_others_rel:
  assumes "length xs = length cs"
    and "\<And>i. i < length cs \<Longrightarrow> k + i \<noteq> current \<Longrightarrow> \<exists>c'. f (cs ! i) = Some c' \<and> R (xs ! i) c'"
  obtains cs' where "for_others f current k cs = Some cs'" "length cs' = length cs"
    "\<And>i. i < length cs \<Longrightarrow> k + i \<noteq> current \<Longrightarrow> R (xs ! i) (cs' ! i)"
    "\<And>i. i < length cs \<Longrightarrow> k + i = current \<Longrightarrow> cs' ! i = cs ! i"
proof -
  have "\<exists>cs'. for_others f current k cs = Some cs' \<and> length cs' = length cs \<and>
      (\<forall>i < length cs. (k + i \<noteq> current \<longrightarrow> R (xs ! i) (cs' ! i)) \<and> (k + i = current \<longrightarrow> cs' ! i = cs ! i))"
    using assms
  proof (induction xs cs arbitrary: k rule: list_induct2)
    case (Cons x xs c cs)
    obtain cs' where cs': "for_others f current (Suc k) cs = Some cs'" "length cs' = length cs"
        "\<forall>i < length cs. (Suc k + i \<noteq> current \<longrightarrow> R (xs ! i) (cs' ! i)) \<and> (Suc k + i = current \<longrightarrow> cs' ! i = cs ! i)"
      using Cons.IH [of "Suc k"] Cons.prems [of "Suc i" for i] by fastforce
    obtain c' where "(if k \<noteq> current then f c else Some c) = Some c'"
        "k \<noteq> current \<longrightarrow> R x c'" "k = current \<longrightarrow> c' = c"
      using Cons.prems [of 0] by (cases "k = current") auto
    then show ?case
      using cs' by (auto simp: nth_Cons split: nat.splits)
  qed simp
  then show ?thesis
    using that by blast
qed


section \<open>The children in step with their wrappers\<close>

locale merging = child: sorted_cursor usable pos "io_Valid Op" "io_key Op" "io_value Op"
    "io_SeekToFirst Op" "io_SeekToLast Op" "io_Next Op" "io_Prev Op" ikey_abs ikey_wf "io_Seek Op"
  for usable :: "(bytes \<times> bytes) list \<Rightarrow> 'it \<Rightarrow> bool" and pos :: "(bytes \<times> bytes) list \<Rightarrow> 'it \<Rightarrow> nat \<Rightarrow> bool"
    and Op :: "'it iter_ops"
begin

definition holds :: "(bytes \<times> bytes) list \<Rightarrow> 'it IteratorWrapper \<Rightarrow> bool" where
  "holds es w \<longleftrightarrow> (\<exists>it. iw_iter w = Some it \<and> usable es it)"

definition synced :: "(bytes \<times> bytes) list \<Rightarrow> 'it IteratorWrapper \<Rightarrow> nat \<Rightarrow> bool" where
  "synced es w k \<longleftrightarrow> (\<exists>it. iw_iter w = Some it \<and> pos es it k) \<and> k \<le> length es \<and> (iw_valid w \<longleftrightarrow> k < length es) \<and>
     (k < length es \<longrightarrow> iw_key w = fst (es ! k))"

lemma synced_holds: "synced es w k \<Longrightarrow> holds es w"
  using child.pos_usable by (auto simp: synced_def holds_def)

lemma synced_Update: "pos es it k \<Longrightarrow> synced es (iw_Update Op it w) k"
  using child.pos_valid [of es it k] child.pos_key [of es it k] child.pos_le [of es it k]
  by (auto simp: synced_def iw_Update_def Let_def)

lemma wrapper_first: "holds es w \<Longrightarrow> \<exists>w'. iw_SeekToFirst Op w = Some w' \<and> synced es w' 0"
  using child.first_pos synced_Update by (fastforce simp: holds_def iw_SeekToFirst_def)

lemma wrapper_last: "holds es w \<Longrightarrow> \<exists>w'. iw_SeekToLast Op w = Some w' \<and> synced es w' (length es - 1)"
  using child.last_pos synced_Update by (fastforce simp: holds_def iw_SeekToLast_def)

lemma wrapper_next:
  assumes "synced es w k" "k < length es"
  shows "\<exists>w'. iw_Next Op w = Some w' \<and> synced es w' (Suc k)"
proof -
  obtain it where it: "iw_iter w = Some it" "pos es it k"
    using assms(1) by (auto simp: synced_def)
  obtain it' where "io_Next Op it = Some it'" "pos es it' (Suc k)"
    using child.nxt_pos [OF it(2) assms(2)] by blast
  then show ?thesis
    using it synced_Update by (simp add: iw_Next_def)
qed

lemma wrapper_prev:
  assumes "synced es w k" "k < length es"
  shows "\<exists>w'. iw_Prev Op w = Some w' \<and> synced es w' (if k = 0 then length es else k - 1)"
proof -
  obtain it where it: "iw_iter w = Some it" "pos es it k"
    using assms(1) by (auto simp: synced_def)
  obtain it' where "io_Prev Op it = Some it'" "pos es it' (if k = 0 then length es else k - 1)"
    using child.prv_pos [OF it(2) assms(2)] by blast
  then show ?thesis
    using it synced_Update [of es it' _ w] by (simp add: iw_Prev_def)
qed

lemma wrapper_seek:
  assumes "holds es w" "sorted (map ekey_abs es)" "\<forall>k \<in> fst ` set es. ikey_wf k" "ikey_wf t"
  shows "\<exists>w'. iw_Seek Op t w = Some w' \<and> synced es w' (cut (\<lambda>x. x < ikey_abs t) es)"
  using child.seek_to [of es _ t] synced_Update assms
  by (fastforce simp: holds_def iw_Seek_def seek_pos_cut comp_def)

section \<open>Positions of the merge\<close>

definition m_usable :: "(bytes \<times> bytes) list \<Rightarrow> 'it Merageitor \<Rightarrow> bool" where
  "m_usable es m \<longleftrightarrow> (\<exists>ess. mergeable ess \<and> es = merged ess \<and> list_all2 holds ess (mi_children m))"

text \<open>
  At the merged entry \<open>p\<close>, every child is cut at its key: going forward, all children stand at their
  first entry that is not smaller, and going backward, all but the current one stand before it.
\<close>

definition m_at :: "(bytes \<times> bytes) list list \<Rightarrow> 'it Merageitor \<Rightarrow> nat \<Rightarrow> bool" where
  "m_at ess m p \<longleftrightarrow> mergeable ess \<and> list_all2 holds ess (mi_children m) \<and> p \<le> length (merged ess) \<and>
     (if p = length (merged ess) then mi_current m = None
      else \<exists>c < length ess. mi_current m = Some c \<and>
        (let Q = (\<lambda>x. x < ekey_abs (merged ess ! p))
         in cut Q (ess ! c) < length (ess ! c) \<and> ess ! c ! cut Q (ess ! c) = merged ess ! p \<and>
            (\<forall>i < length ess. synced (ess ! i) (mi_children m ! i)
               (if i = c \<or> mi_direction m = kForward then cut Q (ess ! i) else back_at Q (ess ! i)))))"

definition m_pos :: "(bytes \<times> bytes) list \<Rightarrow> 'it Merageitor \<Rightarrow> nat \<Rightarrow> bool" where
  "m_pos es m p \<longleftrightarrow> (\<exists>ess. es = merged ess \<and> m_at ess m p)"

lemma synced_all_holds:
  assumes "length cs = length ess" "\<And>i. i < length ess \<Longrightarrow> synced (ess ! i) (cs ! i) (f i)"
  shows "list_all2 holds ess cs"
  using assms synced_holds by (auto simp: list_all2_conv_all_nth)

text \<open>\<open>FindSmallest\<close> after all children have been cut at the same place.\<close>

lemma FindSmallest_at:
  assumes M: "mergeable ess" and Q: "lower Q" and len: "length (mi_children m) = length ess"
    and cs: "\<And>i. i < length ess \<Longrightarrow> synced (ess ! i) (mi_children m ! i) (cut Q (ess ! i))"
  obtains cur where "FindSmallest m = Some (m\<lparr>mi_current := cur\<rparr>)"
    "m_at ess (m\<lparr>mi_current := cur, mi_direction := kForward\<rparr>) (cut Q (merged ess))"
proof (cases "cut Q (merged ess) < length (merged ess)")
  case False
  then have e: "cut Q (merged ess) = length (merged ess)"
    using cut_le [of Q "merged ess"] by simp
  have "\<not> iw_valid (mi_children m ! i)" if "i \<in> set [0..<length (mi_children m)]" for i
    using cs [of i] none_after_cut [OF M Q e, of i] that len by (simp add: synced_def)
  then have "find_best (\<lambda>r. r < 0) (mi_children m) ([0..<length (mi_children m)]) None = Some None"
    by (rule find_best_none)
  then have "FindSmallest m = Some (m\<lparr>mi_current := None\<rparr>)"
    by (simp add: FindSmallest_def)
  then show ?thesis
    using that synced_all_holds [OF len cs] M e by (simp add: m_at_def)
next
  case True
  let ?p = "cut Q (merged ess)" and ?cs = "mi_children m"
  let ?K = "\<lambda>x. x < ekey_abs (merged ess ! ?p)"
  obtain c where c: "c < length ess" "cut Q (ess ! c) < length (ess ! c)"
      "ess ! c ! cut Q (ess ! c) = merged ess ! ?p"
      and least: "\<And>i. i < length ess \<Longrightarrow> i \<noteq> c \<Longrightarrow> cut Q (ess ! i) < length (ess ! i) \<Longrightarrow>
        ekey_abs (merged ess ! ?p) < ekey_abs (ess ! i ! cut Q (ess ! i))"
    using first_after_cut [OF M Q True] by blast
  have key: "iw_valid (?cs ! i) \<longleftrightarrow> cut Q (ess ! i) < length (ess ! i)"
      "iw_valid (?cs ! i) \<Longrightarrow> iw_key (?cs ! i) = fst (ess ! i ! cut Q (ess ! i)) \<and> ikey_wf (iw_key (?cs ! i))"
    if "i < length ess" for i
    using cs [OF that] child_wf [OF M that, OF nth_mem] by (auto simp: synced_def)
  have wf: "ikey_wf (iw_key (?cs ! i))" if "i < length ess" "iw_valid (?cs ! i)" for i
    using key(2) [OF that] by (rule conjunct2)
  have "find_best (\<lambda>r. r < 0) ?cs [0..<length ?cs] None = Some (Some c)"
  proof (rule find_best_unique [where S = "{..<length ess}"])
    fix i assume i: "i \<in> {..<length ess}" "iw_valid (?cs ! i)" "i \<noteq> c"
    then have "ikey_abs (iw_key (?cs ! c)) < ikey_abs (iw_key (?cs ! i))"
      using least [of i] key [of i] key [OF c(1)] c by auto
    moreover have "ikey_wf (iw_key (?cs ! c))" "ikey_wf (iw_key (?cs ! i))"
      using key [of i] key [OF c(1)] c i by auto
    ultimately show "key_cmp (\<lambda>r. r < 0) (iw_key (?cs ! c)) (iw_key (?cs ! i)) \<and>
        \<not> key_cmp (\<lambda>r. r < 0) (iw_key (?cs ! i)) (iw_key (?cs ! c))"
      by (simp add: key_cmp_less)
  qed (use key(1) wf c len in auto)
  then have f: "FindSmallest m = Some (m\<lparr>mi_current := Some c\<rparr>)"
    by (simp add: FindSmallest_def)
  have eq: "cut Q (ess ! i) = cut ?K (ess ! i)" if "i < length ess" for i
    using cut_at(1) [OF M True] that by (intro cut_eq_child [OF M Q]) simp_all
  have "m_at ess (m\<lparr>mi_current := Some c, mi_direction := kForward\<rparr>) ?p"
    using synced_all_holds [OF len cs] M True c cs eq by (simp add: m_at_def Let_def)
  then show ?thesis
    by (rule that [OF f])
qed

lemma FindLargest_at:
  assumes M: "mergeable ess" and Q: "lower Q" and len: "length (mi_children m) = length ess"
    and cs: "\<And>i. i < length ess \<Longrightarrow> synced (ess ! i) (mi_children m ! i) (back_at Q (ess ! i))"
  obtains cur where "FindLargest m = Some (m\<lparr>mi_current := cur\<rparr>)"
    "m_at ess (m\<lparr>mi_current := cur, mi_direction := kReverse\<rparr>) (back_at Q (merged ess))"
proof (cases "cut Q (merged ess) = 0")
  case True
  have "\<not> iw_valid (mi_children m ! i)" if "i \<in> set (rev [0..<length (mi_children m)])" for i
    using cs [of i] none_before_cut [OF M Q True, of i] that len by (simp add: synced_def back_at_def)
  then have "find_best (\<lambda>r. r > 0) (mi_children m) (rev [0..<length (mi_children m)]) None = Some None"
    by (rule find_best_none)
  then have "FindLargest m = Some (m\<lparr>mi_current := None\<rparr>)"
    by (simp add: FindLargest_def)
  then show ?thesis
    using that synced_all_holds [OF len cs] M True by (simp add: m_at_def back_at_def)
next
  case False
  let ?p = "cut Q (merged ess) - 1" and ?cs = "mi_children m"
  let ?K = "\<lambda>x. x < ekey_abs (merged ess ! ?p)" and ?L = "\<lambda>x. x \<le> ekey_abs (merged ess ! ?p)"
  have p: "?p < length (merged ess)" "Suc ?p = cut Q (merged ess)"
    using False cut_le [of Q "merged ess"] by simp_all
  obtain c where c: "c < length ess" "0 < cut Q (ess ! c)"
      "ess ! c ! (cut Q (ess ! c) - 1) = merged ess ! ?p"
      and greatest: "\<And>i. i < length ess \<Longrightarrow> i \<noteq> c \<Longrightarrow> 0 < cut Q (ess ! i) \<Longrightarrow>
        ekey_abs (ess ! i ! (cut Q (ess ! i) - 1)) < ekey_abs (merged ess ! ?p)"
    using last_before_cut [OF M Q] False by blast
  have il: "cut Q (ess ! i) - 1 < length (ess ! i)" if "0 < cut Q (ess ! i)" for i
    using cut_le [of Q "ess ! i"] that by simp
  have key: "iw_valid (?cs ! i) \<longleftrightarrow> 0 < cut Q (ess ! i)"
      "iw_valid (?cs ! i) \<Longrightarrow> iw_key (?cs ! i) = fst (ess ! i ! (cut Q (ess ! i) - 1)) \<and> ikey_wf (iw_key (?cs ! i))"
    if "i < length ess" for i
    using cs [OF that] child_wf [OF M that, OF nth_mem] il [of i] by (auto simp: synced_def back_at_def)
  have wf: "ikey_wf (iw_key (?cs ! i))" if "i < length ess" "iw_valid (?cs ! i)" for i
    using key(2) [OF that] by (rule conjunct2)
  have "find_best (\<lambda>r. r > 0) ?cs (rev [0..<length ?cs]) None = Some (Some c)"
  proof (rule find_best_unique [where S = "{..<length ess}"])
    fix i assume i: "i \<in> {..<length ess}" "iw_valid (?cs ! i)" "i \<noteq> c"
    then have "ikey_abs (iw_key (?cs ! i)) < ikey_abs (iw_key (?cs ! c))"
      using greatest [of i] key [of i] key [OF c(1)] c by auto
    moreover have "ikey_wf (iw_key (?cs ! c))" "ikey_wf (iw_key (?cs ! i))"
      using key [of i] key [OF c(1)] c i by auto
    ultimately show "key_cmp (\<lambda>r. r > 0) (iw_key (?cs ! c)) (iw_key (?cs ! i)) \<and>
        \<not> key_cmp (\<lambda>r. r > 0) (iw_key (?cs ! i)) (iw_key (?cs ! c))"
      by (simp add: key_cmp_greater)
  qed (use key(1) wf c len in auto)
  then have f: "FindLargest m = Some (m\<lparr>mi_current := Some c\<rparr>)"
    by (simp add: FindLargest_def)
  have up: "cut Q (ess ! i) = cut ?L (ess ! i)" if "i < length ess" for i
    using cut_at(2) [OF M p(1)] p(2) that by (intro cut_eq_child [OF M Q]) simp_all
  have here: "cut ?K (ess ! c) = cut Q (ess ! c) - 1"
  proof (rule cut_unique)
    fix q assume q: "q < length (ess ! c)"
    have "ekey_abs (ess ! c ! q) < ekey_abs (merged ess ! ?p) \<longleftrightarrow> q < cut Q (ess ! c) - 1"
      using child_strict [OF M c(1), of q "cut Q (ess ! c) - 1"] child_strict [OF M c(1), of "cut Q (ess ! c) - 1" q]
        c(3) q il [OF c(2)] by (cases q "cut Q (ess ! c) - 1" rule: linorder_cases) auto
    then show "q < cut ?K (ess ! c) \<longleftrightarrow> q < cut Q (ess ! c) - 1"
      using cut_iff [OF lowerI(1) child_sorted [OF M c(1)] q] by simp
  qed (use il [OF c(2)] in simp)
  have others: "back_at ?K (ess ! i) = back_at Q (ess ! i)" if i: "i < length ess" "i \<noteq> c" for i
  proof (rule back_cong, unfold up [OF i(1)], rule cut_cong)
    fix e assume "e \<in> set (ess ! i)"
    then have "ekey_abs e \<noteq> ekey_abs (merged ess ! ?p)"
      using same_key [OF M i(1) _ c(1) nth_mem [OF il [OF c(2)]], of e] c(3) i(2) by auto
    then show "(ekey_abs e < ekey_abs (merged ess ! ?p)) = (ekey_abs e \<le> ekey_abs (merged ess ! ?p))"
      by auto
  qed
  have cur: "synced (ess ! c) (?cs ! c) (cut Q (ess ! c) - 1)"
    using cs [OF c(1)] c(2) by (simp add: back_at_def)
  have "m_at ess (m\<lparr>mi_current := Some c, mi_direction := kReverse\<rparr>) ?p"
    using synced_all_holds [OF len cs] M p(1) c cs here others il [OF c(2)] cur
    by (auto simp: m_at_def Let_def)
  then show ?thesis
    using that [OF f] False by (simp add: back_at_def)
qed

text \<open>The operations.\<close>

lemma holds_len: "list_all2 holds ess cs \<Longrightarrow> length cs = length ess"
  by (simp add: list_all2_lengthD)

lemma seek_all:
  assumes M: "mergeable ess" and h: "list_all2 holds ess (mi_children m)" and Q: "lower Q"
    and f: "\<And>es w. es \<in> set ess \<Longrightarrow> holds es w \<Longrightarrow> \<exists>w'. f w = Some w' \<and> synced es w' (cut Q es)"
  obtains m' where "do { cs \<leftarrow> for_children f (mi_children m);
      m' \<leftarrow> FindSmallest (m\<lparr>mi_children := cs\<rparr>);
      Some (m'\<lparr>mi_direction := kForward\<rparr>) } = Some m'" "m_at ess m' (cut Q (merged ess))"
proof -
  have "list_all2 (\<lambda>es w. es \<in> set ess \<and> holds es w) ess (mi_children m)"
    using h by (auto simp: list_all2_conv_all_nth)
  then obtain cs where cs: "for_children f (mi_children m) = Some cs"
      "list_all2 (\<lambda>es w. synced es w (cut Q es)) ess cs"
    using for_children_rel [where f = f and R = "\<lambda>es w. synced es w (cut Q es)"] f by blast
  obtain cur where "FindSmallest (m\<lparr>mi_children := cs\<rparr>) = Some (m\<lparr>mi_children := cs, mi_current := cur\<rparr>)"
      "m_at ess (m\<lparr>mi_children := cs, mi_current := cur, mi_direction := kForward\<rparr>) (cut Q (merged ess))"
    using FindSmallest_at [OF M Q, of "m\<lparr>mi_children := cs\<rparr>"] cs(2) by (auto simp: list_all2_conv_all_nth)
  then show ?thesis
    using cs(1) by (intro that) simp_all
qed

lemma merge_first:
  assumes "mergeable ess" "list_all2 holds ess (mi_children m)"
  shows "\<exists>m'. Merageitor_SeekToFirst Op m = Some m' \<and> m_at ess m' 0"
proof -
  have "\<exists>w'. iw_SeekToFirst Op w = Some w' \<and> synced es w' (cut (\<lambda>x. False) es)" if "holds es w" for es w
    using wrapper_first [OF that] by (simp add: cut_const)
  then obtain m' where "Merageitor_SeekToFirst Op m = Some m'" "m_at ess m' (cut (\<lambda>x. False) (merged ess))"
    using seek_all [OF assms lowerI(4), of "iw_SeekToFirst Op"] unfolding Merageitor_SeekToFirst_def by metis
  then show ?thesis
    by (simp add: cut_const)
qed

lemma merge_seek:
  assumes M: "mergeable ess" "list_all2 holds ess (mi_children m)" and "ikey_wf t"
  shows "\<exists>m'. Merageitor_Seek Op t m = Some m' \<and> m_at ess m' (cut (\<lambda>x. x < ikey_abs t) (merged ess))"
proof -
  have "\<exists>w'. iw_Seek Op t w = Some w' \<and> synced es w' (cut (\<lambda>x. x < ikey_abs t) es)"
    if "es \<in> set ess" "holds es w" for es w
    using wrapper_seek [OF that(2)] M(1) that(1) assms(3) by (simp add: mergeable_def)
  then show ?thesis
    using seek_all [OF M lowerI(1), of "iw_Seek Op t"] unfolding Merageitor_Seek_def by metis
qed

lemma merge_last:
  assumes M: "mergeable ess" and h: "list_all2 holds ess (mi_children m)"
  shows "\<exists>m'. Merageitor_SeekToLast Op m = Some m' \<and> m_at ess m' (length (merged ess) - 1)"
proof -
  have "\<exists>w'. iw_SeekToLast Op w = Some w' \<and> synced es w' (back_at (\<lambda>x. True) es)" if "holds es w" for es w
    using wrapper_last [OF that] by (auto simp: back_at_def cut_const)
  then obtain cs where cs: "for_children (iw_SeekToLast Op) (mi_children m) = Some cs"
      "list_all2 (\<lambda>es w. synced es w (back_at (\<lambda>x. True) es)) ess cs"
    using for_children_rel [OF h, where f = "iw_SeekToLast Op" and R = "\<lambda>es w. synced es w (back_at (\<lambda>x. True) es)"]
    by blast
  obtain cur where "FindLargest (m\<lparr>mi_children := cs\<rparr>) = Some (m\<lparr>mi_children := cs, mi_current := cur\<rparr>)"
      "m_at ess (m\<lparr>mi_children := cs, mi_current := cur, mi_direction := kReverse\<rparr>)
        (back_at (\<lambda>x. True) (merged ess))"
    using FindLargest_at [OF M lowerI(3), of "m\<lparr>mi_children := cs\<rparr>"] cs(2) by (auto simp: list_all2_conv_all_nth)
  moreover have "back_at (\<lambda>x. True) (merged ess) = length (merged ess) - 1"
    by (simp add: back_at_def cut_const)
  ultimately show ?thesis
    using cs(1) by (simp add: Merageitor_SeekToLast_def)
qed

text \<open>The merged entry \<open>p\<close> is in one child only, so turning the other children around is seeking its key.\<close>

lemma m_at_current:
  assumes "m_at ess m p" "p < length (merged ess)"
  obtains c where "c < length ess" "mi_current m = Some c" "mergeable ess"
    "length (mi_children m) = length ess"
    "cut (\<lambda>x. x < ekey_abs (merged ess ! p)) (ess ! c) < length (ess ! c)"
    "ess ! c ! cut (\<lambda>x. x < ekey_abs (merged ess ! p)) (ess ! c) = merged ess ! p"
    "Merageitor_key m = fst (merged ess ! p)" "ikey_wf (Merageitor_key m)"
    "synced (ess ! c) (mi_children m ! c) (cut (\<lambda>x. x < ekey_abs (merged ess ! p)) (ess ! c))"
    "\<And>i. i < length ess \<Longrightarrow> i \<noteq> c \<Longrightarrow> holds (ess ! i) (mi_children m ! i) \<and>
      synced (ess ! i) (mi_children m ! i)
        (if mi_direction m = kForward then cut (\<lambda>x. x < ekey_abs (merged ess ! p)) (ess ! i)
         else back_at (\<lambda>x. x < ekey_abs (merged ess ! p)) (ess ! i))"
proof -
  let ?Q = "\<lambda>x. x < ekey_abs (merged ess ! p)"
  obtain c where c: "c < length ess" "mi_current m = Some c" "cut ?Q (ess ! c) < length (ess ! c)"
      "ess ! c ! cut ?Q (ess ! c) = merged ess ! p"
      "\<And>i. i < length ess \<Longrightarrow> synced (ess ! i) (mi_children m ! i)
               (if i = c \<or> mi_direction m = kForward then cut ?Q (ess ! i) else back_at ?Q (ess ! i))"
    and M: "mergeable ess" "list_all2 holds ess (mi_children m)"
    using assms by (auto simp: m_at_def Let_def)
  have sc: "synced (ess ! c) (mi_children m ! c) (cut ?Q (ess ! c))"
    using c(5) [OF c(1)] by simp
  have k: "Merageitor_key m = fst (merged ess ! p)"
    using sc c(2-4) by (simp add: Merageitor_key_def synced_def)
  have w: "ikey_wf (Merageitor_key m)"
    using merged_wf [OF M(1)] nth_mem [OF assms(2)] unfolding k by blast
  have o: "holds (ess ! i) (mi_children m ! i) \<and> synced (ess ! i) (mi_children m ! i)
      (if mi_direction m = kForward then cut ?Q (ess ! i) else back_at ?Q (ess ! i))"
    if "i < length ess" "i \<noteq> c" for i
    using c(5) [OF that(1)] that(2) synced_holds by auto
  show ?thesis
    by (rule that [OF c(1,2) M(1) holds_len [OF M(2)] c(3,4) k w sc o])
qed

lemma other_turned:
  assumes M: "mergeable ess" "i < length ess" "c < length ess" "i \<noteq> c"
    and e: "e \<in> set (ess ! c)" and h: "holds (ess ! i) w"
  shows "\<exists>w'. turn_forward Op (fst e) w = Some w' \<and> synced (ess ! i) w' (cut (\<lambda>x. x < ekey_abs e) (ess ! i))"
    "\<exists>w'. turn_backward Op (fst e) w = Some w' \<and> synced (ess ! i) w' (back_at (\<lambda>x. x < ekey_abs e) (ess ! i))"
proof -
  let ?k = "cut (\<lambda>x. x < ekey_abs e) (ess ! i)"
  have we: "ikey_wf (fst e)"
    using child_wf [OF M(1,3) e] .
  obtain w1 where w1: "iw_Seek Op (fst e) w = Some w1" "synced (ess ! i) w1 ?k"
    using wrapper_seek [OF h child_sorted [OF M(1,2)] _ we] child_wf [OF M(1,2)] by auto
  have "cmp_view (fst e) (iw_key w1) \<noteq> Some 0 \<and> cmp_view (fst e) (iw_key w1) \<noteq> None" if "iw_valid w1"
  proof -
    have k: "?k < length (ess ! i)" "iw_key w1 = fst (ess ! i ! ?k)"
      using w1(2) that by (auto simp: synced_def)
    then have "ekey_abs (ess ! i ! ?k) \<noteq> ekey_abs e" "ikey_wf (iw_key w1)"
      using same_key [OF M(1,2) nth_mem [OF k(1)] M(3) e] M(4) child_wf [OF M(1,2) nth_mem [OF k(1)]] by auto
    then show ?thesis
      using we k(2) by (auto simp: cmp_view_cmp cmp_abs)
  qed
  then show "\<exists>w'. turn_forward Op (fst e) w = Some w' \<and> synced (ess ! i) w' ?k"
    using w1 by (auto simp: turn_forward_def)
  show "\<exists>w'. turn_backward Op (fst e) w = Some w' \<and> synced (ess ! i) w' (back_at (\<lambda>x. x < ekey_abs e) (ess ! i))"
  proof (cases "iw_valid w1")
    case True
    then obtain w2 where "iw_Prev Op w1 = Some w2" "synced (ess ! i) w2 (if ?k = 0 then length (ess ! i) else ?k - 1)"
      using wrapper_prev [OF w1(2)] w1(2) by (auto simp: synced_def)
    then show ?thesis
      using True w1(1) by (simp add: turn_backward_def back_at_def)
  next
    case False
    then have k: "?k = length (ess ! i)"
      using w1(2) by (auto simp: synced_def)
    obtain w2 where "iw_SeekToLast Op w1 = Some w2" "synced (ess ! i) w2 (length (ess ! i) - 1)"
      using wrapper_last [OF synced_holds [OF w1(2)]] by auto
    then show ?thesis
      using False w1(1) k by (auto simp: turn_backward_def back_at_def)
  qed
qed

lemma current_direction: "m\<lparr>mi_direction := d, mi_current := c\<rparr> = m\<lparr>mi_current := c, mi_direction := d\<rparr>"
  by (cases m) simp

lemma merge_next:
  assumes at: "m_at ess m p" and p: "p < length (merged ess)"
  shows "\<exists>m'. Merageitor_Next Op m = Some m' \<and> m_at ess m' (Suc p)"
proof -
  let ?e = "merged ess ! p" and ?cs = "mi_children m"
  let ?Q = "\<lambda>x. x < ekey_abs ?e" and ?L = "\<lambda>x. x \<le> ekey_abs ?e"
  obtain c where c: "c < length ess" "mi_current m = Some c" "mergeable ess" "length ?cs = length ess"
      "cut ?Q (ess ! c) < length (ess ! c)" "ess ! c ! cut ?Q (ess ! c) = ?e"
      "Merageitor_key m = fst ?e" "synced (ess ! c) (?cs ! c) (cut ?Q (ess ! c))"
      and o: "\<And>i. i < length ess \<Longrightarrow> i \<noteq> c \<Longrightarrow> holds (ess ! i) (?cs ! i) \<and> synced (ess ! i) (?cs ! i)
        (if mi_direction m = kForward then cut ?Q (ess ! i) else back_at ?Q (ess ! i))"
    using m_at_current [OF at p] by metis
  have ec: "?e \<in> set (ess ! c)"
    using nth_mem [OF c(5)] c(6) by simp
  obtain cs where cs: "(if mi_direction m \<noteq> kForward
            then for_others (turn_forward Op (Merageitor_key m)) c 0 ?cs else Some ?cs) = Some cs"
      "length cs = length ess" "cs ! c = ?cs ! c"
      "\<And>i. i < length ess \<Longrightarrow> i \<noteq> c \<Longrightarrow> synced (ess ! i) (cs ! i) (cut ?Q (ess ! i))"
  proof (cases "mi_direction m = kForward")
    case True
    then show ?thesis
      using that [of ?cs] c(4) o by auto
  next
    case False
    obtain cs where "for_others (turn_forward Op (fst ?e)) c 0 ?cs = Some cs" "length cs = length ?cs"
        "\<And>i. i < length ?cs \<Longrightarrow> 0 + i \<noteq> c \<Longrightarrow> synced (ess ! i) (cs ! i) (cut ?Q (ess ! i))"
        "\<And>i. i < length ?cs \<Longrightarrow> 0 + i = c \<Longrightarrow> cs ! i = ?cs ! i"
      using for_others_rel [of ess ?cs 0 c "turn_forward Op (fst ?e)" "\<lambda>es w. synced es w (cut ?Q es)"]
        other_turned(1) [OF c(3) _ c(1) _ ec] o c(4) by auto
    then show ?thesis
      using that [of cs] False c(1,4,7) by auto
  qed
  have sc: "synced (ess ! c) (cs ! c) (cut ?Q (ess ! c))"
    using c(8) cs(3) by simp
  obtain w where w: "iw_Next Op (cs ! c) = Some w" "synced (ess ! c) w (Suc (cut ?Q (ess ! c)))"
    using wrapper_next [OF sc c(5)] by blast
  let ?m = "m\<lparr>mi_children := cs[c := w], mi_direction := kForward\<rparr>"
  have here: "Suc (cut ?Q (ess ! c)) = cut ?L (ess ! c)"
  proof (rule cut_unique [symmetric])
    fix q assume q: "q < length (ess ! c)"
    have "ekey_abs (ess ! c ! q) \<le> ekey_abs ?e \<longleftrightarrow> q < Suc (cut ?Q (ess ! c))"
      using child_strict [OF c(3,1), of q "cut ?Q (ess ! c)"] child_strict [OF c(3,1), of "cut ?Q (ess ! c)" q]
        c(5,6) q by (cases q "cut ?Q (ess ! c)" rule: linorder_cases) auto
    then show "q < cut ?L (ess ! c) \<longleftrightarrow> q < Suc (cut ?Q (ess ! c))"
      using cut_iff [OF lowerI(2) child_sorted [OF c(3,1)] q] by simp
  qed (use c(5) in simp)
  have others: "cut ?Q (ess ! i) = cut ?L (ess ! i)" if i: "i < length ess" "i \<noteq> c" for i
  proof (rule cut_cong)
    fix x assume "x \<in> set (ess ! i)"
    then have "ekey_abs x \<noteq> ekey_abs ?e"
      using same_key [OF c(3) i(1) _ c(1) ec, of x] i(2) by auto
    then show "(ekey_abs x < ekey_abs ?e) = (ekey_abs x \<le> ekey_abs ?e)"
      by auto
  qed
  have "synced (ess ! i) (mi_children ?m ! i) (cut ?L (ess ! i))" if "i < length ess" for i
  proof (cases "i = c")
    case True
    then show ?thesis
      using cs(2) w(2) here c(1) by simp
  next
    case False
    then show ?thesis
      using cs(4) [OF that False] others [OF that False] by simp
  qed
  then obtain cur where "FindSmallest ?m = Some (?m\<lparr>mi_current := cur\<rparr>)"
      "m_at ess (?m\<lparr>mi_current := cur, mi_direction := kForward\<rparr>) (cut ?L (merged ess))"
    using FindSmallest_at [OF c(3) lowerI(2), of ?m "ekey_abs ?e"] cs(2) by auto
  then show ?thesis
    using cs(1) c(2) w(1) cut_at(2) [OF c(3) p] by (simp add: Merageitor_Next_def current_direction)
qed

lemma merge_prev:
  assumes at: "m_at ess m p" and p: "p < length (merged ess)"
  shows "\<exists>m'. Merageitor_Prev Op m = Some m' \<and> m_at ess m' (if p = 0 then length (merged ess) else p - 1)"
proof -
  let ?e = "merged ess ! p" and ?cs = "mi_children m"
  let ?Q = "\<lambda>x. x < ekey_abs ?e"
  obtain c where c: "c < length ess" "mi_current m = Some c" "mergeable ess" "length ?cs = length ess"
      "cut ?Q (ess ! c) < length (ess ! c)" "ess ! c ! cut ?Q (ess ! c) = ?e"
      "Merageitor_key m = fst ?e" "synced (ess ! c) (?cs ! c) (cut ?Q (ess ! c))"
      and o: "\<And>i. i < length ess \<Longrightarrow> i \<noteq> c \<Longrightarrow> holds (ess ! i) (?cs ! i) \<and> synced (ess ! i) (?cs ! i)
        (if mi_direction m = kForward then cut ?Q (ess ! i) else back_at ?Q (ess ! i))"
    using m_at_current [OF at p] by metis
  have ec: "?e \<in> set (ess ! c)"
    using nth_mem [OF c(5)] c(6) by simp
  obtain cs where cs: "(if mi_direction m \<noteq> kReverse
            then for_others (turn_backward Op (Merageitor_key m)) c 0 ?cs else Some ?cs) = Some cs"
      "length cs = length ess" "cs ! c = ?cs ! c"
      "\<And>i. i < length ess \<Longrightarrow> i \<noteq> c \<Longrightarrow> synced (ess ! i) (cs ! i) (back_at ?Q (ess ! i))"
  proof (cases "mi_direction m = kReverse")
    case True
    then show ?thesis
      using that [of ?cs] c(4) o by auto
  next
    case False
    obtain cs where "for_others (turn_backward Op (fst ?e)) c 0 ?cs = Some cs" "length cs = length ?cs"
        "\<And>i. i < length ?cs \<Longrightarrow> 0 + i \<noteq> c \<Longrightarrow> synced (ess ! i) (cs ! i) (back_at ?Q (ess ! i))"
        "\<And>i. i < length ?cs \<Longrightarrow> 0 + i = c \<Longrightarrow> cs ! i = ?cs ! i"
      using for_others_rel [of ess ?cs 0 c "turn_backward Op (fst ?e)" "\<lambda>es w. synced es w (back_at ?Q es)"]
        other_turned(2) [OF c(3) _ c(1) _ ec] o c(4) by auto
    then show ?thesis
      using that [of cs] False c(1,4,7) by auto
  qed
  have sc: "synced (ess ! c) (cs ! c) (cut ?Q (ess ! c))"
    using c(8) cs(3) by simp
  obtain w where w: "iw_Prev Op (cs ! c) = Some w" "synced (ess ! c) w (back_at ?Q (ess ! c))"
    using wrapper_prev [OF sc c(5)] by (auto simp: back_at_def)
  let ?m = "m\<lparr>mi_children := cs[c := w], mi_direction := kReverse\<rparr>"
  have "synced (ess ! i) (mi_children ?m ! i) (back_at ?Q (ess ! i))" if "i < length ess" for i
    using cs(2,4) w(2) that by (cases "i = c") simp_all
  then obtain cur where "FindLargest ?m = Some (?m\<lparr>mi_current := cur\<rparr>)"
      "m_at ess (?m\<lparr>mi_current := cur, mi_direction := kReverse\<rparr>) (back_at ?Q (merged ess))"
    using FindLargest_at [OF c(3) lowerI(1), of ?m "ekey_abs ?e"] cs(2) by auto
  then show ?thesis
    using cs(1) c(2) w(1) cut_at(1) [OF c(3) p] by (auto simp: Merageitor_Prev_def back_at_def current_direction)
qed

sublocale merged: sorted_cursor m_usable m_pos Merageitor_Valid Merageitor_key "Merageitor_value Op"
  "Merageitor_SeekToFirst Op" "Merageitor_SeekToLast Op" "Merageitor_Next Op" "Merageitor_Prev Op"
  ikey_abs ikey_wf "Merageitor_Seek Op"
proof unfold_locales
  fix es m j
  assume pos: "m_pos es m j"
  then obtain ess where ess: "es = merged ess" "m_at ess m j"
    by (auto simp: m_pos_def)
  show "m_usable es m" "j \<le> length es" "Merageitor_Valid m = (j < length es)"
    using ess by (auto simp: m_usable_def m_at_def Merageitor_Valid_def Let_def split: if_splits)
  assume j: "j < length es"
  then have p: "j < length (merged ess)"
    using ess(1) by simp
  obtain c where c: "mi_current m = Some c" "Merageitor_key m = fst (merged ess ! j)"
      "cut (\<lambda>x. x < ekey_abs (merged ess ! j)) (ess ! c) < length (ess ! c)"
      "ess ! c ! cut (\<lambda>x. x < ekey_abs (merged ess ! j)) (ess ! c) = merged ess ! j"
      "synced (ess ! c) (mi_children m ! c) (cut (\<lambda>x. x < ekey_abs (merged ess ! j)) (ess ! c))"
    using m_at_current [OF ess(2) p] by metis
  show "Merageitor_key m = fst (es ! j)" "Merageitor_value Op m = Some (snd (es ! j))"
    using c ess(1) child.pos_val by (auto simp: Merageitor_value_def iw_value_def synced_def)
  show "\<exists>m'. Merageitor_Next Op m = Some m' \<and> m_pos es m' (Suc j)"
    using merge_next [OF ess(2) p] ess(1) by (auto simp: m_pos_def)
  show "\<exists>m'. Merageitor_Prev Op m = Some m' \<and> m_pos es m' (if j = 0 then length es else j - 1)"
    using merge_prev [OF ess(2) p] ess(1) by (metis m_pos_def)
next
  fix es m
  assume "m_usable es m"
  then obtain ess where ess: "es = merged ess" "mergeable ess" "list_all2 holds ess (mi_children m)"
    by (auto simp: m_usable_def)
  show "\<exists>m'. Merageitor_SeekToFirst Op m = Some m' \<and> m_pos es m' 0"
    using merge_first [OF ess(2,3)] ess(1) by (auto simp: m_pos_def)
  show "\<exists>m'. Merageitor_SeekToLast Op m = Some m' \<and> m_pos es m' (length es - 1)"
    using merge_last [OF ess(2,3)] ess(1) by (auto simp: m_pos_def)
  show "\<exists>m'. Merageitor_Seek Op t m = Some m' \<and> m_pos es m' (seek_pos ikey_abs es t)" if "ikey_wf t" for t
    using merge_seek [OF ess(2,3) that] ess(1) by (auto simp: m_pos_def seek_pos_cut)
qed

lemma mk_Merageitor_usable:
  assumes "mergeable ess" "list_all2 usable ess its"
  shows "m_usable (merged ess) (mk_Merageitor Op (map Some its))"
proof -
  have "holds es (iw_Set Op (Some it) mk_IteratorWrapper)" if "usable es it" for es it
    using that by (simp add: holds_def iw_Set_def iw_Update_def Let_def)
  then have "list_all2 holds ess (mi_children (mk_Merageitor Op (map Some its)))"
    using assms(2) by (auto simp: mk_Merageitor_def list_all2_conv_all_nth)
  then show ?thesis
    using assms(1) by (auto simp: m_usable_def)
qed

end

section \<open>Merging blocks\<close>

text \<open>The iterators of blocks; their \<open>state\<close> is ok on every path of the model.\<close>

definition block_ops :: "Iter iter_ops" where
  "block_ops = \<lparr>io_Valid = Iter_Valid, io_key = Iter_key, io_value = Iter_value,
     io_SeekToFirst = Iter_SeekToFirst, io_SeekToLast = Iter_SeekToLast, io_Seek = Iter_Seek,
     io_Next = Iter_Next, io_Prev = Iter_Prev, io_state = (\<lambda>it. kok)\<rparr>"

interpretation block_merge: merging block_usable block_pos block_ops
  unfolding merging_def block_ops_def iter_ops.simps by (rule block_cursor.sorted_cursor_axioms)

definition block_merger :: "int \<Rightarrow> (bytes \<times> bytes) list list \<Rightarrow> Iter Merageitor option" where
  "block_merger interval ess = do {
     its \<leftarrow> those (map (\<lambda>es. open_iter (build_block interval es)) ess);
     Some (mk_Merageitor block_ops (map Some its)) }"

lemma block_merger_usable:
  assumes "mergeable ess" "\<forall>es \<in> set ess. length (build_block interval es) < 2 ^ 32"
  obtains m where "block_merger interval ess = Some m" "block_merge.m_usable (merged ess) m"
proof -
  have "\<exists>its. those (map (\<lambda>es. open_iter (build_block interval es)) ess) = Some its \<and> list_all2 block_usable ess its"
    using assms(2)
  proof (induction ess)
    case (Cons es ess)
    obtain it where "open_iter (build_block interval es) = Some it" "block_usable es it"
      using open_iter_usable [of interval es] Cons.prems by auto
    then show ?case
      using Cons by auto
  qed simp
  then show ?thesis
    using that block_merge.mk_Merageitor_usable [OF assms(1)] by (auto simp: block_merger_def)
qed

section \<open>Properties\<close>

abbreviation merger_collect :: "nat \<Rightarrow> Iter Merageitor \<Rightarrow> (bytes \<times> bytes) list option" where
  "merger_collect \<equiv> collect Merageitor_Valid Merageitor_key (Merageitor_value block_ops) (Merageitor_Next block_ops)"

abbreviation merger_collect_back :: "nat \<Rightarrow> Iter Merageitor \<Rightarrow> (bytes \<times> bytes) list option" where
  "merger_collect_back \<equiv> collect Merageitor_Valid Merageitor_key (Merageitor_value block_ops) (Merageitor_Prev block_ops)"

text \<open>
  C20: The merging iterator merges: over the iterators of any number of blocks whose entries are in key order and
  whose internal keys all differ, \<open>SeekToFirst\<close> and \<open>Next\<close> visit exactly the entries of all blocks in key order and
  then become invalid, \<open>SeekToLast\<close> and \<open>Prev\<close> visit them in the opposite order, and \<open>Seek\<close> finds the first entry
  of all blocks at or after its target.  Every call returns, and none reads outside a block.
\<close>

theorem Merageitor_merges:
  assumes "mergeable ess" "\<forall>es \<in> set ess. length (build_block interval es) < 2 ^ 32"
    and "length (merged ess) \<le> n" "ikey_wf t"
  shows "\<exists>m first back at. block_merger interval ess = Some m \<and>
    Merageitor_SeekToFirst block_ops m = Some first \<and> merger_collect n first = Some (merged ess) \<and>
    Merageitor_SeekToLast block_ops m = Some back \<and> merger_collect_back n back = Some (rev (merged ess)) \<and>
    Merageitor_Seek block_ops t m = Some at \<and>
    (if Merageitor_Valid at then map_option (\<lambda>v. (Merageitor_key at, v)) (Merageitor_value block_ops at) else None) =
      List.find (\<lambda>e. ikey_abs t \<le> ikey_abs (fst e)) (merged ess)"
proof -
  obtain m where m: "block_merger interval ess = Some m" "block_merge.m_usable (merged ess) m"
    by (rule block_merger_usable [OF assms(1,2)])
  have so: "sorted (map (ikey_abs \<circ> fst) (merged ess))"
    using merged_sorted [of ess] by (simp add: comp_def)
  show ?thesis
    using m(1) block_merge.merged.collect_all [OF m(2) assms(3)]
      block_merge.merged.collect_back_all [OF m(2) assms(3)]
      block_merge.merged.seek_find [OF m(2) so merged_wf [OF assms(1)] assms(4)] by metis
qed

definition sample_children :: "(bytes \<times> bytes) list list" where
  "sample_children = [[(mk_InternalKey [2] 5 kTypeValue, [1])],
     [(mk_InternalKey [1] 3 kTypeValue, [2]), (mk_InternalKey [3] 4 kTypeValue, [3])]]"

lemma sample_children_ok:
  "mergeable sample_children" "\<forall>es \<in> set sample_children. length (build_block 1 es) < 2 ^ 32"
  "length (merged sample_children) = 3"
  by (simp_all add: mergeable_def merged_def sample_children_def less_eq_skey_def
      build_block_def Blockbuilder_Finish_def Blockbuilder_Add_def mk_Blockbuilder_def
      PutVarint32_def PutFixed32_def EncodeVarint32_small Let_def)

theorem Merageitor_merges_witness:
  "\<exists>m first back at. block_merger 1 sample_children = Some m \<and>
    Merageitor_SeekToFirst block_ops m = Some first \<and>
    merger_collect 3 first = Some (merged sample_children) \<and>
    Merageitor_SeekToLast block_ops m = Some back \<and>
    merger_collect_back 3 back = Some (rev (merged sample_children)) \<and>
    Merageitor_Seek block_ops (mk_InternalKey [2] 9 kTypeValue) m = Some at \<and>
    (if Merageitor_Valid at then map_option (\<lambda>v. (Merageitor_key at, v)) (Merageitor_value block_ops at) else None) =
      List.find (\<lambda>e. ikey_abs (mk_InternalKey [2] 9 kTypeValue) \<le> ikey_abs (fst e)) (merged sample_children)"
  by (rule Merageitor_merges [OF sample_children_ok(1,2)]) (simp_all add: sample_children_ok(3))

text \<open>
  Turning round: after \<open>Seek\<close> has found an entry that is not the last, \<open>Next\<close> shows its successor among the entries of
  all blocks, \<open>Prev\<close> comes back to the entry found (every other child is sought to the key again and moved before it) and
  \<open>Next\<close> goes to the successor once more; no entry is skipped or repeated when the direction changes.
\<close>

theorem Merageitor_turns:
  assumes "mergeable ess" "\<forall>es \<in> set ess. length (build_block interval es) < 2 ^ 32" "ikey_wf t"
    and "Suc (seek_pos ikey_abs (merged ess) t) < length (merged ess)"
  shows "\<exists>m at m1 m2 m3. block_merger interval ess = Some m \<and> Merageitor_Seek block_ops t m = Some at \<and>
    Merageitor_Next block_ops at = Some m1 \<and> Merageitor_Prev block_ops m1 = Some m2 \<and>
    Merageitor_Next block_ops m2 = Some m3 \<and>
    (Merageitor_key at, Merageitor_value block_ops at) =
      map_prod id Some (merged ess ! seek_pos ikey_abs (merged ess) t) \<and>
    (Merageitor_key m1, Merageitor_value block_ops m1) =
      map_prod id Some (merged ess ! Suc (seek_pos ikey_abs (merged ess) t)) \<and>
    (Merageitor_key m2, Merageitor_value block_ops m2) = (Merageitor_key at, Merageitor_value block_ops at) \<and>
    (Merageitor_key m3, Merageitor_value block_ops m3) = (Merageitor_key m1, Merageitor_value block_ops m1)"
proof -
  let ?es = "merged ess" and ?p = "seek_pos ikey_abs (merged ess) t"
  note P = block_merge.merged.pos_key block_merge.merged.pos_val
  obtain m where m: "block_merger interval ess = Some m" "block_merge.m_usable ?es m"
    by (rule block_merger_usable [OF assms(1,2)])
  have so: "sorted (map (ikey_abs \<circ> fst) ?es)"
    using merged_sorted [of ess] by (simp add: comp_def)
  obtain at where at: "Merageitor_Seek block_ops t m = Some at" "block_merge.m_pos ?es at ?p"
    using block_merge.merged.seek_to [OF m(2) so merged_wf [OF assms(1)] assms(3)] by blast
  have p: "?p < length ?es"
    using assms(4) by simp
  obtain m1 where m1: "Merageitor_Next block_ops at = Some m1" "block_merge.m_pos ?es m1 (Suc ?p)"
    using block_merge.merged.nxt_pos [OF at(2) p] by blast
  obtain m2 where m2: "Merageitor_Prev block_ops m1 = Some m2" "block_merge.m_pos ?es m2 ?p"
    using block_merge.merged.prv_pos [OF m1(2) assms(4)] by auto
  obtain m3 where m3: "Merageitor_Next block_ops m2 = Some m3" "block_merge.m_pos ?es m3 (Suc ?p)"
    using block_merge.merged.nxt_pos [OF m2(2) p] by blast
  show ?thesis
    by (intro exI conjI, rule m(1), rule at(1), rule m1(1), rule m2(1), rule m3(1))
      (simp_all add: P [OF at(2)] P [OF m1(2)] P [OF m2(2)] P [OF m3(2)] p assms(4) map_prod_def split: prod.splits)
qed

theorem Merageitor_turns_witness:
  "\<exists>m at m1 m2 m3. block_merger 1 sample_children = Some m \<and>
    Merageitor_Seek block_ops (mk_InternalKey [1, 5] 9 kTypeValue) m = Some at \<and>
    Merageitor_Next block_ops at = Some m1 \<and> Merageitor_Prev block_ops m1 = Some m2 \<and>
    Merageitor_Next block_ops m2 = Some m3 \<and>
    (Merageitor_key at, Merageitor_value block_ops at) =
      map_prod id Some (merged sample_children ! seek_pos ikey_abs (merged sample_children) (mk_InternalKey [1, 5] 9 kTypeValue)) \<and>
    (Merageitor_key m1, Merageitor_value block_ops m1) =
      map_prod id Some (merged sample_children ! Suc (seek_pos ikey_abs (merged sample_children) (mk_InternalKey [1, 5] 9 kTypeValue))) \<and>
    (Merageitor_key m2, Merageitor_value block_ops m2) = (Merageitor_key at, Merageitor_value block_ops at) \<and>
    (Merageitor_key m3, Merageitor_value block_ops m3) = (Merageitor_key m1, Merageitor_value block_ops m1)"
  by (rule Merageitor_turns [OF sample_children_ok(1,2)])
    (simp_all add: sample_children_def merged_def seek_pos_def less_eq_skey_def less_skey_def)

end
