(* ===== verification/TwoLevel.thy ===== *)
theory TwoLevel
  imports Merging
begin

text \<open>
  The two-level iterator of src/src/db/iterator.cpp over an index iterator that is a sorted cursor:
  its loops end, and it never shows an entry.
\<close>

section \<open>The loops over an index\<close>

definition data_null :: "('i, 'd) TweLevelIterator \<Rightarrow> bool" where
  "data_null t \<longleftrightarrow> iw_iter (tl_data_iter t) = None \<and> \<not> iw_valid (tl_data_iter t)"

lemma data_null_simps:
  assumes "data_null t"
  shows "tl_clear t = t" "SetDataIterator DO iter t = t" "on_data f t = Some t"
    "\<not> TweLevelIterator_Valid t"
  using assms by (simp_all add: data_null_def tl_clear_def SetDataIterator_def on_data_def
      TweLevelIterator_Valid_def)

lemma data_null_update [simp]:
  "data_null (t\<lparr>tl_index_iter := w\<rparr>) = data_null t" "data_null (t\<lparr>tl_data_block_handle := h\<rparr>) = data_null t"
  by (simp_all add: data_null_def)

context merging
begin

lemma InitDataBlock_null:
  assumes "data_null t" "synced es (tl_index_iter t) k" "\<forall>h. block_function h \<noteq> None"
  shows "\<exists>h. InitDataBlock Op DO block_function t = Some (t\<lparr>tl_data_block_handle := h\<rparr>)"
proof (cases "k < length es")
  case True
  then obtain h where h: "iw_value Op (tl_index_iter t) = Some h" "iw_valid (tl_index_iter t)"
    using assms(2) child.pos_val by (auto simp: synced_def iw_value_def)
  obtain iter where "block_function h = Some iter"
    using assms(3) by blast
  then show ?thesis
    using h assms(1) data_null_simps(2) [of "t\<lparr>tl_data_block_handle := h\<rparr>"]
    by (auto simp: InitDataBlock_def data_null_def)
next
  case False
  then show ?thesis
    using assms(2) data_null_simps(1) [OF assms(1)]
    by (intro exI [of _ "tl_data_block_handle t"]) (simp add: InitDataBlock_def synced_def)
qed

text \<open>One round of a loop moves the index and leaves the data iterator null.\<close>

lemma SkipEmptyDataBlocks_step:
  assumes t: "data_null t" "synced es (tl_index_iter t) k" "k < length es"
    and bf: "\<forall>h. block_function h \<noteq> None" and w: "step (tl_index_iter t) = Some w" "synced es w k'"
  obtains t' where "SkipEmptyDataBlocks step start Op DO block_function t =
      SkipEmptyDataBlocks step start Op DO block_function t'"
    "data_null t'" "tl_index_iter t' = w"
proof -
  obtain h where h: "InitDataBlock Op DO block_function (t\<lparr>tl_index_iter := w\<rparr>) =
      Some (t\<lparr>tl_index_iter := w, tl_data_block_handle := h\<rparr>)"
    using InitDataBlock_null [where t = "t\<lparr>tl_index_iter := w\<rparr>", OF _ _ bf] t(1) w(2) by fastforce
  have d: "on_data start (t\<lparr>tl_index_iter := w, tl_data_block_handle := h\<rparr>) =
      Some (t\<lparr>tl_index_iter := w, tl_data_block_handle := h\<rparr>)"
    using t(1) by (intro data_null_simps(3)) simp
  show ?thesis
    by (rule that [of "t\<lparr>tl_index_iter := w, tl_data_block_handle := h\<rparr>"],
        subst SkipEmptyDataBlocks.simps)
      (use t w(1) h d in \<open>simp_all add: on_index_def data_null_def synced_def\<close>)
qed

lemma SkipEmptyDataBlocks_stop:
  "data_null t \<Longrightarrow> synced es (tl_index_iter t) (length es) \<Longrightarrow>
    SkipEmptyDataBlocks step start Op DO block_function t = Some t"
  by (subst SkipEmptyDataBlocks.simps) (simp add: synced_def data_null_simps(1) data_null_def tl_clear_def)

lemma SkipEmptyDataBlocksForward_null:
  assumes bf: "\<forall>h. block_function h \<noteq> None"
  shows "data_null t \<Longrightarrow> synced es (tl_index_iter t) k \<Longrightarrow>
    \<exists>t'. SkipEmptyDataBlocksForward Op DO block_function t = Some t' \<and> data_null t' \<and>
      synced es (tl_index_iter t') (length es)"
proof (induction "length es - k" arbitrary: t k)
  case 0
  then have "k = length es"
    by (simp add: synced_def)
  then show ?case
    using 0 SkipEmptyDataBlocks_stop [of t es] by (simp add: SkipEmptyDataBlocksForward_def)
next
  case (Suc n)
  then have k: "k < length es"
    by simp
  obtain w where w: "iw_Next Op (tl_index_iter t) = Some w" "synced es w (Suc k)"
    using wrapper_next [OF Suc.prems(2) k] by blast
  obtain t' where "SkipEmptyDataBlocks (iw_Next Op) (iw_SeekToFirst DO) Op DO block_function t =
      SkipEmptyDataBlocks (iw_Next Op) (iw_SeekToFirst DO) Op DO block_function t'"
      "data_null t'" "tl_index_iter t' = w"
    by (rule SkipEmptyDataBlocks_step [where step = "iw_Next Op", OF Suc.prems k bf w])
  then show ?case
    using Suc.hyps(1) [of "Suc k" t'] Suc.hyps(2) w(2) by (simp add: SkipEmptyDataBlocksForward_def)
qed

lemma SkipEmptyDataBlocksBackward_null:
  assumes bf: "\<forall>h. block_function h \<noteq> None"
  shows "data_null t \<Longrightarrow> synced es (tl_index_iter t) k \<Longrightarrow>
    \<exists>t'. SkipEmptyDataBlocksBackward Op DO block_function t = Some t' \<and> data_null t' \<and>
      synced es (tl_index_iter t') (length es)"
proof (induction k arbitrary: t rule: less_induct)
  case (less k)
  show ?case
  proof (cases "k < length es")
    case False
    then have "k = length es"
      using less.prems(2) by (simp add: synced_def)
    then show ?thesis
      using less.prems SkipEmptyDataBlocks_stop [of t es] by (simp add: SkipEmptyDataBlocksBackward_def)
  next
    case True
    obtain w where w: "iw_Prev Op (tl_index_iter t) = Some w" "synced es w (if k = 0 then length es else k - 1)"
      using wrapper_prev [OF less.prems(2) True] by blast
    obtain t' where t': "SkipEmptyDataBlocks (iw_Prev Op) (iw_SeekToLast DO) Op DO block_function t =
        SkipEmptyDataBlocks (iw_Prev Op) (iw_SeekToLast DO) Op DO block_function t'"
        "data_null t'" "tl_index_iter t' = w"
      by (rule SkipEmptyDataBlocks_step [where step = "iw_Prev Op", OF less.prems True bf w])
    show ?thesis
    proof (cases "k = 0")
      case True
      then show ?thesis
        using t' w(2) SkipEmptyDataBlocks_stop [of t' es] by (auto simp: SkipEmptyDataBlocksBackward_def)
    next
      case False
      then show ?thesis
        using less.IH [of "k - 1" t'] t' w(2) by (simp add: SkipEmptyDataBlocksBackward_def)
    qed
  qed
qed

text \<open>A two-level iterator over a usable index, before and after every seek.\<close>

definition null_over :: "(bytes \<times> bytes) list \<Rightarrow> ('it, 'd) TweLevelIterator \<Rightarrow> bool" where
  "null_over es t \<longleftrightarrow> data_null t \<and> holds es (tl_index_iter t)"

lemma mk_TweLevelIterator_null: "usable es it \<Longrightarrow> null_over es (mk_TweLevelIterator Op (Some it))"
  by (simp add: null_over_def mk_TweLevelIterator_def data_null_def mk_IteratorWrapper_def
      holds_def iw_Set_def iw_Update_def Let_def)

lemma seek_null:
  assumes "null_over es t" "\<forall>h. block_function h \<noteq> None" "f (tl_index_iter t) = Some w" "synced es w k"
  shows "\<exists>t'. do { t1 \<leftarrow> on_index f t; t2 \<leftarrow> InitDataBlock Op DO block_function t1; t3 \<leftarrow> on_data g t2;
      SkipEmptyDataBlocksForward Op DO block_function t3 } = Some t' \<and> null_over es t'"
    "\<exists>t'. do { t1 \<leftarrow> on_index f t; t2 \<leftarrow> InitDataBlock Op DO block_function t1; t3 \<leftarrow> on_data g t2;
      SkipEmptyDataBlocksBackward Op DO block_function t3 } = Some t' \<and> null_over es t'"
proof -
  let ?t = "t\<lparr>tl_index_iter := w\<rparr>"
  have n: "data_null ?t" "synced es (tl_index_iter ?t) k"
    using assms(1,4) by (simp_all add: null_over_def)
  obtain h where h: "InitDataBlock Op DO block_function ?t = Some (?t\<lparr>tl_data_block_handle := h\<rparr>)"
    using InitDataBlock_null [OF n assms(2)] by blast
  have d: "on_data g (?t\<lparr>tl_data_block_handle := h\<rparr>) = Some (?t\<lparr>tl_data_block_handle := h\<rparr>)"
    using n(1) by (intro data_null_simps(3)) simp
  show "\<exists>t'. do { t1 \<leftarrow> on_index f t; t2 \<leftarrow> InitDataBlock Op DO block_function t1; t3 \<leftarrow> on_data g t2;
      SkipEmptyDataBlocksForward Op DO block_function t3 } = Some t' \<and> null_over es t'"
    using SkipEmptyDataBlocksForward_null [OF assms(2), of "?t\<lparr>tl_data_block_handle := h\<rparr>" es k DO] n h d assms(3)
      synced_holds by (auto simp: on_index_def null_over_def)
  show "\<exists>t'. do { t1 \<leftarrow> on_index f t; t2 \<leftarrow> InitDataBlock Op DO block_function t1; t3 \<leftarrow> on_data g t2;
      SkipEmptyDataBlocksBackward Op DO block_function t3 } = Some t' \<and> null_over es t'"
    using SkipEmptyDataBlocksBackward_null [OF assms(2), of "?t\<lparr>tl_data_block_handle := h\<rparr>" es k DO] n h d assms(3)
      synced_holds by (auto simp: on_index_def null_over_def)
qed

lemma TweLevelIterator_seeks:
  assumes "null_over es t" "\<forall>h. block_function h \<noteq> None"
  shows "\<exists>t'. TweLevelIterator_SeekToFirst Op DO block_function t = Some t' \<and> null_over es t'"
    "\<exists>t'. TweLevelIterator_SeekToLast Op DO block_function t = Some t' \<and> null_over es t'"
    "sorted (map ekey_abs es) \<Longrightarrow> \<forall>k \<in> fst ` set es. ikey_wf k \<Longrightarrow> ikey_wf target \<Longrightarrow>
      \<exists>t'. TweLevelIterator_Seek Op DO block_function target t = Some t' \<and> null_over es t'"
proof -
  have h: "holds es (tl_index_iter t)"
    using assms(1) by (simp add: null_over_def)
  show "\<exists>t'. TweLevelIterator_SeekToFirst Op DO block_function t = Some t' \<and> null_over es t'"
    using wrapper_first [OF h] seek_null(1) [OF assms] unfolding TweLevelIterator_SeekToFirst_def by blast
  show "\<exists>t'. TweLevelIterator_SeekToLast Op DO block_function t = Some t' \<and> null_over es t'"
    using wrapper_last [OF h] seek_null(2) [OF assms] unfolding TweLevelIterator_SeekToLast_def by blast
  assume "sorted (map ekey_abs es)" "\<forall>k \<in> fst ` set es. ikey_wf k" "ikey_wf target"
  then show "\<exists>t'. TweLevelIterator_Seek Op DO block_function target t = Some t' \<and> null_over es t'"
    using wrapper_seek [OF h] seek_null(1) [OF assms] unfolding TweLevelIterator_Seek_def by blast
qed

end

section \<open>Properties\<close>

text \<open>
  The two-level iterator over the index block of a table: every seek returns, whatever the data blocks are
  (the loops over empty blocks visit each index entry at most once), and the iterator is then not valid, also when all
  data blocks have entries: \<open>data_iter\<close> starts null, and \<open>SetDataIterator\<close> only replaces an
  iterator that is not null.
\<close>

theorem TweLevelIterator_returns_empty:
  assumes "length (build_block interval es) < 2 ^ 32" "sorted (map (ikey_abs \<circ> fst) es)"
    and "\<forall>k \<in> fst ` set es. ikey_wf k" "ikey_wf target" "\<forall>h. block_function h \<noteq> None"
  shows "\<exists>it first last at. open_iter (build_block interval es) = Some it \<and>
    TweLevelIterator_SeekToFirst block_ops DO block_function (mk_TweLevelIterator block_ops (Some it)) = Some first \<and>
    TweLevelIterator_SeekToLast block_ops DO block_function first = Some last \<and>
    TweLevelIterator_Seek block_ops DO block_function target last = Some at \<and>
    \<not> TweLevelIterator_Valid first \<and> \<not> TweLevelIterator_Valid last \<and> \<not> TweLevelIterator_Valid at"
proof -
  note S = block_merge.TweLevelIterator_seeks [where block_function = block_function and DO = DO]
  have invalid: "\<not> TweLevelIterator_Valid t" if "block_merge.null_over es t" for t :: "(Iter, 'a) TweLevelIterator"
    using that data_null_simps(4) unfolding block_merge.null_over_def by blast
  obtain it where it: "open_iter (build_block interval es) = Some it" "block_usable es it"
    by (rule open_iter_usable [OF assms(1)])
  obtain first where first: "TweLevelIterator_SeekToFirst block_ops DO block_function
      (mk_TweLevelIterator block_ops (Some it)) = Some first" "block_merge.null_over es first"
    using S(1) block_merge.mk_TweLevelIterator_null [OF it(2)] assms(5) by blast
  obtain last where last: "TweLevelIterator_SeekToLast block_ops DO block_function first = Some last"
      "block_merge.null_over es last"
    using S(2) [OF first(2)] assms(5) by blast
  obtain at where at: "TweLevelIterator_Seek block_ops DO block_function target last = Some at"
      "block_merge.null_over es at"
    using S(3) [OF last(2) assms(5) _ assms(3,4)] assms(2) unfolding comp_def by blast
  show ?thesis
    using it(1) first last at invalid by blast
qed

theorem TweLevelIterator_returns_empty_witness:
  "\<exists>it first last at. open_iter (build_block 1 [(mk_InternalKey [1] 5 kTypeValue, [9]), (mk_InternalKey [2] 4 kTypeValue, [8])]) = Some it \<and>
    TweLevelIterator_SeekToFirst block_ops block_ops (\<lambda>h. Some (open_iter (build_block 1 [([1], [2])])))
      (mk_TweLevelIterator block_ops (Some it)) = Some first \<and>
    TweLevelIterator_SeekToLast block_ops block_ops (\<lambda>h. Some (open_iter (build_block 1 [([1], [2])]))) first = Some last \<and>
    TweLevelIterator_Seek block_ops block_ops (\<lambda>h. Some (open_iter (build_block 1 [([1], [2])])))
      (mk_InternalKey [1] 7 kTypeValue) last = Some at \<and>
    \<not> TweLevelIterator_Valid first \<and> \<not> TweLevelIterator_Valid last \<and> \<not> TweLevelIterator_Valid at"
  by (rule TweLevelIterator_returns_empty)
    (simp_all only: seek_example_length, simp_all add: less_eq_skey_def)

end
