(* ===== verification/Versions.thy ===== *)
theory Versions
  imports Complex_Main TwoLevel VersionEdit
begin

text \<open>
  Versions: the files of each level and the lookups in them (classes \<open>Version\<close> and \<open>LevelFileNumIterator\<close>, \<open>FindFile\<close>
  and \<open>SaveValue\<close> of src/src/db/version_set.h and src/src/db/version_set.cpp).

  The array \<open>files\<close> of a version is a function on the levels 0 to 6.  User keys are compared with the
  function for internal keys in most places, so that their last eight bytes are read as a tag, and user keys of
  fewer than eight bytes are read out of bounds, which is \<open>None\<close>.
\<close>

section \<open>Sizes\<close>

text \<open>The sum is an \<open>int64_t\<close>: the word is read with \<open>sint\<close> where it is compared as such.\<close>

definition TotalFileSize :: "FileMate list \<Rightarrow> u64" where
  "TotalFileSize files = fold (\<lambda>f sum. sum + fm_file_size f) files 0"

text \<open>The \<open>double\<close>s here are integers below \<open>2 ^ 53\<close> for all levels, so that the multiplications are exact.\<close>

fun MaxBytesForLevel_loop :: "nat \<Rightarrow> rat \<Rightarrow> rat" where
  "MaxBytesForLevel_loop level result =
     (if level > 1 then MaxBytesForLevel_loop (level - 1) (result * 10) else result)"

declare MaxBytesForLevel_loop.simps [simp del]

definition MaxBytesForLevel :: "nat \<Rightarrow> rat" where
  "MaxBytesForLevel level = MaxBytesForLevel_loop level (10 * 1048576)"

section \<open>Searching the files of a level\<close>

text \<open>The loop repeats forever when the sum of the bounds wraps around: then its value is \<open>None\<close>.\<close>

partial_function (option) FindFile_loop :: "FileMate list \<Rightarrow> bytes \<Rightarrow> u32 \<Rightarrow> u32 \<Rightarrow> u32 option" where
  "FindFile_loop files key left right =
     (if left < right then
        (let mid = (left + right) div 2
         in if length files \<le> unat mid then None
            else Option.bind (cmp_view (fm_largest (files ! unat mid)) key) (\<lambda>r.
              if r < 0 then FindFile_loop files key (mid + 1) right
              else FindFile_loop files key left mid))
      else Some right)"

definition FindFile :: "FileMate list \<Rightarrow> bytes \<Rightarrow> int option" where
  "FindFile files key = map_option sint (FindFile_loop files key 0 (of_nat (length files)))"

section \<open>LevelFileNumIterator\<close>

text \<open>\<open>key\<close> is only called on a valid iterator.\<close>

record LevelFileNumIterator =
  lf_flist :: "FileMate list"
  lf_index :: u32

definition mk_LevelFileNumIterator :: "FileMate list \<Rightarrow> LevelFileNumIterator" where
  "mk_LevelFileNumIterator flist = \<lparr>lf_flist = flist, lf_index = of_nat (length flist)\<rparr>"

definition LevelFileNumIterator_Valid :: "LevelFileNumIterator \<Rightarrow> bool" where
  "LevelFileNumIterator_Valid it \<longleftrightarrow> unat (lf_index it) < length (lf_flist it)"

definition LevelFileNumIterator_Seek :: "bytes \<Rightarrow> LevelFileNumIterator \<Rightarrow> LevelFileNumIterator option" where
  "LevelFileNumIterator_Seek target it = do {
     i \<leftarrow> FindFile (lf_flist it) target;
     Some (it\<lparr>lf_index := word_of_int i\<rparr>) }"

definition LevelFileNumIterator_SeekToFirst :: "LevelFileNumIterator \<Rightarrow> LevelFileNumIterator" where
  "LevelFileNumIterator_SeekToFirst it = it\<lparr>lf_index := 0\<rparr>"

definition LevelFileNumIterator_SeekToLast :: "LevelFileNumIterator \<Rightarrow> LevelFileNumIterator" where
  "LevelFileNumIterator_SeekToLast it =
     it\<lparr>lf_index := (if lf_flist it = [] then 0 else of_nat (length (lf_flist it) - 1))\<rparr>"

definition LevelFileNumIterator_Next :: "LevelFileNumIterator \<Rightarrow> LevelFileNumIterator" where
  "LevelFileNumIterator_Next it = it\<lparr>lf_index := lf_index it + 1\<rparr>"

definition LevelFileNumIterator_Prev :: "LevelFileNumIterator \<Rightarrow> LevelFileNumIterator" where
  "LevelFileNumIterator_Prev it =
     it\<lparr>lf_index := (if lf_index it = 0 then of_nat (length (lf_flist it)) else lf_index it - 1)\<rparr>"

definition LevelFileNumIterator_key :: "LevelFileNumIterator \<Rightarrow> bytes" where
  "LevelFileNumIterator_key it = fm_largest (lf_flist it ! unat (lf_index it))"

definition LevelFileNumIterator_value :: "LevelFileNumIterator \<Rightarrow> bytes option" where
  "LevelFileNumIterator_value it =
     (if length (lf_flist it) \<le> unat (lf_index it) then None
      else (let f = lf_flist it ! unat (lf_index it)
            in Some (EncodeFixed64 (fm_num f) @ EncodeFixed64 (fm_file_size f))))"

definition level_ops :: "LevelFileNumIterator iter_ops" where
  "level_ops = \<lparr>io_Valid = LevelFileNumIterator_Valid, io_key = LevelFileNumIterator_key,
     io_value = LevelFileNumIterator_value,
     io_SeekToFirst = (\<lambda>it. Some (LevelFileNumIterator_SeekToFirst it)),
     io_SeekToLast = (\<lambda>it. Some (LevelFileNumIterator_SeekToLast it)),
     io_Seek = LevelFileNumIterator_Seek,
     io_Next = (\<lambda>it. Some (LevelFileNumIterator_Next it)),
     io_Prev = (\<lambda>it. Some (LevelFileNumIterator_Prev it)), io_state = (\<lambda>it. kok)\<rparr>"

section \<open>SaveValue\<close>

datatype SaverState = kNotFound | kFound | kDeleted | kCorrupt

text \<open>\<open>sv_value\<close> is the string that \<open>value\<close> points to.\<close>

record Saver =
  sv_state :: SaverState
  sv_user_key :: bytes
  sv_value :: bytes

definition SaveValue :: "bytes \<Rightarrow> bytes \<Rightarrow> Saver \<Rightarrow> Saver option" where
  "SaveValue ikey v s =
     (let (ok, parsed_key) = ParseInternalKey ikey \<lparr>pk_user_key = [], pk_sequence = 0, pk_type = None\<rparr>
      in if \<not> ok then Some (s\<lparr>sv_state := kCorrupt\<rparr>)
         else do {
           r \<leftarrow> cmp_view (pk_user_key parsed_key) (sv_user_key s);
           Some (if r = 0 then
                   (if pk_type parsed_key = Some kTypeValue then s\<lparr>sv_state := kFound, sv_value := v\<rparr>
                    else s\<lparr>sv_state := kDeleted\<rparr>)
                 else s) })"

section \<open>Version\<close>

record Version =
  v_files :: "nat \<Rightarrow> FileMate list"
  v_compaction_score :: rat
  v_compaction_level :: int

definition mk_Version :: Version where
  "mk_Version = \<lparr>v_files = (\<lambda>level. []), v_compaction_score = - 1, v_compaction_level = - 1\<rparr>"

text \<open>The variables of \<open>Get\<close> and its statistics, with the table cache it reads through.\<close>

record get_state =
  gs_val :: bytes
  gs_seek_file :: "FileMate option"
  gs_seek_file_level :: int
  gs_last_file_read :: "FileMate option"
  gs_last_file_read_level :: int
  gs_cache :: TableCache

text \<open>The inner loop, over the files to read: the value of a \<open>return\<close> in it, or \<open>None\<close> to go on.\<close>

fun Get_files ::
  "renv \<Rightarrow> (string \<Rightarrow> RandomAccessFile option) \<Rightarrow> bytes \<Rightarrow> bytes \<Rightarrow> int \<Rightarrow> FileMate list \<Rightarrow> get_state
    \<Rightarrow> (State option \<times> get_state) option" where
  "Get_files R open_table ikey user_key level [] g = Some (None, g)"
| "Get_files R open_table ikey user_key level (f # fs) g =
     (let g1 = (if gs_last_file_read g \<noteq> None \<and> gs_seek_file g = None
                then g\<lparr>gs_seek_file := gs_last_file_read g, gs_seek_file_level := gs_last_file_read_level g\<rparr>
                else g);
          g2 = g1\<lparr>gs_last_file_read := Some f, gs_last_file_read_level := level\<rparr>;
          saver = \<lparr>sv_state = kNotFound, sv_user_key = user_key, sv_value = gs_val g2\<rparr>
      in do {
        (s, call, c) \<leftarrow> TableCache_Get R open_table (fm_num f) (fm_file_size f) ikey (gs_cache g2);
        saver' \<leftarrow> (case call of None \<Rightarrow> Some saver | Some (k, v) \<Rightarrow> SaveValue k v saver);
        let g3 = g2\<lparr>gs_val := sv_value saver', gs_cache := c\<rparr>;
        if \<not> State_ok s then Some (Some s, g3)
        else (case sv_state saver' of
                kNotFound \<Rightarrow> Get_files R open_table ikey user_key level fs g3
              | kFound \<Rightarrow> Some (Some s, g3)
              | kDeleted \<Rightarrow> Some (Some knotfound, g3)
              | kCorrupt \<Rightarrow> Some (Some kcorruption, g3)) })"

text \<open>The files of level 0 that may hold the key; these are compared as byte strings.\<close>

fun Get_overlapping :: "bytes \<Rightarrow> FileMate list \<Rightarrow> FileMate list option" where
  "Get_overlapping user_key [] = Some []"
| "Get_overlapping user_key (f # fs) = do {
     small \<leftarrow> InternalKey_getusrkeyview (fm_smallest f);
     take_f \<leftarrow> (if view_compare user_key small \<ge> 0
                then do {
                  large \<leftarrow> InternalKey_getusrkeyview (fm_largest f);
                  Some (view_compare user_key large \<le> 0) }
                else Some False);
     tmp \<leftarrow> Get_overlapping user_key fs;
     Some (if take_f then f # tmp else tmp) }"

text \<open>\<open>std::sort\<close> with \<open>NewestFirst\<close> (files with the same number in the order they have).\<close>

definition sort_newest :: "FileMate list \<Rightarrow> FileMate list" where
  "sort_newest files = sort_key (\<lambda>f. - uint (fm_num f)) files"

definition Get_candidates :: "bytes \<Rightarrow> bytes \<Rightarrow> nat \<Rightarrow> FileMate list \<Rightarrow> FileMate list option" where
  "Get_candidates ikey user_key level files =
     (if files = [] then Some []
      else if level = 0 then map_option sort_newest (Get_overlapping user_key files)
      else do {
        found \<leftarrow> FindFile files ikey;
        let index = (word_of_int found :: u32);
        if length files \<le> unat index then Some []
        else do {
          let f = files ! unat index;
          small \<leftarrow> InternalKey_getusrkeyview (fm_smallest f);
          r \<leftarrow> cmp_view user_key small;
          Some (if r < 0 then [] else [f]) } })"

fun Get_levels ::
  "renv \<Rightarrow> (string \<Rightarrow> RandomAccessFile option) \<Rightarrow> bytes \<Rightarrow> bytes \<Rightarrow> (nat \<Rightarrow> FileMate list) \<Rightarrow> nat list \<Rightarrow> get_state
    \<Rightarrow> (State \<times> get_state) option" where
  "Get_levels R open_table ikey user_key files [] g = Some (knotfound, g)"
| "Get_levels R open_table ikey user_key files (level # levels) g = do {
     candidates \<leftarrow> Get_candidates ikey user_key level (files level);
     (ret, g') \<leftarrow> Get_files R open_table ikey user_key (int level) candidates g;
     (case ret of
        Some s \<Rightarrow> Some (s, g')
      | None \<Rightarrow> Get_levels R open_table ikey user_key files levels g') }"

definition Version_Get ::
  "renv \<Rightarrow> (string \<Rightarrow> RandomAccessFile option) \<Rightarrow> Lookey \<Rightarrow> bytes \<Rightarrow> Version \<Rightarrow> TableCache \<Rightarrow> (State \<times> get_state) option" where
  "Version_Get R open_table key val v cache =
     Get_levels R open_table (Lookey_inter_key key) (Lookey_key key) (v_files v) [0..<kNumLevels]
       \<lparr>gs_val = val, gs_seek_file = None, gs_seek_file_level = - 1, gs_last_file_read = None,
        gs_last_file_read_level = - 1, gs_cache = cache\<rparr>"

text \<open>
  \<open>GetOverlappFiles\<close>: the loop reads the sizes of \<open>files[i]\<close> and the files of \<open>files[0]\<close> for the same \<open>i\<close>, and after it has
  widened the range goes on with \<open>i\<close> = 1.  A null \<open>begin\<close> or \<open>end\<close> leaves its view empty.
\<close>

partial_function (option) Overlapp_loop ::
  "(nat \<Rightarrow> FileMate list) \<Rightarrow> bool \<Rightarrow> bool \<Rightarrow> bytes \<Rightarrow> bytes \<Rightarrow> nat \<Rightarrow> FileMate list \<Rightarrow> FileMate list option" where
  "Overlapp_loop files has_begin has_end user_begin user_end i inputs =
     (if kNumLevels \<le> i then None
      else if length (files i) \<le> i then Some inputs
      else if length (files 0) \<le> i then None
      else
        (let p = files 0 ! i
         in do {
           before \<leftarrow> (if has_begin then do {
                large \<leftarrow> InternalKey_getusrkeyview (fm_largest p);
                r \<leftarrow> cmp_view user_begin large;
                Some (r > 0) } else Some False);
           outside \<leftarrow> (if \<not> before \<and> has_end then do {
                small \<leftarrow> InternalKey_getusrkeyview (fm_smallest p);
                r \<leftarrow> cmp_view user_end small;
                Some (r < 0) } else Some before);
           if outside then Overlapp_loop files has_begin has_end user_begin user_end (i + 1) inputs
           else do {
             widen_begin \<leftarrow> (if has_begin then do {
                  small \<leftarrow> InternalKey_getusrkeyview (fm_smallest p);
                  r \<leftarrow> cmp_view user_end small;
                  Some (if r < 0 then Some small else None) } else Some None);
             widen_end \<leftarrow> (if widen_begin = None \<and> has_end then do {
                  large \<leftarrow> InternalKey_getusrkeyview (fm_largest p);
                  r \<leftarrow> cmp_view large user_end;
                  Some (if r > 0 then Some large else None) } else Some None);
             (case (widen_begin, widen_end) of
                (Some b, _) \<Rightarrow> Overlapp_loop files has_begin has_end b user_end 1 []
              | (None, Some e) \<Rightarrow> Overlapp_loop files has_begin has_end user_begin e 1 []
              | (None, None) \<Rightarrow>
                  Overlapp_loop files has_begin has_end user_begin user_end (i + 1) (inputs @ [p])) } }))"

definition opt_user_key :: "InternalKey option \<Rightarrow> bytes option" where
  "opt_user_key k = (case k of None \<Rightarrow> Some [] | Some ik \<Rightarrow> InternalKey_getusrkeyview ik)"

definition GetOverlappFiles ::
  "Version \<Rightarrow> int \<Rightarrow> InternalKey option \<Rightarrow> InternalKey option \<Rightarrow> FileMate list option" where
  "GetOverlappFiles v level begin_key end_key = do {
     user_begin \<leftarrow> opt_user_key begin_key;
     user_end \<leftarrow> opt_user_key end_key;
     Overlapp_loop (v_files v) (begin_key \<noteq> None) (end_key \<noteq> None) user_begin user_end 0 [] }"

section \<open>The files of a level as an index\<close>

definition level_entries :: "FileMate list \<Rightarrow> (bytes \<times> bytes) list" where
  "level_entries files =
     map (\<lambda>f. (fm_largest f, EncodeFixed64 (fm_num f) @ EncodeFixed64 (fm_file_size f))) files"

lemma level_entries_simps [simp]:
  "length (level_entries files) = length files"
  "i < length files \<Longrightarrow> fst (level_entries files ! i) = fm_largest (files ! i)"
  by (simp_all add: level_entries_def)

lemma of_nat_mid:
  assumes "l + r < 2 ^ 32"
  shows "((of_nat l :: u32) + of_nat r) div 2 = of_nat ((l + r) div 2)"
proof -
  have "unat ((of_nat l :: u32) + of_nat r) = l + r"
    using assms unat_of_nat_u32 [of "l + r"] by simp
  moreover have "unat (of_nat ((l + r) div 2) :: u32) = (l + r) div 2"
    using assms by (intro unat_of_nat_u32) simp
  ultimately show ?thesis
    by (simp add: word_unat_eq_iff unat_div)
qed

text \<open>The loop between bounds around the first file that ends at or after the key.\<close>

lemma FindFile_loop_pos:
  assumes so: "sorted (map (ikey_abs \<circ> fst) (level_entries files))" and len: "length files < 2 ^ 31"
    and wf: "\<forall>f \<in> set files. ikey_wf (fm_largest f)" "ikey_wf key"
  shows "l \<le> seek_pos ikey_abs (level_entries files) key \<Longrightarrow> seek_pos ikey_abs (level_entries files) key \<le> r \<Longrightarrow>
    r \<le> length files \<Longrightarrow> FindFile_loop files key (of_nat l) (of_nat r) =
      Some (of_nat (seek_pos ikey_abs (level_entries files) key))"
proof (induction "r - l" arbitrary: l r rule: less_induct)
  case less
  let ?p = "seek_pos ikey_abs (level_entries files) key" and ?m = "(l + r) div 2"
  have u: "unat (of_nat l :: u32) = l" "unat (of_nat r :: u32) = r"
    using less.prems len by (auto intro!: unat_of_nat_u32)
  have lt: "(of_nat l :: u32) < of_nat r \<longleftrightarrow> l < r"
    by (simp add: word_less_nat_alt u)
  show ?case
  proof (cases "l < r")
    case False
    then have "r = ?p"
      using less.prems by simp
    then show ?thesis
      using False lt by (subst FindFile_loop.simps) simp
  next
    case True
    have m: "?m < r" "l \<le> ?m" "?m < length files"
      using True less.prems by auto
    have um: "unat (of_nat ?m :: u32) = ?m"
      using m(3) len by (intro unat_of_nat_u32) simp
    have mid: "((of_nat l :: u32) + of_nat r) div 2 = of_nat ?m"
      using less.prems len by (intro of_nat_mid) simp
    have wm: "ikey_wf (fm_largest (files ! ?m))"
      using wf(1) m(3) by simp
    obtain c where c: "cmp_view (fm_largest (files ! ?m)) key = Some c"
        "c < 0 \<longleftrightarrow> ikey_abs (fm_largest (files ! ?m)) < ikey_abs key"
      using wm wf(2) by (auto simp: cmp_view_cmp cmp_abs)
    have p: "ikey_abs (fm_largest (files ! ?m)) < ikey_abs key \<longleftrightarrow> ?m < ?p"
    proof
      assume a: "ikey_abs (fm_largest (files ! ?m)) < ikey_abs key"
      show "?m < ?p"
      proof (rule ccontr)
        assume n: "\<not> ?m < ?p"
        then have "ikey_abs key \<le> ikey_abs (fm_largest (files ! ?p))"
          using seek_pos_bounds(3) [of ikey_abs "level_entries files" key] m(3) by simp
        moreover have "ikey_abs (fm_largest (files ! ?p)) \<le> ikey_abs (fm_largest (files ! ?m))"
          using so n m(3) by (auto simp: sorted_iff_nth_mono)
        ultimately show False
          using a by simp
      qed
    next
      assume "?m < ?p"
      then show "ikey_abs (fm_largest (files ! ?m)) < ikey_abs key"
        using seek_pos_bounds(2) [of ?m ikey_abs "level_entries files" key] m(3) by simp
    qed
    have next_l: "(of_nat ?m :: u32) + 1 = of_nat (?m + 1)"
      by simp
    show ?thesis
    proof (cases "c < 0")
      case True
      then have "FindFile_loop files key (of_nat (?m + 1)) (of_nat r) = Some (of_nat ?p)"
        using p c(2) less.prems m by (intro less.hyps) auto
      then show ?thesis
        using True c(1) lt \<open>l < r\<close> um m(3) by (subst FindFile_loop.simps) (simp add: mid next_l del: of_nat_Suc)
    next
      case False
      then have "FindFile_loop files key (of_nat l) (of_nat ?m) = Some (of_nat ?p)"
        using p c(2) less.prems m by (intro less.hyps) auto
      then show ?thesis
        using False c(1) lt \<open>l < r\<close> um m(3) by (subst FindFile_loop.simps) (simp add: mid)
    qed
  qed
qed

lemma FindFile_pos:
  assumes "sorted (map (ikey_abs \<circ> fst) (level_entries files))" "length files < 2 ^ 31"
    "\<forall>f \<in> set files. ikey_wf (fm_largest f)" "ikey_wf key"
  shows "FindFile files key = Some (int (seek_pos ikey_abs (level_entries files) key))"
proof -
  let ?p = "seek_pos ikey_abs (level_entries files) key"
  have p: "?p \<le> length files"
    using seek_pos_bounds(1) [of ikey_abs "level_entries files" key] by simp
  then have "FindFile_loop files key (of_nat 0) (of_nat (length files)) = Some (of_nat ?p)"
    by (intro FindFile_loop_pos [OF assms]) simp_all
  moreover have "sint (of_nat ?p :: u32) = int ?p"
    using p assms(2) by (simp add: signed_of_nat signed_take_bit_eq_if_positive not_le bit_iff_odd take_bit_int_eq_self)
  ultimately show ?thesis
    by (simp add: FindFile_def)
qed

definition level_usable :: "(bytes \<times> bytes) list \<Rightarrow> LevelFileNumIterator \<Rightarrow> bool" where
  "level_usable es it \<longleftrightarrow> es = level_entries (lf_flist it) \<and> length es < 2 ^ 31"

definition level_pos :: "(bytes \<times> bytes) list \<Rightarrow> LevelFileNumIterator \<Rightarrow> nat \<Rightarrow> bool" where
  "level_pos es it j \<longleftrightarrow> level_usable es it \<and> unat (lf_index it) = j \<and> j \<le> length es"

lemma level_pos_update:
  assumes "level_usable es it" "j \<le> length es" "w = of_nat j"
  shows "level_pos es (it\<lparr>lf_index := w\<rparr>) j"
  using assms unat_of_nat_u32 [of j] by (auto simp: level_pos_def level_usable_def)

interpretation level_cursor: sorted_cursor level_usable level_pos "io_Valid level_ops" "io_key level_ops"
  "io_value level_ops" "io_SeekToFirst level_ops" "io_SeekToLast level_ops" "io_Next level_ops"
  "io_Prev level_ops" ikey_abs ikey_wf "io_Seek level_ops"
proof unfold_locales
  fix es it j
  assume p: "level_pos es it j"
  then have es: "es = level_entries (lf_flist it)" "unat (lf_index it) = j" "level_usable es it"
      "j \<le> length es" "length es < 2 ^ 31"
    unfolding level_pos_def level_usable_def by blast+
  then show "level_usable es it" "j \<le> length es" "io_Valid level_ops it = (j < length es)"
    by (simp_all add: level_ops_def LevelFileNumIterator_Valid_def)
  assume j: "j < length es"
  then show "io_key level_ops it = fst (es ! j)" "io_value level_ops it = Some (snd (es ! j))"
    using es(1,2) by (simp_all add: level_ops_def LevelFileNumIterator_key_def LevelFileNumIterator_value_def
        level_entries_def Let_def)
  have i: "lf_index it = of_nat j"
    using es(2) by auto
  show "\<exists>it'. io_Next level_ops it = Some it' \<and> level_pos es it' (Suc j)"
    using j i by (auto simp: level_ops_def LevelFileNumIterator_Next_def intro!: level_pos_update [OF es(3)])
  have "lf_index it = 0 \<longleftrightarrow> j = 0"
    using es(2) by (metis unat_eq_0)
  then show "\<exists>it'. io_Prev level_ops it = Some it' \<and> level_pos es it' (if j = 0 then length es else j - 1)"
    using j i es(1) level_pos_update [OF es(3), of "length es" "of_nat (length es)"]
      level_pos_update [OF es(3), of "j - 1" "of_nat (j - 1)"]
    by (cases j) (auto simp: level_ops_def LevelFileNumIterator_Prev_def)
next
  fix es it
  assume u: "level_usable es it"
  then have es: "es = level_entries (lf_flist it)" "length (lf_flist it) < 2 ^ 31"
    by (auto simp: level_usable_def)
  show "\<exists>it'. io_SeekToFirst level_ops it = Some it' \<and> level_pos es it' 0"
    by (auto simp: level_ops_def LevelFileNumIterator_SeekToFirst_def intro!: level_pos_update [OF u])
  show "\<exists>it'. io_SeekToLast level_ops it = Some it' \<and> level_pos es it' (length es - 1)"
    using es(1) level_pos_update [OF u, of "length es - 1" "of_nat (length es - 1)"]
    by (cases "lf_flist it") (simp_all add: level_ops_def LevelFileNumIterator_SeekToLast_def)
  fix t
  assume so: "sorted (map (ikey_abs \<circ> fst) es)" and wf: "\<forall>k \<in> fst ` set es. ikey_wf k" "ikey_wf t"
  have "FindFile (lf_flist it) t = Some (int (seek_pos ikey_abs es t))"
    using FindFile_pos [OF so [unfolded es(1)] es(2) _ wf(2)] wf(1) by (auto simp: es(1) level_entries_def)
  then show "\<exists>it'. io_Seek level_ops t it = Some it' \<and> level_pos es it' (seek_pos ikey_abs es t)"
    using seek_pos_bounds(1) [of ikey_abs es t]
    by (auto simp: level_ops_def LevelFileNumIterator_Seek_def intro!: level_pos_update [OF u])
qed

interpretation level_merge: merging level_usable level_pos level_ops
  unfolding merging_def by (rule level_cursor.sorted_cursor_axioms)

lemma mk_LevelFileNumIterator_usable:
  "length files < 2 ^ 31 \<Longrightarrow> level_usable (level_entries files) (mk_LevelFileNumIterator files)"
  by (simp add: level_usable_def mk_LevelFileNumIterator_def)

section \<open>Reading the files of level 0\<close>

text \<open>User keys that the internal comparison can read, and file metadata made of them.\<close>

definition user_wf :: "bytes \<Rightarrow> bool" where
  "user_wf u \<longleftrightarrow> 8 \<le> length u"

definition file_wf :: "FileMate \<Rightarrow> bool" where
  "file_wf f \<longleftrightarrow> 16 \<le> length (fm_smallest f) \<and> 16 \<le> length (fm_largest f)"

definition user_part :: "InternalKey \<Rightarrow> bytes" where
  "user_part k = take (length k - 8) k"

definition file_contains :: "bytes \<Rightarrow> FileMate \<Rightarrow> bool" where
  "file_contains u f \<longleftrightarrow> user_part (fm_smallest f) \<le> u \<and> u \<le> user_part (fm_largest f)"

lemma file_wf_user [simp]:
  assumes "file_wf f"
  shows "InternalKey_getusrkeyview (fm_smallest f) = Some (user_part (fm_smallest f))"
    "InternalKey_getusrkeyview (fm_largest f) = Some (user_part (fm_largest f))"
    "user_wf (user_part (fm_smallest f))" "user_wf (user_part (fm_largest f))"
  using assms by (auto simp: file_wf_def InternalKey_getusrkeyview_def user_part_def user_wf_def)

lemma Get_overlapping_filter:
  "\<forall>f \<in> set files. file_wf f \<Longrightarrow> Get_overlapping u files = Some (filter (file_contains u) files)"
  by (induction files) (auto simp: file_contains_def view_compare_less not_less)

text \<open>The files of level 0 that are read for a user key: those whose range covers it, the newest first.\<close>

lemma Get_candidates_level0:
  assumes "\<forall>f \<in> set files. file_wf f"
  obtains fs where "Get_candidates ikey u 0 files = Some fs" "set fs = {f \<in> set files. file_contains u f}"
    "sorted_wrt (\<lambda>f f'. fm_num f' \<le> fm_num f) fs"
proof -
  let ?fs = "sort_newest (filter (file_contains u) files)"
  have "sorted (map (\<lambda>f. - uint (fm_num f)) ?fs)"
    by (simp add: sort_newest_def)
  then have "sorted_wrt (\<lambda>f f'. fm_num f' \<le> fm_num f) ?fs"
    by (simp add: sorted_map word_le_def)
  then show ?thesis
    using that [of ?fs] Get_overlapping_filter [OF assms, of u] by (auto simp: Get_candidates_def sort_newest_def)
qed

section \<open>The overlap loop\<close>

text \<open>The files of level 0 that end behind the user key \<open>e\<close>: each widening of the range takes one away.\<close>

definition behind :: "FileMate list \<Rightarrow> bytes \<Rightarrow> FileMate set" where
  "behind fs e = {p \<in> set fs. ikey_abs e < ikey_abs (user_part (fm_largest p))}"

lemma behind_less:
  assumes "p \<in> set fs" "ikey_abs e < ikey_abs (user_part (fm_largest p))"
  shows "card (behind fs (user_part (fm_largest p))) < card (behind fs e)"
proof (rule psubset_card_mono)
  show "finite (behind fs e)"
    by (simp add: behind_def)
  have "behind fs (user_part (fm_largest p)) \<subseteq> behind fs e"
    using assms(2) by (auto simp: behind_def)
  moreover have "p \<in> behind fs e" "p \<notin> behind fs (user_part (fm_largest p))"
    using assms by (simp_all add: behind_def)
  ultimately show "behind fs (user_part (fm_largest p)) \<subset> behind fs e"
    by blast
qed

text \<open>One round with both ends given: the file is skipped, widens the end of the range, or is taken.\<close>

lemma Overlapp_loop_step:
  assumes i: "i < kNumLevels" "i < length (files i)" "i < length (files 0)"
    and wf: "file_wf (files 0 ! i)" "user_wf b" "user_wf e"
  shows "Overlapp_loop files True True b e i inputs =
    (let p = files 0 ! i; large = user_part (fm_largest p)
     in if ikey_abs large < ikey_abs b \<or> ikey_abs e < ikey_abs (user_part (fm_smallest p))
        then Overlapp_loop files True True b e (i + 1) inputs
        else if ikey_abs e < ikey_abs large then Overlapp_loop files True True b large 1 []
        else Overlapp_loop files True True b e (i + 1) (inputs @ [p]))"
proof -
  let ?small = "user_part (fm_smallest (files 0 ! i))" and ?large = "user_part (fm_largest (files 0 ! i))"
  have w: "ikey_wf ?small" "ikey_wf ?large" "ikey_wf b" "ikey_wf e"
    using wf file_wf_user(3,4) [OF wf(1)] by (simp_all add: user_wf_def ikey_wf_def)
  obtain r1 where r1: "cmp_view b ?large = Some r1" "0 < r1 \<longleftrightarrow> ikey_abs ?large < ikey_abs b"
    using cmp_simps(3) [OF w(3,2)] by (auto simp: cmp_view_cmp cmp_abs w)
  obtain r2 where r2: "cmp_view e ?small = Some r2" "r2 < 0 \<longleftrightarrow> ikey_abs e < ikey_abs ?small"
    using cmp_simps(1) [OF w(4,1)] by (auto simp: cmp_view_cmp cmp_abs w)
  obtain r3 where r3: "cmp_view ?large e = Some r3" "0 < r3 \<longleftrightarrow> ikey_abs e < ikey_abs ?large"
    using cmp_simps(3) [OF w(2,4)] by (auto simp: cmp_view_cmp cmp_abs w)
  show ?thesis
    using i r1 r2 r3 file_wf_user(1,2) [OF wf(1)]
    by (subst Overlapp_loop.simps) (cases "0 < r1"; cases "r2 < 0"; cases "0 < r3"; simp add: Let_def)
qed

lemma Overlapp_loop_returns:
  assumes n: "n < kNumLevels" "length (files n) \<le> n" "\<And>j. j < n \<Longrightarrow> j < length (files j) \<and> j < length (files 0)"
    and wf: "\<forall>f \<in> set (files 0). file_wf f" "user_wf b"
  shows "user_wf e \<Longrightarrow> i \<le> n \<Longrightarrow> set inputs \<subseteq> set (take n (files 0)) \<Longrightarrow>
    \<exists>r. Overlapp_loop files True True b e i inputs = Some r \<and> set r \<subseteq> set (take n (files 0))"
proof (induction "(card (behind (files 0) e), n - i)" arbitrary: e i inputs
    rule: wf_induct_rule [OF wf_lex_prod [OF wf_less_than wf_less_than]])
  case 1
  show ?case
  proof (cases "i < n")
    case False
    then have "Overlapp_loop files True True b e i inputs = Some inputs"
      using n(1,2) 1(3) by (subst Overlapp_loop.simps) (auto simp: kNumLevels_def)
    then show ?thesis
      using 1(4) by simp
  next
    case True
    let ?p = "files 0 ! i"
    let ?large = "user_part (fm_largest ?p)"
    have p: "?p \<in> set (take n (files 0))" "?p \<in> set (files 0)" "i < length (files 0)" "file_wf ?p"
      using True n(3) [OF True] wf(1) nth_mem [of i "files 0"] by (auto simp: in_set_conv_nth intro: exI [of _ i])
    note step = Overlapp_loop_step [of i files b e inputs]
    have next_i: "\<exists>r. Overlapp_loop files True True b e (i + 1) inputs' = Some r \<and> set r \<subseteq> set (take n (files 0))"
      if "set inputs' \<subseteq> set (take n (files 0))" for inputs'
      using 1(1) [of e "i + 1" inputs'] 1(2) True that by simp
    have widen: "\<exists>r. Overlapp_loop files True True b ?large 1 [] = Some r \<and> set r \<subseteq> set (take n (files 0))"
      if "ikey_abs e < ikey_abs ?large"
      using 1(1) [of ?large 1 "[]"] behind_less [OF p(2) that] p(4) True by simp
    show ?thesis
      using step n(1) n(3) [OF True] True p(4) wf(2) 1(2) next_i [OF 1(4)] next_i [of "inputs @ [?p]"] widen p(1) 1(4)
      by (auto simp: Let_def)
  qed
qed

section \<open>Properties\<close>

text \<open>
  C22: The files of a level as an index: for up to \<open>2 ^ 31\<close> files in the order of their largest keys, the binary search
  \<open>FindFile\<close> returns the first file that ends at or after the key, without reading outside the list; the iterator
  over the files stands there after \<open>Seek\<close>, and \<open>GetFileIterator\<close> opens this very file, with its number
  and size, from the value of the iterator; behind the last file it is not valid.
\<close>

theorem LevelFileNumIterator_finds:
  assumes "sorted (map (ikey_abs \<circ> fm_largest) files)" "length files < 2 ^ 31"
    and "\<forall>f \<in> set files. ikey_wf (fm_largest f)" "ikey_wf key"
  shows "\<exists>it. FindFile files key =
      Some (int (length (takeWhile (\<lambda>f. ikey_abs (fm_largest f) < ikey_abs key) files))) \<and>
    LevelFileNumIterator_Seek key (mk_LevelFileNumIterator files) = Some it \<and>
    (case List.find (\<lambda>f. ikey_abs key \<le> ikey_abs (fm_largest f)) files of
       None \<Rightarrow> \<not> LevelFileNumIterator_Valid it
     | Some f \<Rightarrow> LevelFileNumIterator_Valid it \<and> LevelFileNumIterator_key it = fm_largest f \<and>
         Option.bind (LevelFileNumIterator_value it) (\<lambda>value. GetFileIterator R open_file value t) =
           map_option (\<lambda>(table, t'). (Some table, t')) (TableCache_NewIterator R open_file (fm_num f) (fm_file_size f) t))"
proof -
  let ?es = "level_entries files" and ?it = "mk_LevelFileNumIterator files"
  have so: "sorted (map (ikey_abs \<circ> fst) ?es)"
    using assms(1) by (simp add: level_entries_def comp_def)
  have wf: "\<forall>k \<in> fst ` set ?es. ikey_wf k"
    using assms(3) by (auto simp: level_entries_def)
  have p: "seek_pos ikey_abs ?es key = length (takeWhile (\<lambda>f. ikey_abs (fm_largest f) < ikey_abs key) files)"
    by (simp add: seek_pos_def level_entries_def takeWhile_map comp_def)
  obtain it where it: "io_Seek level_ops key ?it = Some it" "level_pos ?es it (seek_pos ikey_abs ?es key)"
    using level_cursor.seek_to [OF mk_LevelFileNumIterator_usable [OF assms(2)] so wf assms(4)] by blast
  have f: "List.find (\<lambda>f. ikey_abs key \<le> ikey_abs (fm_largest f)) files =
      (let p = seek_pos ikey_abs ?es key in if p < length files then Some (files ! p) else None)"
    unfolding p by (induction files) (auto simp: not_le not_less Let_def)
  note P = level_cursor.pos_valid [OF it(2)] level_cursor.pos_key [OF it(2)] level_cursor.pos_val [OF it(2)]
  show ?thesis
    using it(1) FindFile_pos [OF so assms(2-4)] P
    by (intro exI [of _ it])
      (auto simp: f p [symmetric] Let_def level_ops_def level_entries_def GetFileIterator_def DecodeFixed64_def
        split: option.splits bind_splits)
qed

definition demo_file :: "u64 \<Rightarrow> bytes \<Rightarrow> bytes \<Rightarrow> FileMate" where
  "demo_file num small large =
     \<lparr>fm_num = num, fm_file_size = 100, fm_smallest = mk_InternalKey small 9 kTypeValue,
      fm_largest = mk_InternalKey large 1 kTypeValue\<rparr>"

theorem LevelFileNumIterator_finds_witness:
  "\<exists>it. FindFile [demo_file 7 [1] [2], demo_file 8 [4] [5]] (mk_InternalKey [3] 5 kTypeValue) =
      Some (int (length (takeWhile (\<lambda>f. ikey_abs (fm_largest f) < ikey_abs (mk_InternalKey [3] 5 kTypeValue))
        [demo_file 7 [1] [2], demo_file 8 [4] [5]]))) \<and>
    LevelFileNumIterator_Seek (mk_InternalKey [3] 5 kTypeValue)
      (mk_LevelFileNumIterator [demo_file 7 [1] [2], demo_file 8 [4] [5]]) = Some it \<and>
    (case List.find (\<lambda>f. ikey_abs (mk_InternalKey [3] 5 kTypeValue) \<le> ikey_abs (fm_largest f))
        [demo_file 7 [1] [2], demo_file 8 [4] [5]] of
       None \<Rightarrow> \<not> LevelFileNumIterator_Valid it
     | Some f \<Rightarrow> LevelFileNumIterator_Valid it \<and> LevelFileNumIterator_key it = fm_largest f \<and>
         Option.bind (LevelFileNumIterator_value it)
             (\<lambda>value. GetFileIterator sample_renv (\<lambda>_. None) value (mk_TableCache ''db'' 1000)) =
           map_option (\<lambda>(table, t'). (Some table, t'))
             (TableCache_NewIterator sample_renv (\<lambda>_. None) (fm_num f) (fm_file_size f) (mk_TableCache ''db'' 1000)))"
  by (rule LevelFileNumIterator_finds) (simp_all add: demo_file_def less_eq_skey_def)

definition sample_version :: Version where
  "sample_version = mk_Version\<lparr>v_files := (\<lambda>level. if level = 0
     then [demo_file 7 [0, 0, 0, 0, 0, 0, 0, 1] [0, 0, 0, 0, 0, 0, 0, 4],
           demo_file 9 [0, 0, 0, 0, 0, 0, 0, 2] [0, 0, 0, 0, 0, 0, 0, 5]] else [])\<rparr>"

text \<open>
  Above level 0 the lookup misses keys: the search picks the right file by its largest key, but then compares the user key with the smallest
  user key of the file as if they were internal keys.  For user keys of eight bytes, both are all tag, and a
  greater tag is a smaller key: whenever the key, read as a little-endian number, is greater than the smallest key of the file,
  the file is not read and the answer is \<open>NotFound\<close>, whatever the table holds.
\<close>

theorem Version_Get_skips_file:
  assumes "level \<in> {1..<kNumLevels}" "v_files v = (\<lambda>l. if l = level then [f] else [])"
    and "ikey_wf (fm_largest f)" "ikey_abs (mk_InternalKey u seq kTypeValue) \<le> ikey_abs (fm_largest f)"
    and "InternalKey_getusrkeyview (fm_smallest f) = Some small" "length small = 8" "length u = 8"
    and "le64 small < le64 u"
  shows "\<exists>g. Version_Get R open_table (mk_Lookey u seq) val v c = Some (knotfound, g) \<and> gs_val g = val \<and> gs_cache g = c"
proof -
  let ?ikey = "mk_InternalKey u seq kTypeValue"
  have "FindFile [f] ?ikey = Some (int (seek_pos ikey_abs (level_entries [f]) ?ikey))"
    using assms(3) by (intro FindFile_pos) (simp_all add: level_entries_def)
  also have "seek_pos ikey_abs (level_entries [f]) ?ikey = 0"
    using assms(4) by (simp add: seek_pos_def level_entries_def not_less)
  finally have find: "FindFile [f] ?ikey = Some 0"
    by simp
  have "cmp_view u small = Some (- 1)"
    using assms(6-8) by (simp add: cmp_view_def DecodeFixed64_def)
  then have cand: "Get_candidates ?ikey u l (v_files v l) = Some []" for l
    using assms(1,2,5) find by (simp add: Get_candidates_def Let_def)
  have "Get_levels R open_table ?ikey u (v_files v) levels g = Some (knotfound, g)" for levels g
    by (induction levels) (simp_all add: cand)
  then show ?thesis
    by (simp add: Version_Get_def)
qed

theorem Version_Get_skips_file_witness:
  "\<exists>g. Version_Get sample_renv (\<lambda>_. None) (mk_Lookey [0, 0, 0, 0, 0, 0, 0, 3] 20) []
      (mk_Version\<lparr>v_files := (\<lambda>l. if l = 1
         then [demo_file 7 [0, 0, 0, 0, 0, 0, 0, 1] [0, 0, 0, 0, 0, 0, 0, 4]] else [])\<rparr>)
      (mk_TableCache ''db'' 1000) = Some (knotfound, g) \<and> gs_val g = [] \<and> gs_cache g = mk_TableCache ''db'' 1000"
proof (rule Version_Get_skips_file [where level = 1 and small = "[0, 0, 0, 0, 0, 0, 0, 1]"
      and f = "demo_file 7 [0, 0, 0, 0, 0, 0, 0, 1] [0, 0, 0, 0, 0, 0, 0, 4]"])
  show "le64 [0, 0, 0, 0, 0, 0, 0, 1] < le64 [0, 0, 0, 0, 0, 0, 0, 3]"
    by (simp add: le64_def)
qed (simp_all add: kNumLevels_def demo_file_def less_eq_skey_def)

text \<open>
  C32: Collecting overlapping files ends: when both ends of the range are given, the user keys at these ends and in the files of level 0 have at
  least eight bytes, and the loop stays inside its arrays, \<open>GetOverlappFiles\<close> returns however often it widens the range.  Its index \<open>i\<close>
  counts levels in \<open>files[i]\<close> and files in \<open>files[0][i]\<close>: it stays inside them when, up to the first level that has no more files
  than its number, every level has more and level 0 has a file at that index.  What it returns are files of level 0, whatever level
  was asked for, and only ones before that first level.
\<close>

theorem GetOverlappFiles_returns:
  assumes "n < kNumLevels" "length (v_files v n) \<le> n"
    and "\<forall>j < n. j < length (v_files v j) \<and> j < length (v_files v 0)"
    and "\<forall>f \<in> set (v_files v 0). file_wf f"
    and "InternalKey_getusrkeyview b = Some ub" "user_wf ub" "InternalKey_getusrkeyview e = Some ue" "user_wf ue"
  shows "\<exists>inputs. (\<forall>level. GetOverlappFiles v level (Some b) (Some e) = Some inputs) \<and>
    set inputs \<subseteq> set (take n (v_files v 0))"
proof -
  obtain r where "Overlapp_loop (v_files v) True True ub ue 0 [] = Some r" "set r \<subseteq> set (take n (v_files v 0))"
    using Overlapp_loop_returns [of n "v_files v" ub ue 0 "[]"] assms by auto
  then show ?thesis
    using assms(5,7) by (simp add: GetOverlappFiles_def opt_user_key_def)
qed

theorem GetOverlappFiles_returns_witness:
  "\<exists>inputs. (\<forall>level. GetOverlappFiles sample_version level
      (Some (mk_InternalKey [0, 0, 0, 0, 0, 0, 0, 3] 5 kTypeValue)) (Some (mk_InternalKey [0, 0, 0, 0, 0, 0, 0, 3] 5 kTypeValue)) =
      Some inputs) \<and> set inputs \<subseteq> set (take 1 (v_files sample_version 0))"
  by (rule GetOverlappFiles_returns [where ub = "[0, 0, 0, 0, 0, 0, 0, 3]" and ue = "[0, 0, 0, 0, 0, 0, 0, 3]"])
    (simp_all add: kNumLevels_def sample_version_def demo_file_def file_wf_def user_wf_def)

end
