(* ===== verification/Posix.thy ===== *)
theory Posix
  imports Env Filename
begin

text \<open>
  The environment: class \<open>PosixEnv\<close> of src/src/util/env.h and src/src/util/env.cpp, and what is built on it.

  The system calls are a parameter, the record \<open>posix\<close>: whether and with what each call succeeds.  An operation
  gets its own record, so that calls may succeed now and fail later.  A file name is a \<open>string\<close>, the
  contents of a file are bytes.
\<close>

section \<open>System calls\<close>

record posix =
  px_open_write :: "string \<Rightarrow> WritableFile option"
  px_open_append :: "string \<Rightarrow> WritableFile option"
  px_open_read :: "string \<Rightarrow> ReadFile option"
  px_open_lock :: "string \<Rightarrow> bool"
  px_fcntl :: "string \<Rightarrow> bool"
  px_rename :: "string \<Rightarrow> string \<Rightarrow> bool"
  px_unlink :: "string \<Rightarrow> bool"
  px_mkdir :: "string \<Rightarrow> bool"
  px_rmdir :: "string \<Rightarrow> bool"
  px_access :: "string \<Rightarrow> bool"
  px_readdir :: "string \<Rightarrow> string list option"
  px_sync_dir :: "string \<Rightarrow> bool"
  px_fsync :: "string \<Rightarrow> bool"
  px_close :: "string \<Rightarrow> bool"

definition of_result :: "bool \<Rightarrow> State" where
  "of_result ok = (if ok then kok else kioerror)"

definition NewWritableFile :: "posix \<Rightarrow> string \<Rightarrow> State \<times> WritableFile option" where
  "NewWritableFile P filename =
     (case px_open_write P filename of None \<Rightarrow> (kioerror, None) | Some f \<Rightarrow> (kok, Some f))"

definition NewReadFile :: "posix \<Rightarrow> string \<Rightarrow> State \<times> ReadFile option" where
  "NewReadFile P filename =
     (case px_open_read P filename of None \<Rightarrow> (kioerror, None) | Some f \<Rightarrow> (kok, Some f))"

definition CreateDir :: "posix \<Rightarrow> string \<Rightarrow> State" where
  "CreateDir P dirname = of_result (px_mkdir P dirname)"

definition GetChildren :: "posix \<Rightarrow> string \<Rightarrow> State \<times> string list" where
  "GetChildren P directory_path =
     (case px_readdir P directory_path of None \<Rightarrow> (kioerror, []) | Some names \<Rightarrow> (kok, names))"

definition PosixEnv_DeleteFile :: "posix \<Rightarrow> string \<Rightarrow> State" where
  "PosixEnv_DeleteFile P filename = of_result (px_unlink P filename)"

definition RenameFile :: "posix \<Rightarrow> string \<Rightarrow> string \<Rightarrow> State" where
  "RenameFile P from_name to_name = of_result (px_rename P from_name to_name)"

definition DeleteDir :: "posix \<Rightarrow> string \<Rightarrow> State" where
  "DeleteDir P dirname = of_result (px_rmdir P dirname)"

definition NewAppendableFile :: "posix \<Rightarrow> string \<Rightarrow> State \<times> WritableFile option" where
  "NewAppendableFile P filename =
     (case px_open_append P filename of None \<Rightarrow> (kioerror, None) | Some f \<Rightarrow> (kok, Some f))"

definition FileExists :: "posix \<Rightarrow> string \<Rightarrow> bool" where
  "FileExists P filename = px_access P filename"

section \<open>The state of an environment\<close>

text \<open>
  A database has an environment of its own, and all it schedules is its background call: of the queue, the number of works is enough.
  \<open>env_thread\<close> says that the thread has been started and still has its work before it.
\<close>

record PosixEnv =
  env_started :: bool
  env_thread :: bool
  env_queue :: nat
  env_filelock :: "string set"

definition mk_PosixEnv :: PosixEnv where
  "mk_PosixEnv = \<lparr>env_started = False, env_thread = False, env_queue = 0, env_filelock = {}\<rparr>"

text \<open>
  The first work that is scheduled gets a thread, which runs this work and ends.  Every work goes to the queue;
  \<open>BackgroundThreadMain\<close>, which would take works from it, is never called.
\<close>

definition Schedule :: "PosixEnv \<Rightarrow> PosixEnv" where
  "Schedule env =
     (let env1 = (if env_started env then env else env\<lparr>env_started := True, env_thread := True\<rparr>)
      in env1\<lparr>env_queue := Suc (env_queue env1)\<rparr>)"

text \<open>
  \<open>BackgroundThreadMain\<close>: \<open>backwork\<close> owns the mutex from its construction on, and \<open>lock\<close> of a \<open>unique_lock\<close> that owns its mutex throws, as does
  \<open>unlock\<close> of one that does not: \<open>None\<close>, also for the wait for a work that nobody brings.
\<close>

definition unique_lock_lock :: "bool \<Rightarrow> bool option" where
  "unique_lock_lock owned = (if owned then None else Some True)"

definition unique_lock_unlock :: "bool \<Rightarrow> bool option" where
  "unique_lock_unlock owned = (if owned then Some False else None)"

partial_function (option) BackgroundThreadMain_loop :: "bool \<Rightarrow> ('s \<Rightarrow> 's option) list \<Rightarrow> 's \<Rightarrow> 's option" where
  "BackgroundThreadMain_loop owned works s =
     Option.bind (unique_lock_lock owned) (\<lambda>owned1.
       if works = [] then None
       else Option.bind (unique_lock_unlock owned1) (\<lambda>owned2.
         Option.bind (hd works s) (BackgroundThreadMain_loop owned2 (tl works))))"

definition BackgroundThreadMain :: "('s \<Rightarrow> 's option) list \<Rightarrow> 's \<Rightarrow> 's option" where
  "BackgroundThreadMain works s = BackgroundThreadMain_loop True works s"

lemma BackgroundThreadMain_throws: "BackgroundThreadMain works s = None"
  by (simp add: BackgroundThreadMain_def BackgroundThreadMain_loop.simps [of True] unique_lock_lock_def)

text \<open>The threads that were started and detached, with what they run.\<close>

definition StartThread :: "('s \<Rightarrow> 's option) \<Rightarrow> ('s \<Rightarrow> 's option) list \<Rightarrow> ('s \<Rightarrow> 's option) list" where
  "StartThread thread_main threads = threads @ [thread_main]"

definition LockFile :: "posix \<Rightarrow> string \<Rightarrow> PosixEnv \<Rightarrow> State \<times> PosixEnv" where
  "LockFile P filename env =
     (if \<not> px_open_lock P filename then (kioerror, env)
      else if px_fcntl P filename then (kok, env\<lparr>env_filelock := insert filename (env_filelock env)\<rparr>)
      else (kioerror, env\<lparr>env_filelock := env_filelock env - {filename}\<rparr>))"

text \<open>\<open>UnlockFile\<close> sets the same lock again; the file is only forgotten when this fails.\<close>

definition UnlockFile :: "posix \<Rightarrow> string \<Rightarrow> PosixEnv \<Rightarrow> State \<times> PosixEnv" where
  "UnlockFile P filename env =
     (if px_fcntl P filename then (kok, env)
      else (kioerror, env\<lparr>env_filelock := env_filelock env - {filename}\<rparr>))"

section \<open>Names of open files\<close>

definition rfind_slash :: "string \<Rightarrow> nat option" where
  "rfind_slash s =
     (if CHR ''/'' \<in> set s then Some (length s - 1 - length (takeWhile (\<lambda>c. c \<noteq> CHR ''/'') (rev s))) else None)"

definition Basename :: "string \<Rightarrow> string" where
  "Basename filename = (case rfind_slash filename of None \<Rightarrow> filename | Some i \<Rightarrow> drop (Suc i) filename)"

text \<open>\<open>compare\<close> is converted to \<open>bool\<close>: it is true when the names differ.\<close>

definition Ismanifest :: "string \<Rightarrow> bool" where
  "Ismanifest filename \<longleftrightarrow> take 8 (Basename filename) \<noteq> ''MANIFEST''"

definition Dirname :: "string \<Rightarrow> string" where
  "Dirname filename = (case rfind_slash filename of None \<Rightarrow> ''.'' | Some i \<Rightarrow> take i filename)"

text \<open>\<open>Sync\<close> and \<open>Close\<close> of the file with this name.\<close>

definition file_Sync :: "posix \<Rightarrow> string \<Rightarrow> WritableFile \<Rightarrow> (State \<times> WritableFile) option" where
  "file_Sync P filestr f =
     WritableFile_Sync (Ismanifest filestr) (px_sync_dir P (Dirname filestr)) (px_fsync P filestr) f"

definition file_Close :: "posix \<Rightarrow> string \<Rightarrow> WritableFile \<Rightarrow> (State \<times> WritableFile) option" where
  "file_Close P filestr f = WritableFile_Close (px_close P filestr) f"

section \<open>Whole files\<close>

definition bytes_of :: "string \<Rightarrow> bytes" where
  "bytes_of s = map (\<lambda>c. of_nat (of_char c)) s"

definition string_of :: "bytes \<Rightarrow> string" where
  "string_of bs = map (\<lambda>b. char_of (unat b)) bs"

definition env_ReadFileToString :: "posix \<Rightarrow> string \<Rightarrow> State \<times> bytes" where
  "env_ReadFileToString P fname =
     (case NewReadFile P fname of
        (s, Some file) \<Rightarrow> ReadFileToString file
      | (s, None) \<Rightarrow> (s, []))"

text \<open>The status and what the system has of the file afterwards; a failure removes it again.\<close>

definition env_WriteStringToFile ::
  "posix \<Rightarrow> bytes \<Rightarrow> string \<Rightarrow> bool \<Rightarrow> (State \<times> WritableFile option) option" where
  "env_WriteStringToFile P data fname sync =
     (case NewWritableFile P fname of
        (s, Some file) \<Rightarrow> do {
          (s', file') \<leftarrow> WriteStringToFile data sync (Ismanifest fname) (px_sync_dir P (Dirname fname)) (px_fsync P fname) file;
          Some (s', if State_ok s' then Some file' else None) }
      | (s, None) \<Rightarrow> Some (s, None))"

text \<open>\<open>SetCurrentFile\<close>, with what the file CURRENT is replaced by.\<close>

definition SetCurrentFile :: "posix \<Rightarrow> string \<Rightarrow> u64 \<Rightarrow> (State \<times> WritableFile option) option" where
  "SetCurrentFile P dbname file_number =
     (let mainifset = DescriptorFileName dbname file_number;
          p = drop (length dbname + 1) mainifset;
          tmp = TempFileName dbname file_number
      in do {
        (s, file) \<leftarrow> env_WriteStringToFile P (bytes_of (p @ [CHR 0x0A])) tmp True;
        let s' = (if State_ok s then RenameFile P tmp (CurrentFileName dbname) else s);
        Some (s', if State_ok s' then file else None) })"

lemma string_of_bytes_of [simp]: "string_of (bytes_of s) = s"
proof -
  have "unat (of_nat (of_char c) :: byte) = of_char c" for c :: char
    by (simp add: unat_of_nat take_bit_nat_eq_self_iff flip: take_bit_eq_mod)
  then show ?thesis
    by (simp add: string_of_def bytes_of_def comp_def)
qed

section \<open>Systems that work\<close>

text \<open>A system on which every call succeeds: new files are empty, and whole writes are taken.\<close>

definition posix_works :: "posix \<Rightarrow> wres list \<Rightarrow> bool" where
  "posix_works P os \<longleftrightarrow> (\<forall>name. px_open_write P name = Some (mk_WritableFile [] (WFull # os))) \<and>
     (\<forall>name. px_sync_dir P name) \<and> (\<forall>name. px_fsync P name) \<and> (\<forall>a b. px_rename P a b) \<and>
     (\<forall>name. px_close P name)"

text \<open>A system on which every call succeeds, with new files empty and written at once.\<close>

definition posix_ok :: "(string \<Rightarrow> ReadFile option) \<Rightarrow> posix" where
  "posix_ok files =
     \<lparr>px_open_write = (\<lambda>name. Some (mk_WritableFile [] [WFull, WFull])), px_open_append = (\<lambda>name. Some (mk_WritableFile [] [WFull, WFull])), px_open_read = files,
      px_open_lock = (\<lambda>name. True), px_fcntl = (\<lambda>name. True), px_rename = (\<lambda>a b. True),
      px_unlink = (\<lambda>name. True), px_mkdir = (\<lambda>name. True), px_rmdir = (\<lambda>name. True), px_access = (\<lambda>name. files name \<noteq> None),
      px_readdir = (\<lambda>name. Some []), px_sync_dir = (\<lambda>name. True), px_fsync = (\<lambda>name. True), px_close = (\<lambda>name. True)\<rparr>"

lemma posix_ok_works: "posix_works (posix_ok files) [WFull]"
  by (simp add: posix_works_def posix_ok_def)

end
