(* ===== verification/VersionSet.thy ===== *)
theory VersionSet
  imports Versions Posix Wal
begin

text \<open>
  The version set: building the next version from an edit, choosing a compaction, and the manifest (classes \<open>VersionSet\<close>,
  \<open>VersionSet::Builder\<close> and \<open>Compaction\<close> of src/src/db/version_set.h and src/src/db/version_set.cpp).

  A result \<open>None\<close> is undefined behaviour, or \<open>abort\<close> in \<open>SaveTo\<close>.
\<close>

section \<open>Builder\<close>

text \<open>
  \<open>std::set<FileMate, BySmallestKey>\<close> is the list of its elements in order.  \<open>ls_deleted_files\<close> is a set of numbers.
\<close>

record LevelState =
  ls_deleted_files :: "u64 set"
  ls_added_files :: "FileMate list"

record Builder =
  bu_base :: Version
  bu_levels :: "nat \<Rightarrow> LevelState"

definition mk_Builder :: "Version \<Rightarrow> Builder" where
  "mk_Builder base =
     \<lparr>bu_base = base, bu_levels = (\<lambda>level. \<lparr>ls_deleted_files = {}, ls_added_files = []\<rparr>)\<rparr>"

definition BySmallestKey :: "FileMate \<Rightarrow> FileMate \<Rightarrow> bool option" where
  "BySmallestKey f1 f2 = do {
     r \<leftarrow> cmp (fm_smallest f1) (fm_smallest f2);
     Some (if r \<noteq> 0 then r < 0 else fm_num f1 < fm_num f2) }"

fun fileset_insert :: "FileMate \<Rightarrow> FileMate list \<Rightarrow> FileMate list option" where
  "fileset_insert f [] = Some [f]"
| "fileset_insert f (g # gs) = do {
     before \<leftarrow> BySmallestKey f g;
     after \<leftarrow> BySmallestKey g f;
     if before then Some (f # g # gs)
     else if after then do { gs' \<leftarrow> fileset_insert f gs; Some (g # gs') }
     else Some (g # gs) }"

text \<open>\<open>levels_\<close> has \<open>kNumLevels\<close> elements.\<close>

definition level_index :: "int \<Rightarrow> nat option" where
  "level_index level = (if 0 \<le> level \<and> level < int kNumLevels then Some (nat level) else None)"

fun apply_pointers :: "(int \<times> InternalKey) list \<Rightarrow> (nat \<Rightarrow> bytes) \<Rightarrow> (nat \<Rightarrow> bytes) option" where
  "apply_pointers [] cp = Some cp"
| "apply_pointers ((level, key) # ps) cp = do {
     l \<leftarrow> level_index level;
     apply_pointers ps (cp(l := key)) }"

fun apply_deleted :: "(int \<times> u64) list \<Rightarrow> (nat \<Rightarrow> LevelState) \<Rightarrow> (nat \<Rightarrow> LevelState) option" where
  "apply_deleted [] ls = Some ls"
| "apply_deleted ((level, number) # ds) ls = do {
     l \<leftarrow> level_index level;
     apply_deleted ds (ls(l := (ls l)\<lparr>ls_deleted_files := insert number (ls_deleted_files (ls l))\<rparr>)) }"

fun apply_new :: "(int \<times> FileMate) list \<Rightarrow> (nat \<Rightarrow> LevelState) \<Rightarrow> (nat \<Rightarrow> LevelState) option" where
  "apply_new [] ls = Some ls"
| "apply_new ((level, f) # fs) ls = do {
     l \<leftarrow> level_index level;
     added \<leftarrow> fileset_insert f (ls_added_files (ls l));
     apply_new fs (ls(l := \<lparr>ls_deleted_files = ls_deleted_files (ls l) - {fm_num f}, ls_added_files = added\<rparr>)) }"

definition Builder_Apply ::
  "VersionEdit \<Rightarrow> (nat \<Rightarrow> bytes) \<times> Builder \<Rightarrow> ((nat \<Rightarrow> bytes) \<times> Builder) option" where
  "Builder_Apply edit st = do {
     cp \<leftarrow> apply_pointers (ve_compact_pointers edit) (fst st);
     ls1 \<leftarrow> apply_deleted (ve_deleted_files edit) (bu_levels (snd st));
     ls2 \<leftarrow> apply_new (ve_new_files edit) ls1;
     Some (cp, (snd st)\<lparr>bu_levels := ls2\<rparr>) }"

definition MaybeAddFile :: "u64 set \<Rightarrow> FileMate \<Rightarrow> FileMate list \<Rightarrow> FileMate list" where
  "MaybeAddFile deleted f files = (if fm_num f \<in> deleted then files else files @ [f])"

text \<open>\<open>std::upper_bound\<close> on the sorted range of base files: those not after \<open>f\<close>, and the others.\<close>

fun upper_bound :: "FileMate \<Rightarrow> FileMate list \<Rightarrow> (FileMate list \<times> FileMate list) option" where
  "upper_bound f [] = Some ([], [])"
| "upper_bound f (x # xs) = do {
     lt \<leftarrow> BySmallestKey f x;
     if lt then Some ([], x # xs)
     else do { (smaller, rest) \<leftarrow> upper_bound f xs; Some (x # smaller, rest) } }"

fun SaveTo_files :: "u64 set \<Rightarrow> FileMate list \<Rightarrow> FileMate list \<Rightarrow> FileMate list \<Rightarrow> FileMate list option" where
  "SaveTo_files deleted [] base files = Some (fold (MaybeAddFile deleted) base files)"
| "SaveTo_files deleted (added # as) base files = do {
     (smaller, rest) \<leftarrow> upper_bound added base;
     SaveTo_files deleted as rest (MaybeAddFile deleted added (fold (MaybeAddFile deleted) smaller files)) }"

fun check_overlap :: "FileMate list \<Rightarrow> unit option" where
  "check_overlap (f # g # fs) = do {
     r \<leftarrow> cmp (fm_largest f) (fm_smallest g);
     if r \<ge> 0 then None else check_overlap (g # fs) }"
| "check_overlap _ = Some ()"

definition SaveTo_level :: "Builder \<Rightarrow> nat \<Rightarrow> FileMate list option" where
  "SaveTo_level b level = do {
     files \<leftarrow> SaveTo_files (ls_deleted_files (bu_levels b level)) (ls_added_files (bu_levels b level))
       (v_files (bu_base b) level) [];
     _ \<leftarrow> (if level > 0 then check_overlap files else Some ());
     Some files }"

definition Builder_SaveTo :: "Builder \<Rightarrow> Version option" where
  "Builder_SaveTo b = do {
     fss \<leftarrow> those (map (SaveTo_level b) [0..<kNumLevels]);
     Some (mk_Version\<lparr>v_files := (\<lambda>level. if level < kNumLevels then fss ! level else [])\<rparr>) }"

section \<open>The version set\<close>

text \<open>
  Only the files of the members of \<open>versionlist\<close> are read.  \<open>descriptor_file\<close> is the file of \<open>descriptor_log\<close>, kept with
  its name.
\<close>

record VersionSet =
  vs_dbname :: string
  vs_max_file_size :: u32
  vs_next_file_number :: u64
  vs_manifest_file_number :: u64
  vs_last_sequence :: u64
  vs_log_number :: u64
  vs_descriptor :: "(string \<times> walWriter) option"
  vs_versionlist :: "(nat \<Rightarrow> FileMate list) list"
  vs_nowversion :: Version
  vs_compact_pointer :: "nat \<Rightarrow> bytes"

definition mk_VersionSet :: "string \<Rightarrow> u32 \<Rightarrow> VersionSet" where
  "mk_VersionSet dbname max_file_size =
     \<lparr>vs_dbname = dbname, vs_max_file_size = max_file_size, vs_next_file_number = 2,
      vs_manifest_file_number = 0, vs_last_sequence = 0, vs_log_number = 0, vs_descriptor = None,
      vs_versionlist = [v_files mk_Version], vs_nowversion = mk_Version, vs_compact_pointer = (\<lambda>level. [])\<rparr>"

definition NewFileNumber :: "VersionSet \<Rightarrow> u64 \<times> VersionSet" where
  "NewFileNumber vs = (vs_next_file_number vs, vs\<lparr>vs_next_file_number := vs_next_file_number vs + 1\<rparr>)"

definition SetLastSequence_vs :: "u64 \<Rightarrow> VersionSet \<Rightarrow> VersionSet" where
  "SetLastSequence_vs seq vs = vs\<lparr>vs_last_sequence := seq\<rparr>"

definition NumLevelFiles :: "VersionSet \<Rightarrow> nat \<Rightarrow> nat" where
  "NumLevelFiles vs level = length (v_files (vs_nowversion vs) level)"

definition NumLevelBytes :: "VersionSet \<Rightarrow> nat \<Rightarrow> u64" where
  "NumLevelBytes vs level = TotalFileSize (v_files (vs_nowversion vs) level)"

definition AddLiveFiles :: "VersionSet \<Rightarrow> u64 set \<Rightarrow> u64 set" where
  "AddLiveFiles vs live =
     fold (\<lambda>files live. fold (\<lambda>level live. fold (\<lambda>f. insert (fm_num f)) (files level) live) [0..<kNumLevels] live)
       (vs_versionlist vs) live"

text \<open>
  \<open>Finalize\<close> stores the level and score of \<open>v\<close> in \<open>nowversion\<close>.  \<open>rnd\<close> rounds to a \<open>double\<close>.  The score of level 0
  is computed and not used.
\<close>

definition Finalize_score :: "(rat \<Rightarrow> rat) \<Rightarrow> Version \<Rightarrow> nat \<Rightarrow> rat" where
  "Finalize_score rnd v level =
     rnd (rnd (of_nat (unat (TotalFileSize (v_files v level)))) / MaxBytesForLevel level)"

definition Finalize_best :: "(rat \<Rightarrow> rat) \<Rightarrow> Version \<Rightarrow> int \<times> rat" where
  "Finalize_best rnd v =
     fold (\<lambda>i (maxlevel, maxscore).
         if i = 0 then (maxlevel, maxscore)
         else (let score = Finalize_score rnd v i
               in if score > maxscore then (int i, score) else (maxlevel, maxscore)))
       [0..<kNumLevels - 1] (- 1, - 1)"

definition Finalize :: "(rat \<Rightarrow> rat) \<Rightarrow> Version \<Rightarrow> VersionSet \<Rightarrow> VersionSet" where
  "Finalize rnd v vs =
     vs\<lparr>vs_nowversion := (vs_nowversion vs)
          \<lparr>v_compaction_score := snd (Finalize_best rnd v), v_compaction_level := fst (Finalize_best rnd v)\<rparr>\<rparr>"

definition NeedsCompaction :: "VersionSet \<Rightarrow> bool" where
  "NeedsCompaction vs \<longleftrightarrow> v_compaction_score (vs_nowversion vs) \<ge> 1"

section \<open>The manifest\<close>

definition WriteSnapshot ::
  "(u32 \<Rightarrow> bytes \<Rightarrow> u32) \<Rightarrow> VersionSet \<Rightarrow> walWriter \<Rightarrow> (State \<times> walWriter) option" where
  "WriteSnapshot ext vs dlog =
     (let e1 = fold (\<lambda>i edit. if vs_compact_pointer vs i \<noteq> []
                then SetCompactPointer (int i) (snd (InternalKey_DecodeFrom (vs_compact_pointer vs i))) edit else edit)
              [0..<kNumLevels] mk_VersionEdit;
          e2 = fold (\<lambda>level edit. fold (\<lambda>f. AddFile (int level) (fm_num f) (fm_file_size f) (fm_smallest f) (fm_largest f))
                (v_files (vs_nowversion vs) level) edit)
              [0..<kNumLevels] e1
      in Appendrecord ext (VersionEdit_EncodeTo e2 []) dlog)"

text \<open>
  \<open>LogAndApply\<close>.  \<open>set_current\<close> is the call of \<open>SetCurrentFile\<close>.  When \<open>descriptor_log\<close> is null, a new manifest is started with a
  snapshot of \<open>nowversion\<close>.
\<close>

definition open_manifest ::
  "(u32 \<Rightarrow> bytes \<Rightarrow> u32) \<Rightarrow> posix \<Rightarrow> VersionSet \<Rightarrow> (State \<times> bool \<times> VersionSet) option" where
  "open_manifest ext P vs =
     (if vs_descriptor vs \<noteq> None then Some (kok, False, vs)
      else
        (let name = DescriptorFileName (vs_dbname vs) (vs_manifest_file_number vs)
         in case NewWritableFile P name of
              (s, None) \<Rightarrow> Some (s, True, vs)
            | (_, Some file) \<Rightarrow> do {
                (s', dlog) \<leftarrow> WriteSnapshot ext vs (mk_walWriter ext file);
                Some (s', True, vs\<lparr>vs_descriptor := Some (name, dlog)\<rparr>) }))"

definition append_manifest ::
  "(u32 \<Rightarrow> bytes \<Rightarrow> u32) \<Rightarrow> posix \<Rightarrow> bytes \<Rightarrow> VersionSet \<Rightarrow> (State \<times> VersionSet) option" where
  "append_manifest ext P record vs = do {
     (name, dlog) \<leftarrow> vs_descriptor vs;
     (s, log1) \<leftarrow> Appendrecord ext record dlog;
     if \<not> State_ok s then Some (s, vs\<lparr>vs_descriptor := Some (name, log1)\<rparr>)
     else do {
       (s', file) \<leftarrow> file_Sync P name (wal_file log1);
       Some (s', vs\<lparr>vs_descriptor := Some (name, log1\<lparr>wal_file := file\<rparr>)\<rparr>) } }"

definition LogAndApply ::
  "(rat \<Rightarrow> rat) \<Rightarrow> (u32 \<Rightarrow> bytes \<Rightarrow> u32) \<Rightarrow> posix \<Rightarrow> VersionEdit \<Rightarrow> VersionSet \<Rightarrow> (State \<times> VersionSet) option" where
  "LogAndApply rnd ext P edit0 vs0 = do {
     let edit = SetLastSequence (vs_last_sequence vs0) (SetNextFile (vs_next_file_number vs0)
           (if ve_has_log_number edit0 then edit0 else SetLogNumber (vs_log_number vs0) edit0));
     (cp, builder) \<leftarrow> Builder_Apply edit (vs_compact_pointer vs0, mk_Builder (vs_nowversion vs0));
     v \<leftarrow> Builder_SaveTo builder;
     let vs1 = Finalize rnd v (vs0\<lparr>vs_compact_pointer := cp\<rparr>);
     (s1, new_manifest, vs2) \<leftarrow> open_manifest ext P vs1;
     (s2, vs3) \<leftarrow> (if State_ok s1 then append_manifest ext P (VersionEdit_EncodeTo edit []) vs2 else Some (s1, vs2));
     s3 \<leftarrow> (if State_ok s2 \<and> new_manifest
            then map_option fst (SetCurrentFile P (vs_dbname vs3) (vs_manifest_file_number vs3)) else Some s2);
     Some (if State_ok s3
       then (s3, vs3\<lparr>vs_nowversion := v, vs_versionlist := v_files v # vs_versionlist vs3, vs_log_number := ve_log_number edit\<rparr>)
       else (s3, vs3\<lparr>vs_descriptor := None\<rparr>)) }"

text \<open>The variables of the loop of \<open>Recover\<close>: the numbers are \<open>None\<close> as long as no edit has had them.\<close>

record recover_state =
  rs_s :: State
  rs_builder :: "(nat \<Rightarrow> bytes) \<times> Builder"
  rs_log_number :: "u64 option"
  rs_next_file :: "u64 option"
  rs_last_sequence :: "u64 option"

definition Recover_record :: "bytes \<Rightarrow> recover_state \<Rightarrow> recover_state option" where
  "Recover_record str st = do {
     let (s, edit) = VersionEdit_DecodeFrom str mk_VersionEdit;
     b \<leftarrow> (if State_ok s then Builder_Apply edit (rs_builder st) else Some (rs_builder st));
     Some \<lparr>rs_s = s, rs_builder = b,
       rs_log_number = (if ve_has_log_number edit then Some (ve_log_number edit) else rs_log_number st),
       rs_next_file = (if ve_has_next_file_number edit then Some (ve_next_file_number edit) else rs_next_file st),
       rs_last_sequence = (if ve_has_last_sequence edit then Some (ve_last_sequence edit) else rs_last_sequence st)\<rparr> }"

partial_function (option) Recover_loop ::
  "(u32 \<Rightarrow> bytes \<Rightarrow> u32) \<Rightarrow> bytes \<Rightarrow> Reader \<Rightarrow> recover_state \<Rightarrow> recover_state option" where
  "Recover_loop ext ptr reads st =
     Option.bind (ReadRecord ext True ptr reads) (\<lambda>(ok, ptr', reads').
       if ok \<and> State_ok (rs_s st)
       then Option.bind (Recover_record ptr' st) (\<lambda>st'. Recover_loop ext ptr' reads' st')
       else Some st)"

text \<open>The status, \<open>*save_manifest\<close> and the version set.\<close>

definition VersionSet_Recover ::
  "(rat \<Rightarrow> rat) \<Rightarrow> (u32 \<Rightarrow> bytes \<Rightarrow> u32) \<Rightarrow> posix \<Rightarrow> VersionSet \<Rightarrow> (State \<times> bool \<times> VersionSet) option" where
  "VersionSet_Recover rnd ext P vs =
     (case env_ReadFileToString P (CurrentFileName (vs_dbname vs)) of (s, current) \<Rightarrow>
        if \<not> State_ok s then Some (s, False, vs)
        else if current = [] \<or> last current \<noteq> 10 then Some (kcorruption, False, vs)
        else
          (case NewReadFile P (vs_dbname vs @ ''/'' @ string_of (butlast current)) of
             (s, None) \<Rightarrow> Some (if State_IsNotFound s then kcorruption else s, False, vs)
           | (_, Some file) \<Rightarrow> do {
               st \<leftarrow> Recover_loop ext [] (mk_Reader file True 0)
                 \<lparr>rs_s = kok, rs_builder = (vs_compact_pointer vs, mk_Builder (vs_nowversion vs)),
                  rs_log_number = None, rs_next_file = None, rs_last_sequence = None\<rparr>;
               let (cp, builder) = rs_builder st;
               let vs1 = vs\<lparr>vs_compact_pointer := cp\<rparr>;
               if \<not> State_ok (rs_s st) then Some (rs_s st, False, vs1)
               else
                 (let vs2 = (if vs_next_file_number vs1 \<le> vs_log_number vs1
                             then vs1\<lparr>vs_next_file_number := vs_log_number vs1 + 1\<rparr> else vs1)
                  in case (rs_next_file st, rs_log_number st, rs_last_sequence st) of
                       (Some next_file, Some log_number, Some last_sequence) \<Rightarrow> do {
                         v \<leftarrow> Builder_SaveTo builder;
                         let vs3 = Finalize rnd v vs2;
                         Some (kok, True, vs3\<lparr>vs_versionlist := v_files v # vs_versionlist vs3,
                           vs_manifest_file_number := next_file, vs_next_file_number := next_file + 1,
                           vs_last_sequence := last_sequence, vs_log_number := log_number\<rparr>) }
                     | _ \<Rightarrow> Some (kcorruption, False, vs2)) }))"

section \<open>Compaction\<close>

record Compaction =
  co_level :: int
  co_max_output_file_size :: u64
  co_input_version :: "Version option"
  co_edit :: VersionEdit
  co_inputs0 :: "FileMate list"
  co_inputs1 :: "FileMate list"
  co_grandparents :: "FileMate list"
  co_grand_index :: nat
  co_seen_key :: bool
  co_overlapbytes :: u64
  co_level_ptrs :: "nat \<Rightarrow> nat"

definition mk_Compaction :: "u32 \<Rightarrow> int \<Rightarrow> Compaction" where
  "mk_Compaction max_file_size level =
     \<lparr>co_level = level, co_max_output_file_size = ucast max_file_size, co_input_version = None,
      co_edit = mk_VersionEdit, co_inputs0 = [], co_inputs1 = [], co_grandparents = [],
      co_grand_index = 0, co_seen_key = False, co_overlapbytes = 0, co_level_ptrs = (\<lambda>level. 0)\<rparr>"

text \<open>The product is 32 bits wide, and compared as an \<open>int64_t\<close>.\<close>

definition MaxGrandParentOverlapBytes :: "u32 \<Rightarrow> int" where
  "MaxGrandParentOverlapBytes max_file_size = uint (10 * max_file_size)"

definition IsTrivialMove :: "VersionSet \<Rightarrow> Compaction \<Rightarrow> bool" where
  "IsTrivialMove vs c \<longleftrightarrow>
     length (co_inputs0 c) = 1 \<and> length (co_inputs1 c) = 0 \<and>
     sint (TotalFileSize (co_grandparents c)) \<le> uint (vs_max_file_size vs * 10)"

definition AddInputDeletions :: "Compaction \<Rightarrow> VersionEdit \<Rightarrow> VersionEdit" where
  "AddInputDeletions c edit =
     (let e1 = fold (\<lambda>f. VersionEdit_DeleteFile (co_level c) (fm_num f)) (co_inputs0 c) edit
      in fold (\<lambda>f. VersionEdit_DeleteFile (co_level c + 1) (fm_num f)) (co_inputs1 c) e1)"

text \<open>The inner loop of \<open>IsBaseLevelForKey\<close>: whether it returned false, and \<open>level_ptrs[lvl]\<close>.\<close>

function IsBaseLevel_scan :: "bytes \<Rightarrow> FileMate list \<Rightarrow> nat \<Rightarrow> (bool \<times> nat) option" where
  "IsBaseLevel_scan user_key files ptr =
     (if ptr < length files then
        (let f = files ! ptr
         in Option.bind (InternalKey_getusrkeyview (fm_largest f)) (\<lambda>large.
            Option.bind (cmp_view user_key large) (\<lambda>r.
              if r \<le> 0 then
                Option.bind (InternalKey_getusrkeyview (fm_smallest f)) (\<lambda>small.
                Option.bind (cmp_view user_key small) (\<lambda>r'. Some (r' \<ge> 0, ptr)))
              else IsBaseLevel_scan user_key files (ptr + 1))))
      else Some (False, ptr))"
  by pat_completeness auto

termination
  by (relation "measure (\<lambda>(u, files, ptr). length files - ptr)") auto

declare IsBaseLevel_scan.simps [simp del]

fun IsBaseLevel_levels ::
  "bytes \<Rightarrow> (nat \<Rightarrow> FileMate list) \<Rightarrow> nat list \<Rightarrow> (nat \<Rightarrow> nat) \<Rightarrow> (bool \<times> (nat \<Rightarrow> nat)) option" where
  "IsBaseLevel_levels user_key files [] ptrs = Some (True, ptrs)"
| "IsBaseLevel_levels user_key files (lvl # lvls) ptrs = do {
     (found, p) \<leftarrow> IsBaseLevel_scan user_key (files lvl) (ptrs lvl);
     if found then Some (False, ptrs(lvl := p))
     else IsBaseLevel_levels user_key files lvls (ptrs(lvl := p)) }"

definition IsBaseLevelForKey :: "bytes \<Rightarrow> Compaction \<Rightarrow> (bool \<times> Compaction) option" where
  "IsBaseLevelForKey user_key c = do {
     v \<leftarrow> co_input_version c;
     (ok, ptrs) \<leftarrow> IsBaseLevel_levels user_key (v_files v) [nat (co_level c + 2)..<kNumLevels] (co_level_ptrs c);
     Some (ok, c\<lparr>co_level_ptrs := ptrs\<rparr>) }"

text \<open>The loop of \<open>ShouldStopBefore\<close> over the grandparents that end before the key.\<close>

fun ShouldStop_loop :: "bytes \<Rightarrow> bool \<Rightarrow> FileMate list \<Rightarrow> nat \<Rightarrow> u64 \<Rightarrow> (nat \<times> u64) option" where
  "ShouldStop_loop internal_key seen [] i bytes = Some (i, bytes)"
| "ShouldStop_loop internal_key seen (g # gs) i bytes = do {
     r \<leftarrow> cmp_view internal_key (fm_largest g);
     if r > 0 then ShouldStop_loop internal_key seen gs (i + 1) (if seen then bytes + fm_file_size g else bytes)
     else Some (i, bytes) }"

definition ShouldStopBefore :: "u32 \<Rightarrow> bytes \<Rightarrow> Compaction \<Rightarrow> (bool \<times> Compaction) option" where
  "ShouldStopBefore max_file_size internal_key c = do {
     (i, bytes) \<leftarrow> ShouldStop_loop internal_key (co_seen_key c) (drop (co_grand_index c) (co_grandparents c))
        (co_grand_index c) (co_overlapbytes c);
     let c1 = c\<lparr>co_grand_index := i, co_seen_key := True\<rparr>;
     Some (if sint bytes > MaxGrandParentOverlapBytes max_file_size
       then (True, c1\<lparr>co_overlapbytes := 0\<rparr>) else (False, c1\<lparr>co_overlapbytes := bytes\<rparr>)) }"

text \<open>\<open>GetRange\<close>: both comparisons are the wrong way around, so the range shrinks.\<close>

fun GetRange_loop :: "FileMate list \<Rightarrow> InternalKey \<Rightarrow> InternalKey \<Rightarrow> (InternalKey \<times> InternalKey) option" where
  "GetRange_loop [] smallest largest = Some (smallest, largest)"
| "GetRange_loop (p # ps) smallest largest = do {
     r1 \<leftarrow> cmp smallest (fm_smallest p);
     r2 \<leftarrow> cmp largest (fm_largest p);
     GetRange_loop ps (if r1 < 0 then fm_smallest p else smallest) (if r2 > 0 then fm_largest p else largest) }"

definition GetRange :: "FileMate list \<Rightarrow> (InternalKey \<times> InternalKey) option" where
  "GetRange inputs =
     (case inputs of [] \<Rightarrow> None | p # ps \<Rightarrow> GetRange_loop ps (fm_smallest p) (fm_largest p))"

definition GetRange2 :: "FileMate list \<Rightarrow> FileMate list \<Rightarrow> (InternalKey \<times> InternalKey) option" where
  "GetRange2 inputs1 inputs2 = GetRange (inputs1 @ inputs2)"

text \<open>The part of \<open>SetupOtherInputs\<close> that tries to take more files of the lower level.\<close>

definition expand_inputs ::
  "Version \<Rightarrow> InternalKey \<Rightarrow> InternalKey \<Rightarrow> InternalKey \<times> Compaction
    \<Rightarrow> (InternalKey \<times> (InternalKey \<times> InternalKey) \<times> Compaction) option" where
  "expand_inputs v all_start all_limit st = do {
     let (largest, c) = st;
     expand \<leftarrow> GetOverlappFiles v (co_level c) (Some all_start) (Some all_limit);
     if length expand > length (co_inputs0 c) then do {
       (new_start, new_limit) \<leftarrow> GetRange expand;
       expanded1 \<leftarrow> GetOverlappFiles v (co_level c + 1) (Some new_start) (Some new_limit);
       if length expanded1 = length (co_inputs1 c) then do {
         all \<leftarrow> GetRange2 expand expanded1;
         Some (new_limit, all, c\<lparr>co_inputs0 := expand, co_inputs1 := expanded1\<rparr>) }
       else Some (largest, (all_start, all_limit), c) }
     else Some (largest, (all_start, all_limit), c) }"

definition SetupOtherInputs :: "Compaction \<Rightarrow> VersionSet \<Rightarrow> (Compaction \<times> VersionSet) option" where
  "SetupOtherInputs cop vs = do {
     let v = vs_nowversion vs;
     (smallest, largest) \<leftarrow> GetRange (co_inputs0 cop);
     inputs1 \<leftarrow> GetOverlappFiles v (co_level cop + 1) (Some smallest) (Some largest);
     let c1 = cop\<lparr>co_inputs1 := inputs1\<rparr>;
     (all_start, all_limit) \<leftarrow> GetRange2 (co_inputs0 c1) (co_inputs1 c1);
     (largest', (start', limit'), c2) \<leftarrow>
       (if inputs1 \<noteq> [] then expand_inputs v all_start all_limit (largest, c1)
        else Some (largest, (all_start, all_limit), c1));
     if co_level c2 + 2 < int kNumLevels then do {
       grandparents \<leftarrow> GetOverlappFiles v (co_level c2 + 2) (Some start') (Some limit');
       l \<leftarrow> level_index (co_level c2);
       Some (c2\<lparr>co_grandparents := grandparents, co_edit := SetCompactPointer (co_level c2) largest' (co_edit c2)\<rparr>,
         vs\<lparr>vs_compact_pointer := (vs_compact_pointer vs)(l := largest')\<rparr>) }
     else Some (c2, vs) }"

text \<open>The first file of the level that ends before the compaction pointer, or any file while there is no pointer.\<close>

fun Pick_input :: "bytes \<Rightarrow> FileMate list \<Rightarrow> FileMate list option" where
  "Pick_input pointer [] = Some []"
| "Pick_input pointer (f # fs) =
     (if pointer = [] then Some [f]
      else do {
        r \<leftarrow> cmp_view pointer (fm_largest f);
        if r > 0 then Some [f] else Pick_input pointer fs })"

text \<open>\<open>Some None\<close> is the null pointer.\<close>

definition PickCompaction :: "VersionSet \<Rightarrow> (Compaction option \<times> VersionSet) option" where
  "PickCompaction vs =
     (if \<not> NeedsCompaction vs then Some (None, vs)
      else do {
        let v = vs_nowversion vs;
        let level = v_compaction_level v;
        l \<leftarrow> level_index level;
        picked \<leftarrow> Pick_input (vs_compact_pointer vs l) (v_files v l);
        inputs0 \<leftarrow> (if picked = [] then (case v_files v l of [] \<Rightarrow> None | f # _ \<Rightarrow> Some [f]) else Some picked);
        let c = (mk_Compaction (vs_max_file_size vs) level)\<lparr>co_inputs0 := inputs0, co_input_version := Some v\<rparr>;
        c' \<leftarrow> (if level = 0 then do {
                (small, large) \<leftarrow> GetRange inputs0;
                ov \<leftarrow> GetOverlappFiles v 0 (Some small) (Some large);
                Some (c\<lparr>co_inputs0 := ov\<rparr>) } else Some c);
        (c'', vs') \<leftarrow> SetupOtherInputs c' vs;
        Some (Some c'', vs') })"

text \<open>
  \<open>MakeInputIterator\<close>: only an empty list of inputs gets an iterator, over no files.  The operations of a
  two-level iterator are those of its class; its index iterator is never null here, so that it has a state.
\<close>

definition tl_ops ::
  "'d iter_ops \<Rightarrow> (bytes \<Rightarrow> 'd option option) \<Rightarrow> (LevelFileNumIterator, 'd) TweLevelIterator iter_ops" where
  "tl_ops DO block_function =
     \<lparr>io_Valid = TweLevelIterator_Valid, io_key = TweLevelIterator_key, io_value = TweLevelIterator_value DO,
      io_SeekToFirst = TweLevelIterator_SeekToFirst level_ops DO block_function,
      io_SeekToLast = TweLevelIterator_SeekToLast level_ops DO block_function,
      io_Seek = TweLevelIterator_Seek level_ops DO block_function,
      io_Next = TweLevelIterator_Next level_ops DO block_function,
      io_Prev = TweLevelIterator_Prev level_ops DO block_function,
      io_state = (\<lambda>t. case TweLevelIterator_state level_ops DO t of None \<Rightarrow> kok | Some s \<Rightarrow> s)\<rparr>"

definition input_iterators ::
  "int \<Rightarrow> FileMate list \<Rightarrow> (LevelFileNumIterator, 'd) TweLevelIterator option list" where
  "input_iterators level_plus_i inputs =
     (if inputs = [] then
        (if level_plus_i = 0 then []
         else [Some (mk_TweLevelIterator level_ops (Some (mk_LevelFileNumIterator inputs)))])
      else [])"

definition MakeInputIterator ::
  "'d iter_ops \<Rightarrow> (bytes \<Rightarrow> 'd option option) \<Rightarrow> Compaction
    \<Rightarrow> ((LevelFileNumIterator, 'd) TweLevelIterator option
         + (LevelFileNumIterator, 'd) TweLevelIterator Merageitor) option" where
  "MakeInputIterator DO block_function c =
     NewMergingIterator (tl_ops DO block_function)
       (input_iterators (co_level c) (co_inputs0 c) @ input_iterators (co_level c + 1) (co_inputs1 c))"

end
