(* ===== verification/BaseLevel.thy ===== *)
theory BaseLevel
  imports VersionSet
begin

text \<open>
  \<open>Compaction::IsBaseLevelForKey\<close> of src/src/db/version_set.cpp: the pointers that it keeps into the levels, its answer as a question
  about all files of the levels in the order it compares keys with, and what that order makes of user keys of eight bytes.
\<close>

section \<open>Ranges of user keys\<close>

text \<open>
  The code compares user keys as if they were internal keys, with the last eight bytes as a tag.  \<open>covers_key\<close> and
  \<open>level_apart\<close> are about this order, and not about the order of user keys.
\<close>

abbreviation user_low :: "FileMate \<Rightarrow> skey" where
  "user_low f \<equiv> ikey_abs (user_part (fm_smallest f))"

abbreviation user_high :: "FileMate \<Rightarrow> skey" where
  "user_high f \<equiv> ikey_abs (user_part (fm_largest f))"

definition covers_key :: "bytes \<Rightarrow> FileMate \<Rightarrow> bool" where
  "covers_key u f \<longleftrightarrow> user_low f \<le> ikey_abs u \<and> ikey_abs u \<le> user_high f"

definition level_apart :: "FileMate list \<Rightarrow> bool" where
  "level_apart files \<longleftrightarrow> sorted_wrt (\<lambda>f g. user_high f < user_low g) files \<and> (\<forall>f \<in> set files. file_wf f)"

text \<open>A pointer has only passed files that end before the key.\<close>

definition passed :: "bytes \<Rightarrow> FileMate list \<Rightarrow> nat \<Rightarrow> bool" where
  "passed u files p \<longleftrightarrow> p \<le> length files \<and> (\<forall>i < p. user_high (files ! i) < ikey_abs u)"

lemma passed_mono: "passed u files p \<Longrightarrow> ikey_abs u \<le> ikey_abs u' \<Longrightarrow> passed u' files p"
  by (auto simp: passed_def dest: less_le_trans)

lemma first_candidate:
  assumes "level_apart files" "passed u files p" "p < length files" "ikey_abs u \<le> user_high (files ! p)"
  shows "(\<exists>f \<in> set files. covers_key u f) \<longleftrightarrow> user_low (files ! p) \<le> ikey_abs u"
proof
  assume "\<exists>f \<in> set files. covers_key u f"
  then obtain j where j: "j < length files" "user_low (files ! j) \<le> ikey_abs u" "ikey_abs u \<le> user_high (files ! j)"
    by (auto simp: covers_key_def in_set_conv_nth)
  have "\<not> j < p"
    using assms(2) j(3) by (auto simp: passed_def dest: leD)
  moreover have "\<not> p < j"
  proof
    assume "p < j"
    then have "user_high (files ! p) < user_low (files ! j)"
      using assms(1) j(1) by (simp add: level_apart_def sorted_wrt_iff_nth_less)
    then show False
      using assms(4) j(2) by (meson leD le_less_trans)
  qed
  ultimately show "user_low (files ! p) \<le> ikey_abs u"
    using j(2) by (simp add: linorder_cases [of j p])
qed (use assms(3,4) in \<open>auto simp: covers_key_def\<close>)

section \<open>The scan\<close>

lemma file_user_keys:
  assumes "file_wf f" "user_wf u"
  obtains r r' where "InternalKey_getusrkeyview (fm_largest f) = Some (user_part (fm_largest f))"
    "InternalKey_getusrkeyview (fm_smallest f) = Some (user_part (fm_smallest f))"
    "cmp_view u (user_part (fm_largest f)) = Some r" "r \<le> 0 \<longleftrightarrow> ikey_abs u \<le> user_high f"
    "cmp_view u (user_part (fm_smallest f)) = Some r'" "0 \<le> r' \<longleftrightarrow> user_low f \<le> ikey_abs u"
proof -
  have wf: "ikey_wf u" "ikey_wf (user_part (fm_largest f))" "ikey_wf (user_part (fm_smallest f))"
    using assms by (auto simp: user_wf_def file_wf_def user_part_def ikey_wf_def)
  let ?c = "\<lambda>k. if ikey_abs u < ikey_abs k then -1 else if ikey_abs k < ikey_abs u then 1 else (0 :: int)"
  have "?c (user_part (fm_largest f)) \<le> 0 \<longleftrightarrow> ikey_abs u \<le> user_high f" "0 \<le> ?c (user_part (fm_smallest f)) \<longleftrightarrow> user_low f \<le> ikey_abs u"
    by (auto simp: not_less)
  moreover have "InternalKey_getusrkeyview (fm_largest f) = Some (user_part (fm_largest f))"
      "InternalKey_getusrkeyview (fm_smallest f) = Some (user_part (fm_smallest f))"
    using assms(1) by (simp_all add: InternalKey_getusrkeyview_def file_wf_def user_part_def)
  ultimately show ?thesis
    using that [of "?c (user_part (fm_largest f))" "?c (user_part (fm_smallest f))"] wf by (simp add: cmp_view_cmp cmp_abs)
qed

lemma IsBaseLevel_scan_covers:
  assumes "level_apart files" "user_wf u" "passed u files p"
  shows "\<exists>p'. IsBaseLevel_scan u files p = Some (\<exists>f \<in> set files. covers_key u f, p') \<and> passed u files p'"
  using assms
proof (induction u files p rule: IsBaseLevel_scan.induct)
  case (1 u files p)
  show ?case
  proof (cases "p < length files")
    case True
    let ?f = "files ! p"
    have "file_wf ?f"
      using "1.prems"(1) True by (simp add: level_apart_def)
    then obtain r r' where k: "InternalKey_getusrkeyview (fm_largest ?f) = Some (user_part (fm_largest ?f))"
      "InternalKey_getusrkeyview (fm_smallest ?f) = Some (user_part (fm_smallest ?f))"
      "cmp_view u (user_part (fm_largest ?f)) = Some r" "r \<le> 0 \<longleftrightarrow> ikey_abs u \<le> user_high ?f"
      "cmp_view u (user_part (fm_smallest ?f)) = Some r'" "0 \<le> r' \<longleftrightarrow> user_low ?f \<le> ikey_abs u"
      using file_user_keys "1.prems"(2) by metis
    show ?thesis
    proof (cases "r \<le> 0")
      case r: True
      then have "(\<exists>f \<in> set files. covers_key u f) \<longleftrightarrow> user_low ?f \<le> ikey_abs u"
        using first_candidate [OF "1.prems"(1,3) True] k(4) by simp
      then show ?thesis
        using "1.prems"(3) True r k by (simp add: IsBaseLevel_scan.simps [of u files p] Let_def)
    next
      case r: False
      then have "passed u files (p + 1)"
        using "1.prems"(3) True k(4) by (auto simp: passed_def less_Suc_eq not_le)
      then show ?thesis
        using "1.IH" [OF True refl k(1,3) r] "1.prems"(1,2) True r k by (simp add: IsBaseLevel_scan.simps [of u files p] Let_def)
    qed
  next
    case False
    have "\<not> covers_key u f" if "f \<in> set files" for f
      using that "1.prems"(3) False by (auto simp: passed_def covers_key_def in_set_conv_nth dest: leD)
    then show ?thesis
      using "1.prems"(3) False by (auto simp: IsBaseLevel_scan.simps [of u files p])
  qed
qed

lemma IsBaseLevel_levels_covers:
  assumes "\<forall>l. level_apart (files l)" "user_wf u" "\<forall>l. passed u (files l) (ptrs l)"
  shows "\<exists>ptrs'. IsBaseLevel_levels u files ls ptrs = Some (\<forall>l \<in> set ls. \<forall>f \<in> set (files l). \<not> covers_key u f, ptrs') \<and>
    (\<forall>l. passed u (files l) (ptrs' l))"
  using assms(3)
proof (induction ls arbitrary: ptrs)
  case (Cons l ls)
  obtain p where p: "IsBaseLevel_scan u (files l) (ptrs l) = Some (\<exists>f \<in> set (files l). covers_key u f, p)" "passed u (files l) p"
    using IsBaseLevel_scan_covers assms(1,2) Cons.prems by blast
  then have q: "\<forall>k. passed u (files k) ((ptrs(l := p)) k)"
    using Cons.prems by simp
  then obtain ptrs' where r: "IsBaseLevel_levels u files ls (ptrs(l := p)) =
      Some (\<forall>l \<in> set ls. \<forall>f \<in> set (files l). \<not> covers_key u f, ptrs')" "\<forall>l. passed u (files l) (ptrs' l)"
    using Cons.IH by blast
  show ?case
  proof (cases "\<exists>f \<in> set (files l). covers_key u f")
    case True
    then show ?thesis
      using p(1) q by (intro exI [of _ "ptrs(l := p)"]) auto
  next
    case False
    then show ?thesis
      using p(1) r by (intro exI [of _ ptrs']) auto
  qed
qed simp

section \<open>Keys in order\<close>

text \<open>The answers for a sequence of keys, as a compaction asks for them.\<close>

fun base_levels :: "bytes list \<Rightarrow> Compaction \<Rightarrow> (bool list \<times> Compaction) option" where
  "base_levels [] c = Some ([], c)"
| "base_levels (u # us) c = do {
     (ok, c1) \<leftarrow> IsBaseLevelForKey u c;
     (oks, c2) \<leftarrow> base_levels us c1;
     Some (ok # oks, c2) }"

lemma base_levels_covers:
  assumes "\<forall>l. level_apart (v_files v l)"
  shows "co_input_version c = Some v \<Longrightarrow> \<forall>u \<in> set us. user_wf u \<Longrightarrow> sorted (map ikey_abs us) \<Longrightarrow>
    \<forall>u \<in> set us. \<forall>l. passed u (v_files v l) (co_level_ptrs c l) \<Longrightarrow>
    \<exists>c'. base_levels us c =
      Some (map (\<lambda>u. \<forall>l \<in> {nat (co_level c + 2)..<kNumLevels}. \<forall>f \<in> set (v_files v l). \<not> covers_key u f) us, c')"
proof (induction us arbitrary: c)
  case (Cons u us)
  then have u: "user_wf u" "\<forall>l. passed u (v_files v l) (co_level_ptrs c l)"
    by simp_all
  obtain ptrs where p: "IsBaseLevel_levels u (v_files v) [nat (co_level c + 2)..<kNumLevels] (co_level_ptrs c) =
      Some (\<forall>l \<in> set [nat (co_level c + 2)..<kNumLevels]. \<forall>f \<in> set (v_files v l). \<not> covers_key u f, ptrs)"
      "\<forall>l. passed u (v_files v l) (ptrs l)"
    using IsBaseLevel_levels_covers [OF assms u] by blast
  let ?c = "c\<lparr>co_level_ptrs := ptrs\<rparr>"
  have "\<forall>w \<in> set us. \<forall>l. passed w (v_files v l) (co_level_ptrs ?c l)"
    using p(2) Cons.prems(3) by (auto intro: passed_mono)
  then obtain c' where "base_levels us ?c =
      Some (map (\<lambda>u. \<forall>l \<in> {nat (co_level c + 2)..<kNumLevels}. \<forall>f \<in> set (v_files v l). \<not> covers_key u f) us, c')"
    using Cons.IH [of ?c] Cons.prems(1-3) by auto
  then show ?case
    using p(1) Cons.prems(1) by (auto simp: IsBaseLevelForKey_def)
qed simp

section \<open>Properties\<close>

text \<open>
  The pointers of \<open>IsBaseLevelForKey\<close> do not change its answers: over levels whose files lie apart, and for keys that ascend, both in the
  order of the code, a new compaction answers for each key exactly whether no file of the levels from two above its own on covers it in that order.
\<close>

theorem IsBaseLevelForKey_reference:
  assumes "\<forall>l. level_apart (v_files v l)" "co_input_version c = Some v" "co_level_ptrs c = (\<lambda>l. 0)"
    and "\<forall>u \<in> set us. user_wf u" "sorted (map ikey_abs us)"
  shows "\<exists>c'. base_levels us c =
    Some (map (\<lambda>u. \<forall>l \<in> {nat (co_level c + 2)..<kNumLevels}. \<forall>f \<in> set (v_files v l). \<not> covers_key u f) us, c')"
  by (rule base_levels_covers [OF assms(1,2,4,5)]) (simp add: assms(3) passed_def)

theorem IsBaseLevelForKey_reference_witness:
  "\<exists>c'. base_levels [[1, 0, 0, 0, 0, 0, 0, 0, 0], [4, 0, 0, 0, 0, 0, 0, 0, 0], [8, 0, 0, 0, 0, 0, 0, 0, 0]]
      ((mk_Compaction 100 0)\<lparr>co_input_version := Some (mk_Version\<lparr>v_files := (\<lambda>l. if l = 3
         then [demo_file 7 [3, 0, 0, 0, 0, 0, 0, 0, 0] [5, 0, 0, 0, 0, 0, 0, 0, 0]] else [])\<rparr>)\<rparr>) = Some ([True, False, True], c')"
proof -
  let ?u = "\<lambda>n. [n, 0, 0, 0, 0, 0, 0, 0, 0] :: bytes"
  let ?f = "demo_file 7 (?u 3) (?u 5)"
  let ?v = "mk_Version\<lparr>v_files := (\<lambda>l. if l = 3 then [?f] else [])\<rparr>"
  have o: "ikey_abs (?u 1) < ikey_abs (?u 3)" "ikey_abs (?u 3) < ikey_abs (?u 4)" "ikey_abs (?u 4) < ikey_abs (?u 5)" "ikey_abs (?u 5) < ikey_abs (?u 8)"
    by code_simp+
  have part: "user_part (mk_InternalKey u n t) = u" for u n t
    by (simp add: user_part_def mk_InternalKey_def PutFixed64_def)
  have apart: "\<forall>l. level_apart (v_files ?v l)"
    by (simp add: level_apart_def file_wf_def demo_file_def)
  let ?c = "(mk_Compaction 100 0)\<lparr>co_input_version := Some ?v\<rparr>"
  have "\<exists>c'. base_levels [?u 1, ?u 4, ?u 8] ?c =
      Some (map (\<lambda>u. \<forall>l \<in> {nat (co_level ?c + 2)..<kNumLevels}. \<forall>f \<in> set (v_files ?v l). \<not> covers_key u f) [?u 1, ?u 4, ?u 8], c')"
    by (rule IsBaseLevelForKey_reference [OF apart]) (use o in \<open>auto simp: mk_Compaction_def user_wf_def\<close>)
  moreover have "co_level ?c = 0"
    by (simp add: mk_Compaction_def)
  moreover have "\<not> covers_key (?u 1) ?f" "covers_key (?u 4) ?f" "\<not> covers_key (?u 8) ?f"
    using o by (auto simp: covers_key_def demo_file_def part)
  ultimately show ?thesis
    by (simp add: kNumLevels_def)
qed

section \<open>User keys of eight bytes\<close>

text \<open>In the order of the code a user key of eight bytes is all tag, and the greater number comes first.\<close>

lemma cmp_view_eight:
  "length u = 8 \<Longrightarrow> length k = 8 \<Longrightarrow>
    cmp_view u k = Some (if le64 k < le64 u then - 1 else if le64 u < le64 k then 1 else 0)"
  by (auto simp: cmp_view_def DecodeFixed64_def)

definition eight_range :: "FileMate \<Rightarrow> bool" where
  "eight_range f \<longleftrightarrow> length (fm_smallest f) = 16 \<and> length (fm_largest f) = 16 \<and>
     le64 (user_part (fm_smallest f)) < le64 (user_part (fm_largest f))"

lemma IsBaseLevel_scan_misses:
  assumes "\<forall>f \<in> set files. eight_range f" "length u = 8"
  shows "\<exists>p'. IsBaseLevel_scan u files p = Some (False, p')"
  using assms
proof (induction u files p rule: IsBaseLevel_scan.induct)
  case (1 u files p)
  show ?case
  proof (cases "p < length files")
    case True
    let ?f = "files ! p"
    have f: "eight_range ?f"
      using "1.prems"(1) True by simp
    then have k: "InternalKey_getusrkeyview (fm_largest ?f) = Some (user_part (fm_largest ?f))"
      "InternalKey_getusrkeyview (fm_smallest ?f) = Some (user_part (fm_smallest ?f))"
      "length (user_part (fm_largest ?f)) = 8" "length (user_part (fm_smallest ?f)) = 8"
      by (simp_all add: eight_range_def InternalKey_getusrkeyview_def user_part_def)
    show ?thesis
    proof (cases "le64 u < le64 (user_part (fm_largest ?f))")
      case True
      have "cmp_view u (user_part (fm_largest ?f)) = Some 1"
        using True "1.prems"(2) k(3) by (auto simp: cmp_view_eight)
      then show ?thesis
        using "1.IH" [OF \<open>p < length files\<close> refl k(1)] "1.prems" \<open>p < length files\<close> k(1)
        by (simp add: IsBaseLevel_scan.simps [of u files p] Let_def)
    next
      case False
      then have "le64 (user_part (fm_smallest ?f)) < le64 u"
        using f by (auto simp: eight_range_def not_less intro: less_le_trans)
      then show ?thesis
        using False True "1.prems"(2) k by (auto simp: IsBaseLevel_scan.simps [of u files p] Let_def cmp_view_eight)
    qed
  qed (simp add: IsBaseLevel_scan.simps [of u files p])
qed

lemma IsBaseLevel_levels_misses:
  assumes "\<forall>l \<in> set ls. \<forall>f \<in> set (files l). eight_range f" "length u = 8"
  shows "\<exists>ptrs'. IsBaseLevel_levels u files ls ptrs = Some (True, ptrs')"
  using assms(1)
proof (induction ls arbitrary: ptrs)
  case (Cons l ls)
  obtain p where "IsBaseLevel_scan u (files l) (ptrs l) = Some (False, p)"
    using IsBaseLevel_scan_misses assms(2) Cons.prems by (meson list.set_intros(1))
  moreover have "\<exists>ptrs'. IsBaseLevel_levels u files ls (ptrs(l := p)) = Some (True, ptrs')"
    by (rule Cons.IH) (use Cons.prems in simp)
  ultimately show ?case
    by (simp del: fun_upd_apply)
qed simp

text \<open>
  C29: \<open>IsBaseLevelForKey\<close> overlooks the files that hold a key: for user keys of eight bytes, and when in each file of the levels from two above
  the compaction on the smallest user key, read as a little-endian number, is below the largest, it answers for every key, whatever the pointers and
  the files, that no file covers it, also for a key that lies between the smallest and the largest user key of one.
\<close>

theorem IsBaseLevelForKey_overlooks:
  assumes "co_input_version c = Some v" "length u = 8"
    and "\<forall>l \<in> {nat (co_level c + 2)..<kNumLevels}. \<forall>f \<in> set (v_files v l). length (fm_smallest f) = 16 \<and> length (fm_largest f) = 16 \<and>
      le64 (user_part (fm_smallest f)) < le64 (user_part (fm_largest f))"
  shows "\<exists>c'. IsBaseLevelForKey u c = Some (True, c')"
proof -
  have "\<forall>l \<in> set [nat (co_level c + 2)..<kNumLevels]. \<forall>f \<in> set (v_files v l). eight_range f"
    using assms(3) by (simp add: eight_range_def)
  from IsBaseLevel_levels_misses [OF this assms(2), of "co_level_ptrs c"] show ?thesis
    using assms(1) by (auto simp: IsBaseLevelForKey_def)
qed

text \<open>A file over the user keys from 0..01 to 0..04, and the key 0..03.\<close>

theorem IsBaseLevelForKey_overlooks_witness:
  "\<exists>f v c c'. v_files v 3 = [f] \<and> file_contains [0, 0, 0, 0, 0, 0, 0, 3] f \<and> co_level c = 0 \<and> co_input_version c = Some v \<and>
    IsBaseLevelForKey [0, 0, 0, 0, 0, 0, 0, 3] c = Some (True, c')"
proof -
  let ?u = "\<lambda>n. [0, 0, 0, 0, 0, 0, 0, n] :: bytes"
  let ?f = "demo_file 7 (?u 1) (?u 4)"
  let ?v = "mk_Version\<lparr>v_files := (\<lambda>l. if l = 3 then [?f] else [])\<rparr>"
  let ?c = "(mk_Compaction 100 0)\<lparr>co_input_version := Some ?v\<rparr>"
  have part: "user_part (mk_InternalKey u n t) = u" for u n t
    by (simp add: user_part_def mk_InternalKey_def PutFixed64_def)
  have "le64 (?u 1) < le64 (?u 4)"
    by (simp add: le64_def)
  then have "\<exists>c'. IsBaseLevelForKey (?u 3) ?c = Some (True, c')"
    by (intro IsBaseLevelForKey_overlooks [of _ ?v]) (simp_all add: mk_Compaction_def demo_file_def part)
  moreover have "file_contains (?u 3) ?f"
    by (simp add: file_contains_def demo_file_def part)
  moreover have "co_level ?c = 0" "v_files ?v 3 = [?f]" "co_input_version ?c = Some ?v"
    by (simp_all add: mk_Compaction_def)
  ultimately show ?thesis
    by blast
qed

end
