(* ===== verification/VersionBuild.thy ===== *)
theory VersionBuild
  imports VersionSet
begin

text \<open>
  The builder of the next version merges: what \<open>Apply\<close> and \<open>SaveTo\<close> of src/src/db/version_set.cpp make of a version and an
  edit, level by level.
\<close>

section \<open>The builder merges\<close>

text \<open>The order of the files in a level.\<close>

definition fkey :: "FileMate \<Rightarrow> skey \<times> u64" where
  "fkey f = (ikey_abs (fm_smallest f), fm_num f)"

definition small_wf :: "FileMate \<Rightarrow> bool" where
  "small_wf f \<longleftrightarrow> ikey_wf (fm_smallest f)"

lemma BySmallestKey_fkey: "small_wf f \<Longrightarrow> small_wf g \<Longrightarrow> BySmallestKey f g = Some (fkey f < fkey g)"
  by (auto simp: BySmallestKey_def small_wf_def cmp_abs fkey_def less_prod_def)

lemma fileset_insert_insort:
  assumes "small_wf f" "\<forall>g \<in> set gs. small_wf g" "fkey f \<notin> fkey ` set gs" "sorted (map fkey gs)"
  shows "fileset_insert f gs = Some (insort_key fkey f gs)"
  using assms(2-4)
proof (induction gs)
  case (Cons g gs)
  then have "fkey f < fkey g \<or> fkey g < fkey f"
    by (auto simp: neq_iff)
  then show ?case
    using Cons assms(1) by (auto simp: BySmallestKey_fkey)
qed simp

lemma upper_bound_split:
  assumes "small_wf f" "\<forall>g \<in> set xs. small_wf g" "sorted (map fkey xs)"
  shows "upper_bound f xs = Some (filter (\<lambda>x. fkey x \<le> fkey f) xs, filter (\<lambda>x. fkey f < fkey x) xs)"
  using assms(2,3)
proof (induction xs)
  case (Cons x xs)
  show ?case
  proof (cases "fkey f < fkey x")
    case True
    then have "\<forall>y \<in> set xs. fkey f < fkey y"
      using Cons.prems(2) by (auto intro: less_le_trans)
    then have "filter (\<lambda>x. fkey x \<le> fkey f) xs = []" "filter (\<lambda>x. fkey f < fkey x) xs = xs"
      by (auto simp: filter_empty_conv not_le filter_id_conv)
    then show ?thesis
      using True Cons.prems assms(1) by (simp add: BySmallestKey_fkey not_le)
  next
    case False
    then show ?thesis
      using Cons assms(1) by (simp add: BySmallestKey_fkey not_less)
  qed
qed simp

lemma fold_MaybeAddFile: "fold (MaybeAddFile D) fs acc = acc @ filter (\<lambda>f. fm_num f \<notin> D) fs"
  by (induction fs arbitrary: acc) (simp_all add: MaybeAddFile_def)

lemma SaveTo_files_merge:
  assumes "sorted (map fkey added)" "sorted (map fkey base)" "\<forall>f \<in> set added \<union> set base. small_wf f"
    and "sorted (map fkey acc)" "\<forall>f \<in> set acc. \<forall>g \<in> set added \<union> set base. fkey f \<le> fkey g"
  shows "\<exists>files. SaveTo_files D added base acc = Some files \<and> sorted (map fkey files) \<and>
    mset files = mset acc + filter_mset (\<lambda>f. fm_num f \<notin> D) (mset added + mset base)"
  using assms
proof (induction added arbitrary: base acc)
  case Nil
  then show ?case
    by (auto simp: fold_MaybeAddFile sorted_append sorted_filter)
next
  case (Cons a as)
  let ?S = "filter (\<lambda>x. fkey x \<le> fkey a) base" and ?R = "filter (\<lambda>x. fkey a < fkey x) base"
  let ?k = "filter (\<lambda>f. fm_num f \<notin> D)"
  have ub: "upper_bound a base = Some (?S, ?R)"
    using Cons.prems by (intro upper_bound_split) auto
  have S: "sorted (map fkey ?S)" "sorted (map fkey ?R)"
    using Cons.prems(2) by (simp_all add: sorted_filter)
  let ?acc = "acc @ ?k ?S @ ?k [a]"
  have "sorted (map fkey ?acc)"
    using Cons.prems(2,4,5) by (auto simp: sorted_append sorted_filter)
  moreover have "\<forall>f \<in> set ?acc. \<forall>g \<in> set as \<union> set ?R. fkey f \<le> fkey g"
    using Cons.prems(1,5) by (auto intro: order_trans less_imp_le)
  moreover have "\<forall>f \<in> set as \<union> set ?R. small_wf f" "sorted (map fkey as)"
    using Cons.prems(1,3) by auto
  ultimately obtain files where f: "SaveTo_files D as ?R ?acc = Some files" "sorted (map fkey files)"
      "mset files = mset ?acc + filter_mset (\<lambda>f. fm_num f \<notin> D) (mset as + mset ?R)"
    using Cons.IH [of ?R ?acc] S(2) by blast
  have "mset base = mset ?S + mset ?R"
    using multiset_partition [of "mset base" "\<lambda>x. fkey x \<le> fkey a"] by (simp add: not_le)
  then have "filter_mset (\<lambda>f. fm_num f \<notin> D) (mset base) = mset (?k ?S) + filter_mset (\<lambda>f. fm_num f \<notin> D) (mset ?R)"
    by (simp only: filter_union_mset mset_filter [symmetric])
  then have "mset files = mset acc + filter_mset (\<lambda>f. fm_num f \<notin> D) (mset (a # as) + mset base)"
    unfolding f(3) by (simp del: filter_filter filter_filter_mset)
  moreover have "SaveTo_files D (a # as) base acc = Some files"
    using f(1) ub by (cases "fm_num a \<in> D") (simp_all add: fold_MaybeAddFile MaybeAddFile_def)
  ultimately show ?case
    using f(2) by blast
qed

definition files_apart :: "FileMate list \<Rightarrow> bool" where
  "files_apart files \<longleftrightarrow> successively (\<lambda>f g. ikey_abs (fm_largest f) < ikey_abs (fm_smallest g)) files"

definition both_wf :: "FileMate \<Rightarrow> bool" where
  "both_wf f \<longleftrightarrow> ikey_wf (fm_smallest f) \<and> ikey_wf (fm_largest f)"

lemma check_overlap_apart:
  "\<forall>f \<in> set files. both_wf f \<Longrightarrow> check_overlap files = (if files_apart files then Some () else None)"
  by (induction files rule: check_overlap.induct) (auto simp: files_apart_def both_wf_def cmp_abs)

section \<open>Applying an edit\<close>

text \<open>What an edit deletes and adds on a level.\<close>

definition new_at :: "VersionEdit \<Rightarrow> nat \<Rightarrow> FileMate list" where
  "new_at edit l = map snd (filter (\<lambda>p. fst p = int l) (ve_new_files edit))"

definition deleted_at :: "VersionEdit \<Rightarrow> nat \<Rightarrow> u64 set" where
  "deleted_at edit l = {n. (int l, n) \<in> set (ve_deleted_files edit)} - fm_num ` set (new_at edit l)"

definition edit_levels_ok :: "VersionEdit \<Rightarrow> bool" where
  "edit_levels_ok edit \<longleftrightarrow>
     (\<forall>p \<in> set (ve_compact_pointers edit). level_index (fst p) \<noteq> None) \<and>
     (\<forall>p \<in> set (ve_deleted_files edit). level_index (fst p) \<noteq> None) \<and>
     (\<forall>p \<in> set (ve_new_files edit). level_index (fst p) \<noteq> None)"

lemma level_index_Some: "level_index level = Some l \<longleftrightarrow> level = int l \<and> l < kNumLevels"
  by (auto simp: level_index_def)

lemma apply_pointers_total:
  "\<forall>p \<in> set ps. level_index (fst p) \<noteq> None \<Longrightarrow> \<exists>cp'. apply_pointers ps cp = Some cp'"
  by (induction ps cp rule: apply_pointers.induct) auto

lemma apply_deleted_at:
  "\<forall>p \<in> set ds. level_index (fst p) \<noteq> None \<Longrightarrow> \<exists>ls'. apply_deleted ds ls = Some ls' \<and>
    (\<forall>l. ls_deleted_files (ls' l) = {n. (int l, n) \<in> set ds} \<union> ls_deleted_files (ls l) \<and>
      ls_added_files (ls' l) = ls_added_files (ls l))"
proof (induction ds ls rule: apply_deleted.induct)
  case (2 level number ds ls)
  then obtain l where l: "level_index level = Some l" "level = int l"
    by (auto simp: level_index_Some)
  show ?case
    using "2.IH" [OF l(1)] "2.prems" l by fastforce
qed simp

lemma apply_new_at:
  "\<forall>p \<in> set fs. level_index (fst p) \<noteq> None \<and> small_wf (snd p) \<Longrightarrow>
   \<forall>l. \<forall>g \<in> set (ls_added_files (ls l)). small_wf g \<Longrightarrow> \<forall>l. sorted (map fkey (ls_added_files (ls l))) \<Longrightarrow>
   \<forall>l. distinct (map fkey (ls_added_files (ls l) @ map snd (filter (\<lambda>p. fst p = int l) fs))) \<Longrightarrow>
   \<exists>ls'. apply_new fs ls = Some ls' \<and>
    (\<forall>l. ls_deleted_files (ls' l) = ls_deleted_files (ls l) - fm_num ` snd ` {p \<in> set fs. fst p = int l} \<and>
      sorted (map fkey (ls_added_files (ls' l))) \<and>
      mset (ls_added_files (ls' l)) = mset (ls_added_files (ls l)) + mset (map snd (filter (\<lambda>p. fst p = int l) fs)))"
proof (induction fs ls rule: apply_new.induct)
  case (2 level f fs ls)
  obtain l where l: "level_index level = Some l" "level = int l"
    using "2.prems"(1) by (auto simp: level_index_Some)
  have f: "small_wf f" "fkey f \<notin> fkey ` set (ls_added_files (ls l))"
    using "2.prems"(1) spec [OF "2.prems"(4), of l] by (auto simp: l(2))
  let ?added = "insort_key fkey f (ls_added_files (ls l))"
  have ins: "fileset_insert f (ls_added_files (ls l)) = Some ?added"
    using f "2.prems"(2,3) by (intro fileset_insert_insort) auto
  let ?ls = "ls(l := \<lparr>ls_deleted_files = ls_deleted_files (ls l) - {fm_num f}, ls_added_files = ?added\<rparr>)"
  have p: "\<forall>l. \<forall>g \<in> set (ls_added_files (?ls l)). small_wf g" "\<forall>l. sorted (map fkey (ls_added_files (?ls l)))"
    using f(1) "2.prems"(2,3) by (auto simp: set_insort_key sorted_insort_key)
  have d: "distinct (map fkey (ls_added_files (?ls l') @ map snd (filter (\<lambda>p. fst p = int l') fs)))" for l'
  proof -
    have "mset (map fkey (ls_added_files (?ls l') @ map snd (filter (\<lambda>p. fst p = int l') fs))) =
        mset (map fkey (ls_added_files (ls l') @ map snd (filter (\<lambda>p. fst p = int l') ((level, f) # fs))))"
      by (simp add: l(2))
    then show ?thesis
      using spec [OF "2.prems"(4), of l'] mset_eq_imp_distinct_iff by blast
  qed
  have q: "\<forall>p \<in> set fs. level_index (fst p) \<noteq> None \<and> small_wf (snd p)"
    using "2.prems"(1) by simp
  obtain ls' where ls': "apply_new fs ?ls = Some ls'"
      "\<And>l'. ls_deleted_files (ls' l') = ls_deleted_files (?ls l') - fm_num ` snd ` {p \<in> set fs. fst p = int l'}"
      "\<And>l'. sorted (map fkey (ls_added_files (ls' l')))"
      "\<And>l'. mset (ls_added_files (ls' l')) = mset (ls_added_files (?ls l')) + mset (map snd (filter (\<lambda>p. fst p = int l') fs))"
    by (rule exE [OF "2.IH" [OF l(1) ins q p allI [OF d]]], elim conjE) (simp only: simp_thms)
  have e: "{p \<in> set ((level, f) # fs). fst p = int l'} =
      (if l' = l then insert (level, f) {p \<in> set fs. fst p = int l'} else {p \<in> set fs. fst p = int l'})" for l'
    by (auto simp: l(2))
  show ?case
  proof (intro exI [of _ ls'] conjI allI)
    show "apply_new ((level, f) # fs) ls = Some ls'"
      using ls'(1) l(1) ins by simp
    fix l'
    show "ls_deleted_files (ls' l') = ls_deleted_files (ls l') - fm_num ` snd ` {p \<in> set ((level, f) # fs). fst p = int l'}"
      unfolding e ls'(2) by auto
    show "mset (ls_added_files (ls' l')) =
        mset (ls_added_files (ls l')) + mset (map snd (filter (\<lambda>p. fst p = int l') ((level, f) # fs)))"
      unfolding ls'(4) by (simp add: l(2))
  qed (rule ls'(3))
qed simp

lemma those_map_total:
  assumes "\<And>x. x \<in> set xs \<Longrightarrow> f x = (if P x then Some (g x) else None)"
  shows "those (map f xs) = (if \<forall>x \<in> set xs. P x then Some (map g xs) else None)"
  using assms by (induction xs) auto

text \<open>The files of a level after the edit: what is left of the base and what is new, in order.\<close>

definition level_after :: "Version \<Rightarrow> VersionEdit \<Rightarrow> nat \<Rightarrow> FileMate list \<Rightarrow> bool" where
  "level_after base edit l files \<longleftrightarrow> sorted (map fkey files) \<and>
     mset files = filter_mset (\<lambda>f. fm_num f \<notin> deleted_at edit l) (mset (v_files base l) + mset (new_at edit l))"

definition base_wf :: "Version \<Rightarrow> bool" where
  "base_wf base \<longleftrightarrow> (\<forall>l. sorted (map fkey (v_files base l)) \<and> (\<forall>f \<in> set (v_files base l). both_wf f))"

definition edit_files_wf :: "VersionEdit \<Rightarrow> bool" where
  "edit_files_wf edit \<longleftrightarrow> edit_levels_ok edit \<and> (\<forall>p \<in> set (ve_new_files edit). both_wf (snd p)) \<and>
     (\<forall>l. distinct (map fkey (new_at edit l)))"

lemma Builder_builds:
  assumes base: "base_wf base" and edit: "edit_files_wf edit"
  obtains cp' b files where "Builder_Apply edit (cp, mk_Builder base) = Some (cp', b)"
    "\<And>l. level_after base edit l (files l)"
    "Builder_SaveTo b = (if \<forall>l \<in> {1..<kNumLevels}. files_apart (files l)
       then Some (mk_Version\<lparr>v_files := (\<lambda>l. if l < kNumLevels then files l else [])\<rparr>) else None)"
proof -
  let ?ls0 = "bu_levels (mk_Builder base)"
  have z: "ls_deleted_files (?ls0 l) = {}" "ls_added_files (?ls0 l) = []" for l
    by (simp_all add: mk_Builder_def)
  obtain cp' where cp': "apply_pointers (ve_compact_pointers edit) cp = Some cp'"
    using apply_pointers_total edit unfolding edit_files_wf_def edit_levels_ok_def by blast
  obtain ls1 where ls1: "apply_deleted (ve_deleted_files edit) ?ls0 = Some ls1"
      "\<And>l. ls_deleted_files (ls1 l) = {n. (int l, n) \<in> set (ve_deleted_files edit)}" "\<And>l. ls_added_files (ls1 l) = []"
    using apply_deleted_at [of "ve_deleted_files edit" ?ls0] edit z
    by (auto simp: edit_files_wf_def edit_levels_ok_def)
  have n: "\<forall>p \<in> set (ve_new_files edit). level_index (fst p) \<noteq> None \<and> small_wf (snd p)"
      "\<forall>l. distinct (map fkey (ls_added_files (ls1 l) @ map snd (filter (\<lambda>p. fst p = int l) (ve_new_files edit))))"
    using edit by (auto simp: edit_files_wf_def edit_levels_ok_def both_wf_def small_wf_def ls1(3) new_at_def)
  obtain ls2 where ls2: "apply_new (ve_new_files edit) ls1 = Some ls2"
      "\<And>l. ls_deleted_files (ls2 l) = ls_deleted_files (ls1 l) - fm_num ` snd ` {p \<in> set (ve_new_files edit). fst p = int l}"
      "\<And>l. sorted (map fkey (ls_added_files (ls2 l)))"
      "\<And>l. mset (ls_added_files (ls2 l)) = mset (ls_added_files (ls1 l)) + mset (map snd (filter (\<lambda>p. fst p = int l) (ve_new_files edit)))"
    by (rule exE [OF apply_new_at [OF n(1) _ _ n(2)]]) (auto simp: ls1(3))
  have del: "ls_deleted_files (ls2 l) = deleted_at edit l" for l
    unfolding ls2(2) ls1(2) by (auto simp: deleted_at_def new_at_def)
  have add: "mset (ls_added_files (ls2 l)) = mset (new_at edit l)" for l
    unfolding ls2(4) ls1(3) by (simp add: new_at_def)
  have wf: "\<forall>f \<in> set (ls_added_files (ls2 l)) \<union> set (v_files base l). both_wf f" for l
    using base edit mset_eq_setD [OF add [of l]] by (auto simp: base_wf_def edit_files_wf_def new_at_def)
  let ?b = "(mk_Builder base)\<lparr>bu_levels := ls2\<rparr>"
  have "\<exists>files. SaveTo_files (deleted_at edit l) (ls_added_files (ls2 l)) (v_files base l) [] = Some files \<and>
      level_after base edit l files \<and> (\<forall>f \<in> set files. both_wf f)" for l
  proof -
    obtain files where f: "SaveTo_files (deleted_at edit l) (ls_added_files (ls2 l)) (v_files base l) [] = Some files"
        "sorted (map fkey files)"
        "mset files = mset [] + filter_mset (\<lambda>f. fm_num f \<notin> deleted_at edit l) (mset (ls_added_files (ls2 l)) + mset (v_files base l))"
      using SaveTo_files_merge [OF ls2(3), of "v_files base l" l "[]" "deleted_at edit l"] wf [of l] base
      by (auto simp: base_wf_def both_wf_def small_wf_def)
    have "set files \<subseteq> set (ls_added_files (ls2 l)) \<union> set (v_files base l)"
      using arg_cong [OF f(3), of set_mset] by auto
    then show ?thesis
      using f wf [of l] add [of l] by (auto simp: level_after_def add.commute)
  qed
  then obtain files where files: "\<And>l. SaveTo_files (deleted_at edit l) (ls_added_files (ls2 l)) (v_files base l) [] = Some (files l)"
      "\<And>l. level_after base edit l (files l)" "\<And>l. \<forall>f \<in> set (files l). both_wf f"
    by metis
  have bu: "bu_levels ?b = ls2" "bu_base ?b = base"
    by (simp_all add: mk_Builder_def)
  have "SaveTo_level ?b l = (if l = 0 \<or> files_apart (files l) then Some (files l) else None)" for l
    using check_overlap_apart [OF files(3)] by (simp add: SaveTo_level_def del files(1) bu)
  then have "those (map (SaveTo_level ?b) [0..<kNumLevels]) =
      (if \<forall>l \<in> set [0..<kNumLevels]. l = 0 \<or> files_apart (files l) then Some (map files [0..<kNumLevels]) else None)"
    by (intro those_map_total)
  also have "(\<forall>l \<in> set [0..<kNumLevels]. l = 0 \<or> files_apart (files l)) \<longleftrightarrow> (\<forall>l \<in> {1..<kNumLevels}. files_apart (files l))"
    by (auto simp: Suc_le_eq Ball_def)
  finally have "Builder_SaveTo ?b = (if \<forall>l \<in> {1..<kNumLevels}. files_apart (files l)
       then Some (mk_Version\<lparr>v_files := (\<lambda>l. if l < kNumLevels then files l else [])\<rparr>) else None)"
    by (simp add: Builder_SaveTo_def cong: if_cong)
  then show ?thesis
    using that [of cp' ?b files] files(2) cp' ls1(1) ls2(1) by (simp add: Builder_Apply_def mk_Builder_def)
qed

section \<open>Properties\<close>

text \<open>
  C17: The builder refines a merge of multisets: applied to a version whose levels are sorted and an edit, \<open>Apply\<close> and
  \<open>SaveTo\<close> give each level the files of the base and of the edit that the edit does not delete, each once, in the order
  of their smallest keys; \<open>SaveTo\<close> aborts exactly when two files that follow each other in a level from 1 on overlap.
\<close>

theorem Builder_merges:
  assumes "base_wf base" "edit_files_wf edit"
  shows "\<exists>cp' b files. Builder_Apply edit (cp, mk_Builder base) = Some (cp', b) \<and>
    (\<forall>l. sorted (map fkey (files l)) \<and>
       mset (files l) = filter_mset (\<lambda>f. fm_num f \<notin> deleted_at edit l) (mset (v_files base l) + mset (new_at edit l))) \<and>
    Builder_SaveTo b = (if \<forall>l \<in> {1..<kNumLevels}. files_apart (files l)
      then Some (mk_Version\<lparr>v_files := (\<lambda>l. if l < kNumLevels then files l else [])\<rparr>) else None)"
proof (rule Builder_builds [OF assms, of cp])
  fix cp' b files
  assume "Builder_Apply edit (cp, mk_Builder base) = Some (cp', b)" "\<And>l. level_after base edit l (files l)"
    "Builder_SaveTo b = (if \<forall>l \<in> {1..<kNumLevels}. files_apart (files l)
       then Some (mk_Version\<lparr>v_files := (\<lambda>l. if l < kNumLevels then files l else [])\<rparr>) else None)"
  then show ?thesis
    unfolding level_after_def by blast
qed

text \<open>A file that is replaced, in level 2.\<close>

definition key_file :: "u64 \<Rightarrow> byte \<Rightarrow> byte \<Rightarrow> FileMate" where
  "key_file num small large = \<lparr>fm_num = num, fm_file_size = 100, fm_smallest = small # replicate 8 0, fm_largest = large # replicate 8 0\<rparr>"

definition two_files :: Version where
  "two_files = mk_Version\<lparr>v_files := (\<lambda>l. if l = 2 then [key_file 3 1 2, key_file 4 5 6] else [])\<rparr>"

definition replace_edit :: VersionEdit where
  "replace_edit = AddFile 2 5 100 (3 # replicate 8 0) (4 # replicate 8 0) (VersionEdit_DeleteFile 2 4 mk_VersionEdit)"

theorem Builder_merges_witness:
  "\<exists>cp' b files. Builder_Apply replace_edit (\<lambda>l. [], mk_Builder two_files) = Some (cp', b) \<and>
    (\<forall>l. sorted (map fkey (files l)) \<and>
       mset (files l) = filter_mset (\<lambda>f. fm_num f \<notin> deleted_at replace_edit l)
         (mset (v_files two_files l) + mset (new_at replace_edit l))) \<and>
    Builder_SaveTo b = (if \<forall>l \<in> {1..<kNumLevels}. files_apart (files l)
      then Some (mk_Version\<lparr>v_files := (\<lambda>l. if l < kNumLevels then files l else [])\<rparr>) else None)"
proof (rule Builder_merges)
  have wf: "both_wf (key_file n s l)" for n s l
    by (simp add: both_wf_def key_file_def ikey_wf_def)
  have "fkey (key_file 3 1 2) \<le> fkey (key_file 4 5 6)"
    by code_simp
  then show "base_wf two_files"
    by (simp add: base_wf_def two_files_def mk_Version_def wf)
  show "edit_files_wf replace_edit"
    by (simp add: edit_files_wf_def edit_levels_ok_def replace_edit_def new_at_def AddFile_def VersionEdit_DeleteFile_def
        mk_VersionEdit_def level_index_def kNumLevels_def both_wf_def ikey_wf_def)
qed

end
