(* ===== verification/Manifest.thy ===== *)
theory Manifest
  imports VersionBuild
begin

text \<open>
  The history of a version set: reading a manifest back with \<open>Recover\<close>, and what any sequence of edits keeps.
\<close>

section \<open>Reading a manifest\<close>

text \<open>The loop of \<open>Recover\<close> on edits that were read without an error.\<close>

fun Recover_edits :: "VersionEdit list \<Rightarrow> recover_state \<Rightarrow> recover_state option" where
  "Recover_edits [] st = Some st"
| "Recover_edits (edit # edits) st = do {
     b \<leftarrow> Builder_Apply edit (rs_builder st);
     Recover_edits edits \<lparr>rs_s = kok, rs_builder = b,
       rs_log_number = (if ve_has_log_number edit then Some (ve_log_number edit) else rs_log_number st),
       rs_next_file = (if ve_has_next_file_number edit then Some (ve_next_file_number edit) else rs_next_file st),
       rs_last_sequence = (if ve_has_last_sequence edit then Some (ve_last_sequence edit) else rs_last_sequence st)\<rparr> }"

definition edit_records :: "VersionEdit list \<Rightarrow> bytes list" where
  "edit_records edits = map (\<lambda>e. VersionEdit_EncodeTo e []) edits"

definition edit_readable :: "VersionEdit \<Rightarrow> bool" where
  "edit_readable e \<longleftrightarrow> edit_wf e \<and> ve_compact_pointers e = []"

lemma Recover_record_edit:
  assumes "edit_readable e"
  shows "Recover_record (VersionEdit_EncodeTo e []) st = do {
     b \<leftarrow> Builder_Apply e (rs_builder st);
     Some \<lparr>rs_s = kok, rs_builder = b,
       rs_log_number = (if ve_has_log_number e then Some (ve_log_number e) else rs_log_number st),
       rs_next_file = (if ve_has_next_file_number e then Some (ve_next_file_number e) else rs_next_file st),
       rs_last_sequence = (if ve_has_last_sequence e then Some (ve_last_sequence e) else rs_last_sequence st)\<rparr> }"
proof -
  have "VersionEdit_DecodeFrom (VersionEdit_EncodeTo e []) mk_VersionEdit = (kok, e)"
    using decode_encode [of e mk_VersionEdit] assms by (cases e) (simp add: edit_readable_def mk_VersionEdit_def)
  then show ?thesis
    by (simp add: Recover_record_def)
qed

lemma Recover_edits_ok: "Recover_edits edits st = Some st' \<Longrightarrow> State_ok (rs_s st) \<Longrightarrow> State_ok (rs_s st')"
  by (induction edits st rule: Recover_edits.induct) (auto split: bind_splits)

lemma Recover_loop_edits:
  assumes crc: "crc_lib ext" and e: "\<forall>e \<in> set edits. edit_readable e"
  shows "reader_at ext bo (edit_records edits) r \<Longrightarrow> wal_fits bo (edit_records edits) \<Longrightarrow>
    wal_end bo (edit_records edits) \<noteq> 32768 \<Longrightarrow> State_ok (rs_s st) \<Longrightarrow>
    Recover_edits edits st = Some st' \<Longrightarrow> Recover_loop ext ptr r st = Some st'"
  using e
proof (induction edits arbitrary: bo r st ptr)
  case Nil
  then obtain r' where "ReadRecord ext True ptr r = Some (False, [], r')"
    using ReadRecord_end [of ext bo r True ptr] by (auto simp: edit_records_def)
  then show ?case
    using Nil by (subst Recover_loop.simps) simp
next
  case (Cons edit edits)
  let ?d = "VersionEdit_EncodeTo edit []"
  obtain r1 where r1: "ReadRecord ext True ptr r = Some (True, ?d, r1)"
      "reader_at ext (wal_start bo + 7 + length ?d) (edit_records edits) r1"
    using ReadRecord_at [OF crc, of bo ?d "edit_records edits" r] Cons.prems(1,2)
    by (metis edit_records_def list.simps(9))
  obtain st1 where st1: "Recover_record ?d st = Some st1" "State_ok (rs_s st1)" "Recover_edits edits st1 = Some st'"
    using Cons.prems(5,6) Recover_record_edit [of edit st] by (auto split: bind_splits)
  have "Recover_loop ext ?d r1 st1 = Some st'"
    using Cons.IH [OF r1(2) _ _ st1(2,3)] Cons.prems(2,3,6) by (simp add: edit_records_def)
  then show ?case
    using r1(1) st1(1) Cons.prems(4) by (subst Recover_loop.simps) simp
qed

lemma ReadFileToString_plain:
  assumes "length content < 8192"
  shows "ReadFileToString \<lparr>rf_rest = content, rf_os = []\<rparr> = (kok, content)"
  using assms
  by (cases content) (simp_all add: ReadFileToString_def ReadFileToString_loop.simps ReadFile_Read_def ReadFile_loop.simps
      Let_def)

lemma Recover_installs:
  assumes crc: "crc_lib ext"
    and cur: "px_open_read P (CurrentFileName (vs_dbname vs)) = Some \<lparr>rf_rest = bytes_of (m @ [CHR 0x0A]), rf_os = []\<rparr>"
      "length m < 8191"
    and man: "px_open_read P (vs_dbname vs @ ''/'' @ m) = Some \<lparr>rf_rest = wal_image ext 0 (edit_records edits), rf_os = []\<rparr>"
    and edits: "\<forall>e \<in> set edits. edit_readable e" "wal_fits 0 (edit_records edits)" "edits \<noteq> []"
      "wal_end 0 (edit_records edits) \<noteq> 32768"
    and r: "Recover_edits edits
       \<lparr>rs_s = kok, rs_builder = (vs_compact_pointer vs, mk_Builder (vs_nowversion vs)),
        rs_log_number = None, rs_next_file = None, rs_last_sequence = None\<rparr> =
      Some \<lparr>rs_s = kok, rs_builder = (cp, b), rs_log_number = Some l, rs_next_file = Some n, rs_last_sequence = Some q\<rparr>"
    and v: "Builder_SaveTo b = Some v"
  obtains vs1 where "VersionSet_Recover rnd ext P vs = Some (kok, True,
      (Finalize rnd v vs1)\<lparr>vs_versionlist := v_files v # vs_versionlist vs, vs_manifest_file_number := n,
        vs_next_file_number := n + 1, vs_last_sequence := q, vs_log_number := l\<rparr>)"
    "vs_nowversion vs1 = vs_nowversion vs"
proof -
  let ?vs1 = "vs\<lparr>vs_compact_pointer := cp\<rparr>"
  let ?vs2 = "if vs_next_file_number vs \<le> vs_log_number vs
    then ?vs1\<lparr>vs_next_file_number := vs_log_number vs + 1\<rparr> else ?vs1"
  have c: "env_ReadFileToString P (CurrentFileName (vs_dbname vs)) = (kok, bytes_of (m @ [CHR 0x0A]))"
    using cur by (simp add: env_ReadFileToString_def NewReadFile_def ReadFileToString_plain bytes_of_def)
  have e: "bytes_of (m @ [CHR 0x0A]) \<noteq> []" "last (bytes_of (m @ [CHR 0x0A])) = 10"
      "string_of (butlast (bytes_of (m @ [CHR 0x0A]))) = m"
    using string_of_bytes_of [of m] by (simp_all add: bytes_of_def)
  have ne: "edit_records edits \<noteq> []"
    using edits(3) by (simp add: edit_records_def)
  have l: "Recover_loop ext [] (mk_Reader \<lparr>rf_rest = wal_image ext 0 (edit_records edits), rf_os = []\<rparr> True 0)
       \<lparr>rs_s = kok, rs_builder = (vs_compact_pointer vs, mk_Builder (vs_nowversion vs)),
        rs_log_number = None, rs_next_file = None, rs_last_sequence = None\<rparr> =
      Some \<lparr>rs_s = kok, rs_builder = (cp, b), rs_log_number = Some l, rs_next_file = Some n, rs_last_sequence = Some q\<rparr>"
    by (rule Recover_loop_edits [OF crc edits(1) reader_at_new _ _ _ r])
      (use edits(2,4) ne in \<open>simp_all add: wal_image_block_end\<close>)
  have "VersionSet_Recover rnd ext P vs = Some (kok, True,
      (Finalize rnd v ?vs2)\<lparr>vs_versionlist := v_files v # vs_versionlist (Finalize rnd v ?vs2),
        vs_manifest_file_number := n, vs_next_file_number := n + 1, vs_last_sequence := q, vs_log_number := l\<rparr>)"
    unfolding VersionSet_Recover_def c using e man l v by (simp add: NewReadFile_def Let_def)
  moreover have "vs_versionlist (Finalize rnd v ?vs2) = vs_versionlist vs"
    by (simp add: Finalize_def)
  ultimately show ?thesis
    using that [of ?vs2] by simp
qed

lemma Recover_takes_over:
  assumes "\<forall>c a b. ext (ext c a) b = ext c (a @ b)"
    and "px_open_read P (CurrentFileName (vs_dbname vs)) = Some \<lparr>rf_rest = bytes_of (m @ [CHR 0x0A]), rf_os = []\<rparr>"
      "length m < 8191"
      "px_open_read P (vs_dbname vs @ ''/'' @ m) = Some \<lparr>rf_rest = wal_image ext 0 (edit_records edits), rf_os = []\<rparr>"
    and "\<forall>e \<in> set edits. edit_readable e" "wal_fits 0 (edit_records edits)" "edits \<noteq> []"
      "wal_end 0 (edit_records edits) \<noteq> 32768"
    and "Recover_edits edits
       \<lparr>rs_s = kok, rs_builder = (vs_compact_pointer vs, mk_Builder (vs_nowversion vs)),
        rs_log_number = None, rs_next_file = None, rs_last_sequence = None\<rparr> = Some st"
      "rs_log_number st = Some l" "rs_next_file st = Some n" "rs_last_sequence st = Some q"
      "Builder_SaveTo (snd (rs_builder st)) = Some v"
  shows "\<exists>vs'. VersionSet_Recover rnd ext P vs = Some (kok, True, vs') \<and>
    vs_log_number vs' = l \<and> vs_next_file_number vs' = n + 1 \<and> vs_manifest_file_number vs' = n \<and> vs_last_sequence vs' = q \<and>
    vs_versionlist vs' = v_files v # vs_versionlist vs \<and> v_files (vs_nowversion vs') = v_files (vs_nowversion vs)"
proof -
  have crc: "crc_lib ext"
    using assms(1) by (simp add: crc_lib_def)
  obtain cp b where b: "rs_builder st = (cp, b)"
    by fastforce
  have "rs_s st = kok"
    using Recover_edits_ok [OF assms(9)] by (simp add: State_ok_def)
  then have st: "st = \<lparr>rs_s = kok, rs_builder = (cp, b), rs_log_number = Some l, rs_next_file = Some n,
      rs_last_sequence = Some q\<rparr>"
    using assms(10-12) b by (intro recover_state.equality) simp_all
  have v: "Builder_SaveTo b = Some v"
    using assms(13) b by simp
  show ?thesis
    by (rule Recover_installs [OF crc assms(2-8) assms(9) [unfolded st] v, where rnd = rnd]) (simp add: Finalize_def)
qed

section \<open>Writing a manifest\<close>

lemma file_Sync_flushed:
  assumes "posix_works P os" "wf_inv f" "wf_offset f = 0"
  shows "file_Sync P name f = Some (kok, f)"
proof -
  have "f\<lparr>wf_offset := 0, wf_os := wf_os f\<rparr> = f"
    using assms(3) by (cases f) simp
  then have "WritableFile_Flush f = Some (kok, f)"
    using assms(2,3) by (simp add: WritableFile_Flush_def wf_inv_def Flush_loop.simps [of _ 0])
  then show ?thesis
    using assms(1) by (simp add: file_Sync_def WritableFile_Sync_def SyncDirmainifset_def posix_works_def)
qed

lemma SetCurrentFile_writes:
  assumes "posix_works P os"
  obtains f where "SetCurrentFile P dbname n = Some (kok, Some f)"
    "wf_disk f = bytes_of (drop (length dbname + 1) (DescriptorFileName dbname n) @ [CHR 0x0A])"
proof -
  let ?data = "bytes_of (drop (length dbname + 1) (DescriptorFileName dbname n) @ [CHR 0x0A])"
  let ?f = "mk_WritableFile [] (WFull # os)"
  have l: "length ?data \<le> 65536" "length ?data > 0"
    using length_dec_digits [of 20 "unat n"] unsigned_less [of n, where 'a = nat]
    by (simp_all add: bytes_of_def DescriptorFileName_def printf_06llu_def Let_def)
  then obtain f1 where f1: "WritableFile_Append ?data ?f = Some (kok, f1)" "wf_inv f1" "wf_os f1 = WFull # os"
      "wf_abs f1 = ?data" "unat (wf_offset f1) = length ?data"
    using Append_fits [OF wf_inv_mk, of "[]" "WFull # os" ?data] by (auto simp: mk_WritableFile_def wf_abs_def)
  have "wf_offset f1 \<noteq> 0"
    using f1(5) l(2) by auto
  then have "WritableFile_Flush f1 = Some (kok, f1\<lparr>wf_disk := ?data, wf_offset := 0, wf_os := os\<rparr>)"
    using Flush_complete [OF f1(2), of 0 os] f1(3,4) by simp
  then have "SetCurrentFile P dbname n = Some (kok, Some (f1\<lparr>wf_disk := ?data, wf_offset := 0, wf_os := os\<rparr>))"
    using assms f1(1)
    by (simp add: SetCurrentFile_def Let_def env_WriteStringToFile_def NewWritableFile_def posix_works_def WriteStringToFile_def
        WritableFile_Sync_def SyncDirmainifset_def RenameFile_def of_result_def)
  then show ?thesis
    by (rule that) simp
qed

lemma SetCurrentFile_works:
  "posix_works P os \<Longrightarrow> map_option fst (SetCurrentFile P dbname n) = Some kok"
  by (rule SetCurrentFile_writes [of P os dbname n]) simp_all

lemma append_manifest_fits:
  assumes "crc_lib ext" "posix_works P os'" "vs_descriptor vs = Some (name, w)" "wal_inv ext bo w"
    and "wf_offset (wal_file w) = 0" "wf_os (wal_file w) = WFull # os" "wal_fits bo [r]"
  obtains w' where "append_manifest ext P r vs = Some (kok, vs\<lparr>vs_descriptor := Some (name, w')\<rparr>)"
    "wal_inv ext (wal_end bo [r]) w'" "wf_offset (wal_file w') = 0" "wf_os (wal_file w') = os"
    "wf_disk (wal_file w') = wf_disk (wal_file w) @ wal_image ext bo [r]"
proof -
  obtain w' where w': "Appendrecord ext r w = Some (kok, w')" "wal_inv ext (wal_start bo + 7 + length r) w'"
    "wf_os (wal_file w') = os" "wf_offset (wal_file w') = 0"
    "wf_disk (wal_file w') = wf_disk (wal_file w) @ wal_padding bo @ phys ext r"
    using Appendrecord_fits [OF assms(1,4,5,6), of r] assms(7) by auto
  have "wf_inv (wal_file w')"
    using w'(2) by (simp add: wal_inv_def)
  then have "file_Sync P name (wal_file w') = Some (kok, wal_file w')"
    using file_Sync_flushed [OF assms(2)] w'(4) by blast
  then have "append_manifest ext P r vs = Some (kok, vs\<lparr>vs_descriptor := Some (name, w')\<rparr>)"
    using w'(1) assms(3) by (simp add: append_manifest_def)
  then show ?thesis
    using that w' by simp
qed

text \<open>No file in any level of the version, and no compaction pointer: the snapshot is an empty record, which is not written.\<close>

definition snapshot_empty :: "VersionSet \<Rightarrow> bool" where
  "snapshot_empty vs \<longleftrightarrow>
     (\<forall>l < kNumLevels. v_files (vs_nowversion vs) l = []) \<and> (\<forall>l < kNumLevels. vs_compact_pointer vs l = [])"

lemma WriteSnapshot_empty:
  assumes "snapshot_empty vs"
  shows "WriteSnapshot ext vs w = Some (kok, w)"
proof -
  have f: "\<forall>x \<in> set xs. g x = id \<Longrightarrow> fold g xs = id" for g :: "nat \<Rightarrow> VersionEdit \<Rightarrow> VersionEdit" and xs
    by (induction xs) auto
  show ?thesis
    using assms unfolding WriteSnapshot_def Let_def
    by (subst f, force simp: snapshot_empty_def, subst f, force simp: snapshot_empty_def)
      (simp add: mk_VersionEdit_def VersionEdit_EncodeTo_def put_number_def Appendrecord_def Appendrecord_loop.simps)
qed

text \<open>The edit that \<open>LogAndApply\<close> applies and writes.\<close>

definition complete_edit :: "VersionSet \<Rightarrow> VersionEdit \<Rightarrow> VersionEdit" where
  "complete_edit vs edit =
     SetLastSequence (vs_last_sequence vs) (SetNextFile (vs_next_file_number vs)
       (if ve_has_log_number edit then edit else SetLogNumber (vs_log_number vs) edit))"

text \<open>What \<open>LogAndApply\<close> makes of the version set when it succeeds.\<close>

definition applied ::
  "VersionEdit \<Rightarrow> Version \<Rightarrow> VersionSet \<Rightarrow> string \<times> walWriter \<Rightarrow> VersionSet \<Rightarrow> bool" where
  "applied edit v vs dlog vs' \<longleftrightarrow> vs_nowversion vs' = v \<and> vs_versionlist vs' = v_files v # vs_versionlist vs \<and>
     vs_descriptor vs' = Some dlog \<and> vs_log_number vs' = ve_log_number edit \<and>
     vs_next_file_number vs' = vs_next_file_number vs \<and> vs_last_sequence vs' = vs_last_sequence vs"

lemma LogAndApply_applied:
  assumes "Builder_Apply (complete_edit vs edit) (vs_compact_pointer vs, mk_Builder (vs_nowversion vs)) = Some (cp, b)"
    and "Builder_SaveTo b = Some v"
    and "open_manifest ext P (Finalize rnd v (vs\<lparr>vs_compact_pointer := cp\<rparr>)) = Some (kok, new, vs2)"
    and "append_manifest ext P (VersionEdit_EncodeTo (complete_edit vs edit) []) vs2 = Some (kok, vs3)"
    and "new \<Longrightarrow> map_option fst (SetCurrentFile P (vs_dbname vs3) (vs_manifest_file_number vs3)) = Some kok"
  shows "LogAndApply rnd ext P edit vs = Some (kok, vs3\<lparr>vs_nowversion := v,
    vs_versionlist := v_files v # vs_versionlist vs3, vs_log_number := ve_log_number (complete_edit vs edit)\<rparr>)"
  using assms unfolding LogAndApply_def complete_edit_def [symmetric] by (cases new) (simp_all del: map_option_eq_Some)

lemma Finalize_update: "\<exists>now. Finalize rnd v (vs\<lparr>vs_compact_pointer := cp\<rparr>) =
    vs\<lparr>vs_compact_pointer := cp, vs_nowversion := now\<rparr> \<and> v_files now = v_files (vs_nowversion vs)"
  unfolding Finalize_def
  by (intro exI [of _ "(vs_nowversion vs)\<lparr>v_compaction_score := snd (Finalize_best rnd v),
      v_compaction_level := fst (Finalize_best rnd v)\<rparr>"]) simp

lemma LogAndApply_first:
  assumes crc: "crc_lib ext" and P: "posix_works P os"
    and b: "Builder_Apply (complete_edit vs edit) (vs_compact_pointer vs, mk_Builder (vs_nowversion vs)) = Some (vs_compact_pointer vs, b)"
      "Builder_SaveTo b = Some v"
    and vs: "vs_descriptor vs = None" "snapshot_empty vs"
    and fits: "wal_fits 0 (edit_records [complete_edit vs edit])"
  obtains w vs' where "LogAndApply rnd ext P edit vs = Some (kok, vs')"
    "applied (complete_edit vs edit) v vs (DescriptorFileName (vs_dbname vs) (vs_manifest_file_number vs), w) vs'"
    "wf_disk (wal_file w) = wal_image ext 0 (edit_records [complete_edit vs edit])"
    "wal_inv ext (wal_end 0 (edit_records [complete_edit vs edit])) w" "wf_offset (wal_file w) = 0" "wf_os (wal_file w) = os"
proof -
  let ?name = "DescriptorFileName (vs_dbname vs) (vs_manifest_file_number vs)"
  let ?r = "VersionEdit_EncodeTo (complete_edit vs edit) []"
  let ?w = "mk_walWriter ext (mk_WritableFile [] (WFull # os))"
  obtain now where now: "Finalize rnd v (vs\<lparr>vs_compact_pointer := vs_compact_pointer vs\<rparr>) = vs\<lparr>vs_nowversion := now\<rparr>"
      "v_files now = v_files (vs_nowversion vs)"
    using Finalize_update [where rnd = rnd and v = v and vs = vs and cp = "vs_compact_pointer vs"] by auto
  let ?vs1 = "vs\<lparr>vs_nowversion := now\<rparr>"
  have "snapshot_empty ?vs1"
    using vs(2) now(2) by (simp add: snapshot_empty_def)
  then have o: "open_manifest ext P (Finalize rnd v (vs\<lparr>vs_compact_pointer := vs_compact_pointer vs\<rparr>)) =
      Some (kok, True, ?vs1\<lparr>vs_descriptor := Some (?name, ?w)\<rparr>)"
    unfolding now(1) using P vs(1) WriteSnapshot_empty
    by (simp add: open_manifest_def NewWritableFile_def posix_works_def)
  have f: "wal_file ?w = mk_WritableFile [] (WFull # os)" "wf_offset (wal_file ?w) = 0" "wf_os (wal_file ?w) = WFull # os"
      "wf_disk (wal_file ?w) = []"
    by (simp_all add: mk_walWriter_def mk_WritableFile_def)
  have i: "wal_inv ext 0 ?w"
    using f by (intro wal_inv_mk) (simp_all add: wf_inv_mk)
  obtain w where w: "append_manifest ext P ?r (?vs1\<lparr>vs_descriptor := Some (?name, ?w)\<rparr>) =
      Some (kok, ?vs1\<lparr>vs_descriptor := Some (?name, ?w)\<rparr>\<lparr>vs_descriptor := Some (?name, w)\<rparr>)"
    "wal_inv ext (wal_end 0 [?r]) w" "wf_offset (wal_file w) = 0" "wf_os (wal_file w) = os"
    "wf_disk (wal_file w) = wf_disk (wal_file ?w) @ wal_image ext 0 [?r]"
    by (rule append_manifest_fits [OF crc P _ i f(2,3), where name = ?name and r = ?r
        and vs = "?vs1\<lparr>vs_descriptor := Some (?name, ?w)\<rparr>"])
      (use fits in \<open>simp_all add: edit_records_def\<close>)
  show ?thesis
    using that [OF LogAndApply_applied [OF b o w(1) SetCurrentFile_works [OF P]], of w] w(2-) f(4)
    by (simp add: applied_def edit_records_def)
qed

lemma LogAndApply_next:
  assumes crc: "crc_lib ext" and P: "posix_works P os'"
    and b: "Builder_Apply (complete_edit vs edit) (vs_compact_pointer vs, mk_Builder (vs_nowversion vs)) = Some (cp, b)"
      "Builder_SaveTo b = Some v"
    and w: "vs_descriptor vs = Some (name, w)" "wal_inv ext bo w" "wf_offset (wal_file w) = 0" "wf_os (wal_file w) = WFull # os"
    and fits: "wal_fits bo (edit_records [complete_edit vs edit])"
  obtains w' vs' where "LogAndApply rnd ext P edit vs = Some (kok, vs')"
    "applied (complete_edit vs edit) v vs (name, w') vs'"
    "wf_disk (wal_file w') = wf_disk (wal_file w) @ wal_image ext bo (edit_records [complete_edit vs edit])"
    "wal_inv ext (wal_end bo (edit_records [complete_edit vs edit])) w'" "wf_offset (wal_file w') = 0" "wf_os (wal_file w') = os"
proof -
  let ?r = "VersionEdit_EncodeTo (complete_edit vs edit) []"
  obtain now where now: "Finalize rnd v (vs\<lparr>vs_compact_pointer := cp\<rparr>) = vs\<lparr>vs_compact_pointer := cp, vs_nowversion := now\<rparr>"
    using Finalize_update [where rnd = rnd and v = v and vs = vs and cp = cp] by blast
  let ?vs1 = "vs\<lparr>vs_compact_pointer := cp, vs_nowversion := now\<rparr>"
  have o: "open_manifest ext P (Finalize rnd v (vs\<lparr>vs_compact_pointer := cp\<rparr>)) = Some (kok, False, ?vs1)"
    using w(1) by (simp add: now open_manifest_def)
  obtain w' where w': "append_manifest ext P ?r ?vs1 = Some (kok, ?vs1\<lparr>vs_descriptor := Some (name, w')\<rparr>)"
    "wal_inv ext (wal_end bo [?r]) w'" "wf_offset (wal_file w') = 0" "wf_os (wal_file w') = os"
    "wf_disk (wal_file w') = wf_disk (wal_file w) @ wal_image ext bo [?r]"
    by (rule append_manifest_fits [OF crc P _ w(2-4), where name = name and r = ?r and vs = ?vs1])
      (use w(1) fits in \<open>simp_all add: edit_records_def\<close>)
  show ?thesis
    using that [OF LogAndApply_applied [OF b o w'(1)], of w'] w'(2-)
    by (simp add: applied_def edit_records_def)
qed

text \<open>An edit without files leaves a version without files.\<close>

definition edit_no_files :: "VersionEdit \<Rightarrow> bool" where
  "edit_no_files edit \<longleftrightarrow> ve_compact_pointers edit = [] \<and> ve_deleted_files edit = [] \<and> ve_new_files edit = []"

lemma Builder_Apply_no_files:
  "edit_no_files edit \<Longrightarrow> Builder_Apply edit st = Some st"
  by (cases st) (simp add: edit_no_files_def Builder_Apply_def)

lemma complete_edit_no_files: "edit_no_files edit \<Longrightarrow> edit_no_files (complete_edit vs edit)"
  by (simp add: edit_no_files_def complete_edit_def SetLastSequence_def SetNextFile_def SetLogNumber_def)

lemma Builder_SaveTo_no_files:
  assumes "\<forall>l < kNumLevels. v_files base l = []"
  shows "Builder_SaveTo (mk_Builder base) = Some mk_Version"
proof -
  have "SaveTo_level (mk_Builder base) l = (if True then Some [] else None)" if "l \<in> set [0..<kNumLevels]" for l
    using assms that by (simp add: SaveTo_level_def mk_Builder_def)
  then have "those (map (SaveTo_level (mk_Builder base)) [0..<kNumLevels]) = Some (map (\<lambda>l. []) [0..<kNumLevels])"
    by (subst those_map_total [where P = "\<lambda>l. True" and g = "\<lambda>l. []"]) auto
  then have "Builder_SaveTo (mk_Builder base) =
      Some (mk_Version\<lparr>v_files := (\<lambda>l. if l < kNumLevels then map (\<lambda>l. []) [0..<kNumLevels] ! l else [])\<rparr>)"
    by (simp add: Builder_SaveTo_def)
  also have "(\<lambda>l. if l < kNumLevels then map (\<lambda>l. [] :: FileMate list) [0..<kNumLevels] ! l else []) = v_files mk_Version"
    by (auto simp: mk_Version_def)
  finally show ?thesis
    by (simp add: mk_Version_def)
qed

end
