(* ===== verification/History.thy ===== *)
theory History
  imports Manifest
begin

text \<open>
  What sequences of edits and recoveries keep of a version set, and what reopening a database does to it.
\<close>

section \<open>Histories\<close>

text \<open>
  What happens to the version set of a database as long as nothing fails: numbers are allocated and sequence numbers
  set; edits are applied; and a recovery is followed by an edit, as \<open>Open\<close> does it.
\<close>

inductive vs_step :: "VersionSet \<Rightarrow> VersionSet \<Rightarrow> bool" where
  step_number: "vs_step vs (snd (NewFileNumber vs))"
| step_sequence: "vs_step vs (SetLastSequence_vs seq vs)"
| step_apply: "LogAndApply rnd ext P edit vs = Some (kok, vs') \<Longrightarrow> vs_step vs vs'"
| step_open: "VersionSet_Recover rnd ext P vs = Some (kok, save_manifest, vs1) \<Longrightarrow>
    LogAndApply rnd ext P' edit (snd (NewFileNumber vs1)) = Some (kok, vs2) \<Longrightarrow> vs_step vs vs2"

text \<open>The same with edits that could not be written to the manifest.\<close>

inductive vs_any_step :: "VersionSet \<Rightarrow> VersionSet \<Rightarrow> bool" where
  any_ok: "vs_step vs vs' \<Longrightarrow> vs_any_step vs vs'"
| any_failed: "LogAndApply rnd ext P edit vs = Some (s, vs') \<Longrightarrow> \<not> State_ok s \<Longrightarrow> vs_any_step vs vs'"

lemma AddLiveFiles_eq:
  "AddLiveFiles vs live = live \<union> {fm_num f |f files l. files \<in> set (vs_versionlist vs) \<and> l < kNumLevels \<and> f \<in> set (files l)}"
proof -
  have 1: "fold (\<lambda>f. insert (fm_num f)) fs live = live \<union> fm_num ` set fs" for fs live
    by (induction fs arbitrary: live) auto
  have 2: "fold (\<lambda>level. fold (\<lambda>f. insert (fm_num f)) (files level)) levels live =
      live \<union> {fm_num f |f l. l \<in> set levels \<and> f \<in> set (files l)}" for files :: "nat \<Rightarrow> FileMate list" and levels live
    by (induction levels arbitrary: live) (auto simp: 1)
  have 3: "fold (\<lambda>files a. a \<union> g files) vl live = live \<union> (\<Union>files \<in> set vl. g files)"
    for g :: "(nat \<Rightarrow> FileMate list) \<Rightarrow> u64 set" and vl live
    by (induction vl arbitrary: live) auto
  show ?thesis
    unfolding AddLiveFiles_def 2 3 by auto
qed

text \<open>\<open>open_manifest\<close> and \<open>append_manifest\<close> only touch the log of the manifest.\<close>

lemma open_manifest_keeps:
  "open_manifest ext P vs = Some (s, new, vs') \<Longrightarrow>
    vs_versionlist vs' = vs_versionlist vs \<and> vs_nowversion vs' = vs_nowversion vs"
  by (auto simp: open_manifest_def Let_def split: if_splits option.splits prod.splits bind_splits)

lemma append_manifest_keeps:
  "append_manifest ext P rec vs = Some (s, vs') \<Longrightarrow>
    vs_versionlist vs' = vs_versionlist vs \<and> vs_nowversion vs' = vs_nowversion vs"
  by (auto simp: append_manifest_def split: if_splits bind_splits)

lemma Builder_SaveTo_score: "Builder_SaveTo b = Some v \<Longrightarrow> v_compaction_score v = - 1"
  by (auto simp: Builder_SaveTo_def mk_Version_def split: bind_splits)

lemma Finalize_keeps [simp]: "vs_versionlist (Finalize rnd v vs) = vs_versionlist vs"
  by (simp add: Finalize_def)

lemma LogAndApply_steps:
  assumes "LogAndApply rnd ext P edit vs = Some (s, vs')"
  obtains rec log_number cp b v s1 new vs2 s2 vs3 where
    "Builder_Apply (complete_edit vs edit) (vs_compact_pointer vs, mk_Builder (vs_nowversion vs)) = Some (cp, b)"
    "Builder_SaveTo b = Some v"
    "open_manifest ext P (Finalize rnd v (vs\<lparr>vs_compact_pointer := cp\<rparr>)) = Some (s1, new, vs2)"
    "(if State_ok s1 then append_manifest ext P rec vs2 else Some (s1, vs2)) = Some (s2, vs3)"
    "vs' = (if State_ok s
       then vs3\<lparr>vs_nowversion := v, vs_versionlist := v_files v # vs_versionlist vs3, vs_log_number := log_number\<rparr>
       else vs3\<lparr>vs_descriptor := None\<rparr>)"
proof -
  note x = assms [unfolded LogAndApply_def Let_def]
  obtain y where y: "Builder_Apply (SetLastSequence (vs_last_sequence vs) (SetNextFile (vs_next_file_number vs)
        (if ve_has_log_number edit then edit else SetLogNumber (vs_log_number vs) edit)))
      (vs_compact_pointer vs, mk_Builder (vs_nowversion vs)) = Some y"
    using x by (auto split: bind_splits)
  obtain cp b where cp: "y = (cp, b)"
    by fastforce
  note x = x [unfolded y cp Option.bind.bind_lunit prod.case]
  obtain v where v: "Builder_SaveTo b = Some v"
    using x by (auto split: bind_splits)
  note x = x [unfolded v Option.bind.bind_lunit]
  obtain z where z: "open_manifest ext P (Finalize rnd v (vs\<lparr>vs_compact_pointer := cp\<rparr>)) = Some z"
    using x by (auto split: bind_splits)
  obtain s1 new vs2 where z': "z = (s1, new, vs2)"
    by (cases z) auto
  note x = x [unfolded z z' Option.bind.bind_lunit prod.case]
  obtain w where w: "(if State_ok s1 then append_manifest ext P (VersionEdit_EncodeTo (SetLastSequence (vs_last_sequence vs)
        (SetNextFile (vs_next_file_number vs) (if ve_has_log_number edit then edit else SetLogNumber (vs_log_number vs) edit))) [])
      vs2 else Some (s1, vs2)) = Some w"
    using x by (auto split: bind_splits)
  obtain s2 vs3 where w': "w = (s2, vs3)"
    by fastforce
  note x = x [unfolded w w' Option.bind.bind_lunit prod.case]
  obtain s3 where "Some (if State_ok s3
       then (s3, vs3\<lparr>vs_nowversion := v, vs_versionlist := v_files v # vs_versionlist vs3,
         vs_log_number := ve_log_number (SetLastSequence (vs_last_sequence vs) (SetNextFile (vs_next_file_number vs)
           (if ve_has_log_number edit then edit else SetLogNumber (vs_log_number vs) edit)))\<rparr>)
       else (s3, vs3\<lparr>vs_descriptor := None\<rparr>)) = Some (s, vs')"
    using x by (auto split: bind_splits)
  then show ?thesis
    using that [OF y [folded complete_edit_def, unfolded cp] v z [unfolded z'] w [unfolded w']] by (cases "State_ok s3") auto
qed

lemma LogAndApply_result:
  assumes "LogAndApply rnd ext P edit vs = Some (s, vs')"
  obtains cp b v where
    "Builder_Apply (complete_edit vs edit) (vs_compact_pointer vs, mk_Builder (vs_nowversion vs)) = Some (cp, b)"
    "Builder_SaveTo b = Some v"
    "if State_ok s then vs_nowversion vs' = v \<and> vs_versionlist vs' = v_files v # vs_versionlist vs
     else v_files (vs_nowversion vs') = v_files (vs_nowversion vs) \<and> vs_versionlist vs' = vs_versionlist vs"
  using assms
proof (rule LogAndApply_steps)
  fix rec log_number cp b v s1 new vs2 s2 vs3
  assume 1: "Builder_Apply (complete_edit vs edit) (vs_compact_pointer vs, mk_Builder (vs_nowversion vs)) = Some (cp, b)"
      "Builder_SaveTo b = Some v"
    and 2: "open_manifest ext P (Finalize rnd v (vs\<lparr>vs_compact_pointer := cp\<rparr>)) = Some (s1, new, vs2)"
    and 3: "(if State_ok s1 then append_manifest ext P rec vs2 else Some (s1, vs2)) = Some (s2, vs3)"
    and r: "vs' = (if State_ok s
       then vs3\<lparr>vs_nowversion := v, vs_versionlist := v_files v # vs_versionlist vs3, vs_log_number := log_number\<rparr>
       else vs3\<lparr>vs_descriptor := None\<rparr>)"
  have "vs_versionlist vs3 = vs_versionlist vs" "v_files (vs_nowversion vs3) = v_files (vs_nowversion vs)"
    using open_manifest_keeps [OF 2] append_manifest_keeps [of ext P rec vs2] 3 by (auto simp: Finalize_def split: if_splits)
  then show ?thesis
    using r that [OF 1] by simp
qed

lemma LogAndApply_keeps:
  assumes "LogAndApply rnd ext P edit vs = Some (s, vs')"
  shows "set (vs_versionlist vs) \<subseteq> set (vs_versionlist vs') \<and>
    (State_ok s \<longrightarrow> v_files (vs_nowversion vs') \<in> set (vs_versionlist vs') \<and> v_compaction_score (vs_nowversion vs') = - 1) \<and>
    (\<not> State_ok s \<longrightarrow> v_files (vs_nowversion vs') = v_files (vs_nowversion vs) \<and> vs_versionlist vs' = vs_versionlist vs)"
  using assms
  by (rule LogAndApply_result) (auto dest: Builder_SaveTo_score split: if_splits)

lemma Recover_keeps:
  assumes "VersionSet_Recover rnd ext P vs = Some (s, save_manifest, vs')"
  shows "set (vs_versionlist vs) \<subseteq> set (vs_versionlist vs')"
  using assms unfolding VersionSet_Recover_def Let_def by (auto split: prod.splits if_splits option.splits bind_splits)

definition vs_listed :: "VersionSet \<Rightarrow> bool" where
  "vs_listed vs \<longleftrightarrow> v_files (vs_nowversion vs) \<in> set (vs_versionlist vs)"

definition vs_idle :: "VersionSet \<Rightarrow> bool" where
  "vs_idle vs \<longleftrightarrow> v_compaction_score (vs_nowversion vs) = - 1"

lemma vs_step_keeps:
  "vs_step vs vs' \<Longrightarrow> set (vs_versionlist vs) \<subseteq> set (vs_versionlist vs') \<and>
    (vs_listed vs \<longrightarrow> vs_listed vs') \<and> (vs_idle vs \<longrightarrow> vs_idle vs')"
proof (induction rule: vs_step.induct)
  case (step_apply rnd ext P edit vs vs')
  then show ?case
    using LogAndApply_keeps by (auto simp: vs_idle_def vs_listed_def)
next
  case (step_open rnd ext P vs save_manifest vs1 P' edit vs2)
  then show ?case
    using Recover_keeps [OF step_open(1)] LogAndApply_keeps [OF step_open(2)] by (auto simp: vs_idle_def vs_listed_def NewFileNumber_def)
qed (simp_all add: vs_idle_def vs_listed_def NewFileNumber_def SetLastSequence_vs_def)

lemma vs_steps_idle: "vs_step\<^sup>*\<^sup>* vs vs' \<Longrightarrow> vs_idle vs \<Longrightarrow> vs_idle vs'"
  by (induction rule: rtranclp_induct) (use vs_step_keeps in blast)+

lemma vs_any_step_listed:
  "vs_any_step vs vs' \<Longrightarrow> set (vs_versionlist vs) \<subseteq> set (vs_versionlist vs') \<and> (vs_listed vs \<longrightarrow> vs_listed vs')"
proof (induction rule: vs_any_step.induct)
  case (any_ok vs vs')
  then show ?case
    using vs_step_keeps by blast
next
  case (any_failed rnd ext P edit vs s vs')
  then show ?case
    using LogAndApply_keeps by (simp add: vs_listed_def)
qed

lemma vs_any_steps_listed:
  "vs_any_step\<^sup>*\<^sup>* vs vs' \<Longrightarrow> set (vs_versionlist vs) \<subseteq> set (vs_versionlist vs') \<and> (vs_listed vs \<longrightarrow> vs_listed vs')"
  by (induction rule: rtranclp_induct) (use vs_any_step_listed in blast)+

lemma mk_VersionSet_idle: "vs_idle (mk_VersionSet dbname max_file_size)" "vs_listed (mk_VersionSet dbname max_file_size)"
  by (simp_all add: vs_idle_def vs_listed_def mk_VersionSet_def mk_Version_def)

section \<open>Recovery\<close>

text \<open>\<open>DecodeFrom\<close> never sets a compaction pointer, so that \<open>Recover\<close> keeps those of the version set.\<close>

lemma decode_field_pointers: "decode_field tag input e = Some (input', e') \<Longrightarrow> ve_compact_pointers e' = ve_compact_pointers e"
  by (auto simp: decode_field_def VersionEdit_DeleteFile_def AddFile_def split: if_splits bind_splits)

lemma DecodeFrom_loop_pointers: "ve_compact_pointers (snd (snd (DecodeFrom_loop input e))) = ve_compact_pointers e"
proof (induction input e rule: DecodeFrom_loop.induct)
  case (1 input e)
  then show ?case
    by (subst DecodeFrom_loop.simps) (auto split: option.splits dest: decode_field_pointers)
qed

lemma apply_pointers_Nil: "ve_compact_pointers e = [] \<Longrightarrow> Builder_Apply e st = Some st' \<Longrightarrow> fst st' = fst st"
  by (auto simp: Builder_Apply_def split: bind_splits)

lemma Recover_record_pointers:
  assumes "Recover_record str st = Some st'"
  shows "fst (rs_builder st') = fst (rs_builder st)"
proof -
  obtain s e where e: "VersionEdit_DecodeFrom str mk_VersionEdit = (s, e)"
    by fastforce
  then have "ve_compact_pointers e = []"
    using DecodeFrom_loop_pointers [of str "VersionEdit_Clear mk_VersionEdit"]
    by (auto simp: VersionEdit_DecodeFrom_def VersionEdit_Clear_def mk_VersionEdit_def split: prod.splits)
  then show ?thesis
    using assms apply_pointers_Nil [of e "rs_builder st"] by (auto simp: Recover_record_def e split: if_splits bind_splits)
qed

lemma Recover_loop_pointers:
  assumes "Recover_loop ext ptr reads st = Some st'"
  shows "fst (rs_builder st') = fst (rs_builder st)"
  by (rule Recover_loop.raw_induct [OF _ assms])
    (auto split: if_splits bind_splits dest: Recover_record_pointers)

lemma Recover_leaves:
  assumes "VersionSet_Recover rnd ext P vs = Some (kok, save_manifest, vs')"
  shows "v_files (vs_nowversion vs') = v_files (vs_nowversion vs) \<and> vs_compact_pointer vs' = vs_compact_pointer vs \<and>
    vs_descriptor vs' = vs_descriptor vs \<and> vs_dbname vs' = vs_dbname vs"
  using assms unfolding VersionSet_Recover_def Let_def
  by (auto simp: Finalize_def dest!: Recover_loop_pointers split: prod.splits if_splits option.splits bind_splits)

lemma no_files_length:
  assumes "edit_no_files edit"
  shows "length (VersionEdit_EncodeTo edit []) \<le> 45"
proof -
  have "length (put_number tag has num []) \<le> 15" for tag has num
    using length_EncodeVarint64_bounds(2) [of num] length_EncodeVarint32_bounds(2) [of tag]
    by (simp add: put_number_def PutVarint32_def PutVarint64_def)
  from add_mono [OF this add_mono [OF this this]] show ?thesis
    using assms by (simp add: VersionEdit_EncodeTo_concat edit_no_files_def)
qed

lemma complete_edit_fits:
  assumes "edit_no_files edit"
  shows "wal_fits 0 (edit_records [complete_edit vs edit])"
proof -
  have "put_number kLastSequence True q [] \<noteq> []" for q
    using length_EncodeVarint64_bounds(1) [of q] by (auto simp: put_number_def PutVarint64_def)
  then have "VersionEdit_EncodeTo (complete_edit vs edit) [] \<noteq> []"
    by (simp add: VersionEdit_EncodeTo_concat complete_edit_def SetLastSequence_def)
  then show ?thesis
    using no_files_length [OF complete_edit_no_files [OF assms], of vs] by (simp add: edit_records_def wal_start_def)
qed

text \<open>An edit without files, applied to a version set without files, starts a manifest that holds it alone.\<close>

definition vs_blank :: "VersionSet \<Rightarrow> bool" where
  "vs_blank vs \<longleftrightarrow> v_files (vs_nowversion vs) = (\<lambda>l. []) \<and> vs_compact_pointer vs = (\<lambda>l. []) \<and> vs_descriptor vs = None"

lemma mk_VersionSet_blank: "vs_blank (mk_VersionSet dbname max_file_size)"
  by (simp add: vs_blank_def mk_VersionSet_def mk_Version_def)

lemma Recover_blank:
  "VersionSet_Recover rnd ext P vs = Some (kok, save_manifest, vs') \<Longrightarrow> vs_blank vs \<Longrightarrow>
    vs_blank vs' \<and> vs_dbname vs' = vs_dbname vs"
  using Recover_leaves by (auto simp: vs_blank_def)

lemma LogAndApply_blank:
  assumes "crc_lib ext" "posix_works P os" "vs_blank vs" "edit_no_files edit"
  obtains w vs' where "LogAndApply rnd ext P edit vs = Some (kok, vs')"
    "applied (complete_edit vs edit) mk_Version vs (DescriptorFileName (vs_dbname vs) (vs_manifest_file_number vs), w) vs'"
    "wf_disk (wal_file w) = wal_image ext 0 (edit_records [complete_edit vs edit])"
proof -
  have b: "Builder_Apply (complete_edit vs edit) (vs_compact_pointer vs, mk_Builder (vs_nowversion vs)) =
      Some (vs_compact_pointer vs, mk_Builder (vs_nowversion vs))"
    by (rule Builder_Apply_no_files [OF complete_edit_no_files [OF assms(4)]])
  have "Builder_SaveTo (mk_Builder (vs_nowversion vs)) = Some mk_Version" "snapshot_empty vs" "vs_descriptor vs = None"
    using assms(3) by (simp_all add: Builder_SaveTo_no_files vs_blank_def snapshot_empty_def)
  then show ?thesis
    using that by (elim LogAndApply_first [OF assms(1,2) b _ _ _ complete_edit_fits [OF assms(4)], where rnd = rnd])
qed

section \<open>An example\<close>

definition demo_edit :: VersionEdit where
  "demo_edit = AddFile 1 7 100 [1, 0, 0, 0, 0, 0, 0, 0, 0] [2, 0, 0, 0, 0, 0, 0, 0, 0]
     (SetLastSequence 300 (SetNextFile 9 (SetLogNumber 3 mk_VersionEdit)))"


definition demo_files :: "VersionEdit list \<Rightarrow> string \<Rightarrow> ReadFile option" where
  "demo_files edits name =
     (if name = ''d/CURRENT'' then Some \<lparr>rf_rest = bytes_of (''M'' @ [CHR 0x0A]), rf_os = []\<rparr>
      else if name = ''d/M'' then Some \<lparr>rf_rest = wal_image crc32c_Extend 0 (edit_records edits), rf_os = []\<rparr>
      else None)"

definition demo_builder :: recover_state where
  "demo_builder = \<lparr>rs_s = kok, rs_builder = (\<lambda>level. [], mk_Builder mk_Version),
     rs_log_number = None, rs_next_file = None, rs_last_sequence = None\<rparr>"

lemma demo_edit_readable: "edit_readable demo_edit"
  by (simp add: edit_readable_def edit_wf_def demo_edit_def AddFile_def SetLastSequence_def SetNextFile_def
      SetLogNumber_def mk_VersionEdit_def level_ok_def key_ok_def)

lemma demo_edit_length: "length (VersionEdit_EncodeTo demo_edit []) = 31"
  by code_simp

lemma demo_edit_fits: "wal_fits 0 (edit_records [demo_edit])" "wal_end 0 (edit_records [demo_edit]) \<noteq> 32768"
  using demo_edit_length by (auto simp: edit_records_def wal_start_def)

lemma demo_recovered:
  "case Recover_edits [demo_edit] demo_builder of None \<Rightarrow> False
   | Some st \<Rightarrow> rs_log_number st = Some 3 \<and> rs_next_file st = Some 9 \<and> rs_last_sequence st = Some 300 \<and>
       Builder_SaveTo (snd (rs_builder st)) \<noteq> None"
  by code_simp

lemma demo_Recover:
  "\<exists>vs1. VersionSet_Recover id crc32c_Extend (posix_ok (demo_files [demo_edit])) (mk_VersionSet ''d'' 100) = Some (kok, True, vs1)"
proof -
  obtain st v where st: "Recover_edits [demo_edit] demo_builder = Some st" "rs_log_number st = Some 3" "rs_next_file st = Some 9"
      "rs_last_sequence st = Some 300" "Builder_SaveTo (snd (rs_builder st)) = Some v"
    using demo_recovered by (auto split: option.splits)
  have "\<exists>vs'. VersionSet_Recover id crc32c_Extend (posix_ok (demo_files [demo_edit])) (mk_VersionSet ''d'' 100) =
      Some (kok, True, vs') \<and>
    vs_log_number vs' = 3 \<and> vs_next_file_number vs' = 9 + 1 \<and> vs_manifest_file_number vs' = 9 \<and> vs_last_sequence vs' = 300 \<and>
    vs_versionlist vs' = v_files v # vs_versionlist (mk_VersionSet ''d'' 100) \<and>
    v_files (vs_nowversion vs') = v_files (vs_nowversion (mk_VersionSet ''d'' 100))"
    by (rule Recover_takes_over [where m = "''M''" and edits = "[demo_edit]" and st = st])
      (use st demo_edit_readable demo_edit_fits in \<open>simp_all add: crc32c_Extend_append posix_ok_def demo_files_def CurrentFileName_def
        mk_VersionSet_def demo_builder_def\<close>)
  then show ?thesis
    by (elim exE conjE) (rule exI)
qed

definition delete_edit :: VersionEdit where
  "delete_edit = VersionEdit_DeleteFile 1 7 mk_VersionEdit"

lemma demo_history:
  "case Builder_Apply (complete_edit (mk_VersionSet ''d'' 100) demo_edit) (cp, mk_Builder mk_Version) of
     None \<Rightarrow> False
   | Some (cp1, b) \<Rightarrow> (case Builder_SaveTo b of
       None \<Rightarrow> False
     | Some v \<Rightarrow> map fm_num (v_files v 1) = [7] \<and>
        (case Builder_Apply delete_edit (cp', mk_Builder v) of None \<Rightarrow> False | Some (cp2, b2) \<Rightarrow> Builder_SaveTo b2 \<noteq> None))"
  by code_simp

lemma Builder_Apply_complete: "Builder_Apply (complete_edit vs edit) st = Builder_Apply edit st"
  by (simp add: Builder_Apply_def complete_edit_def SetLastSequence_def SetNextFile_def SetLogNumber_def)

lemma demo_lengths:
  "length (VersionEdit_EncodeTo (SetLastSequence 0 (SetNextFile 2 demo_edit)) []) = 30"
  "length (VersionEdit_EncodeTo (SetLastSequence 0 (SetNextFile 2 (SetLogNumber 3 delete_edit))) []) = 9"
  by code_simp+

lemma demo_steps:
  obtains vs1 vs2 where "LogAndApply id crc32c_Extend (posix_ok (\<lambda>name. None)) demo_edit (mk_VersionSet ''d'' 100) = Some (kok, vs1)"
    "map fm_num (v_files (vs_nowversion vs1) 1) = [7]"
    "LogAndApply id crc32c_Extend (posix_ok (\<lambda>name. None)) delete_edit vs1 = Some (kok, vs2)"
proof -
  let ?vs = "mk_VersionSet ''d'' 100" and ?P = "posix_ok (\<lambda>name. None)"
  have vs: "vs_nowversion ?vs = mk_Version" "vs_descriptor ?vs = None" "snapshot_empty ?vs"
    by (simp_all add: mk_VersionSet_def snapshot_empty_def mk_Version_def)
  note h = demo_history [where cp = "vs_compact_pointer ?vs"]
  obtain cp b v where b: "Builder_Apply (complete_edit ?vs demo_edit) (vs_compact_pointer ?vs, mk_Builder (vs_nowversion ?vs)) = Some (cp, b)"
      "Builder_SaveTo b = Some v" "map fm_num (v_files v 1) = [7]"
    using h [of "\<lambda>l. []"] unfolding vs by (auto simp del: One_nat_def split: option.splits)
  have d: "case Builder_Apply delete_edit (cp', mk_Builder v) of None \<Rightarrow> False | Some (cp2, b2) \<Rightarrow> Builder_SaveTo b2 \<noteq> None" for cp'
    using h [of cp'] b(2) b(1) [unfolded vs] by simp
  have "ve_compact_pointers demo_edit = []"
    by (simp add: demo_edit_def AddFile_def SetLogNumber_def SetNextFile_def SetLastSequence_def mk_VersionEdit_def)
  then have cp: "cp = vs_compact_pointer ?vs"
    using apply_pointers_Nil [OF _ b(1) [unfolded Builder_Apply_complete]] by simp
  have e1: "complete_edit ?vs demo_edit = SetLastSequence 0 (SetNextFile 2 demo_edit)"
    by (simp add: complete_edit_def mk_VersionSet_def demo_edit_def SetLogNumber_def SetNextFile_def SetLastSequence_def AddFile_def)
  have f1: "wal_fits 0 (edit_records [complete_edit ?vs demo_edit])" "wal_end 0 (edit_records [complete_edit ?vs demo_edit]) = 37"
    using demo_lengths(1) unfolding e1 by (auto simp: edit_records_def wal_start_def)
  obtain w vs1 where s1: "LogAndApply id crc32c_Extend ?P demo_edit ?vs = Some (kok, vs1)"
      "applied (complete_edit ?vs demo_edit) v ?vs (DescriptorFileName (vs_dbname ?vs) (vs_manifest_file_number ?vs), w) vs1"
      "wal_inv crc32c_Extend 37 w" "wf_offset (wal_file w) = 0" "wf_os (wal_file w) = [WFull]"
    by (rule LogAndApply_first [OF crc32c.crc_lib_axioms posix_ok_works b(1) [unfolded cp] b(2) vs(2,3) f1(1), where rnd = id])
      (simp add: f1(2))
  have n: "vs_nowversion vs1 = v" "vs_log_number vs1 = 3" "vs_next_file_number vs1 = 2" "vs_last_sequence vs1 = 0"
      "vs_descriptor vs1 = Some (DescriptorFileName (vs_dbname ?vs) (vs_manifest_file_number ?vs), w)"
    using s1(2) unfolding e1 by (simp_all add: applied_def mk_VersionSet_def demo_edit_def SetLogNumber_def SetNextFile_def SetLastSequence_def AddFile_def)
  have e2: "complete_edit vs1 delete_edit = SetLastSequence 0 (SetNextFile 2 (SetLogNumber 3 delete_edit))"
    using n by (simp add: complete_edit_def delete_edit_def mk_VersionEdit_def VersionEdit_DeleteFile_def)
  have f2: "wal_fits 37 (edit_records [complete_edit vs1 delete_edit])"
    using demo_lengths(2) unfolding e2 by (auto simp: edit_records_def wal_start_def)
  obtain cp2 b2 v2 where b2: "Builder_Apply (complete_edit vs1 delete_edit) (vs_compact_pointer vs1, mk_Builder (vs_nowversion vs1)) = Some (cp2, b2)"
      "Builder_SaveTo b2 = Some v2"
    using d [of "vs_compact_pointer vs1"] unfolding n Builder_Apply_complete by (auto split: option.splits)
  obtain vs2 where "LogAndApply id crc32c_Extend ?P delete_edit vs1 = Some (kok, vs2)"
    by (rule LogAndApply_next [OF crc32c.crc_lib_axioms posix_ok_works b2 n(5) s1(3-5) f2, where rnd = id])
  then show ?thesis
    using that [OF s1(1)] b(3) n(1) by simp
qed

section \<open>Well-formed versions\<close>

text \<open>
  Levels are sorted by smallest keys, all files range from an internal key to one that is not smaller, and from level 1 on
  each file of a level ends before all files behind it begin.
\<close>

definition file_ok :: "FileMate \<Rightarrow> bool" where
  "file_ok f \<longleftrightarrow> both_wf f \<and> ikey_abs (fm_smallest f) \<le> ikey_abs (fm_largest f)"

definition version_ok :: "Version \<Rightarrow> bool" where
  "version_ok v \<longleftrightarrow> (\<forall>l. sorted (map fkey (v_files v l)) \<and> (\<forall>f \<in> set (v_files v l). file_ok f)) \<and>
     (\<forall>l \<in> {1..<kNumLevels}. sorted_wrt (\<lambda>f g. ikey_abs (fm_largest f) < ikey_abs (fm_smallest g)) (v_files v l))"

definition edit_ok :: "VersionEdit \<Rightarrow> bool" where
  "edit_ok edit \<longleftrightarrow> edit_files_wf edit \<and> (\<forall>p \<in> set (ve_new_files edit). file_ok (snd p))"

lemma version_ok_base: "version_ok v \<Longrightarrow> base_wf v"
  by (simp add: version_ok_def base_wf_def file_ok_def)

lemma mk_VersionSet_ok: "version_ok (vs_nowversion (mk_VersionSet dbname max_file_size))"
  by (simp add: version_ok_def mk_VersionSet_def mk_Version_def)

lemma files_apart_sorted:
  assumes "files_apart files" "\<forall>f \<in> set files. file_ok f"
  shows "sorted_wrt (\<lambda>f g. ikey_abs (fm_largest f) < ikey_abs (fm_smallest g)) files"
  using assms
proof (induction files rule: induct_list012)
  case (3 f g fs)
  then have "sorted_wrt (\<lambda>f g. ikey_abs (fm_largest f) < ikey_abs (fm_smallest g)) (g # fs)"
      "ikey_abs (fm_largest f) < ikey_abs (fm_smallest g)" "ikey_abs (fm_smallest g) \<le> ikey_abs (fm_largest g)"
    by (simp_all add: files_apart_def file_ok_def)
  then show ?case
    by fastforce
qed simp_all

lemma complete_edit_at: "new_at (complete_edit vs edit) l = new_at edit l" "deleted_at (complete_edit vs edit) l = deleted_at edit l"
  "edit_files_wf (complete_edit vs edit) = edit_files_wf edit"
  by (simp_all add: new_at_def deleted_at_def edit_files_wf_def edit_levels_ok_def complete_edit_def SetLastSequence_def SetNextFile_def
      SetLogNumber_def)

lemma level_after_ok:
  assumes "version_ok base" "edit_ok edit" "level_after base edit l files"
  shows "sorted (map fkey files) \<and> (\<forall>f \<in> set files. file_ok f)"
proof -
  have "mset files = filter_mset (\<lambda>f. fm_num f \<notin> deleted_at edit l) (mset (v_files base l) + mset (new_at edit l))"
    using assms(3) by (simp add: level_after_def)
  from arg_cong [OF this, of set_mset] have "set files \<subseteq> set (v_files base l) \<union> set (new_at edit l)"
    by auto
  then show ?thesis
    using assms by (auto simp: level_after_def version_ok_def edit_ok_def new_at_def)
qed

lemma LogAndApply_levels:
  assumes "base_wf (vs_nowversion vs)" "edit_files_wf edit" "LogAndApply rnd ext P edit vs = Some (s, vs')"
  shows "if State_ok s then (\<forall>l < kNumLevels. level_after (vs_nowversion vs) edit l (v_files (vs_nowversion vs') l)) \<and>
      (\<forall>l \<ge> kNumLevels. v_files (vs_nowversion vs') l = []) \<and> (\<forall>l \<in> {1..<kNumLevels}. files_apart (v_files (vs_nowversion vs') l))
    else v_files (vs_nowversion vs') = v_files (vs_nowversion vs)"
proof (rule LogAndApply_result [OF assms(3)])
  fix cp b v
  assume b: "Builder_Apply (complete_edit vs edit) (vs_compact_pointer vs, mk_Builder (vs_nowversion vs)) = Some (cp, b)"
      "Builder_SaveTo b = Some v"
    and r: "if State_ok s then vs_nowversion vs' = v \<and> vs_versionlist vs' = v_files v # vs_versionlist vs
     else v_files (vs_nowversion vs') = v_files (vs_nowversion vs) \<and> vs_versionlist vs' = vs_versionlist vs"
  have edit: "edit_files_wf (complete_edit vs edit)"
    using assms(2) by (simp add: complete_edit_at)
  show ?thesis
  proof (rule Builder_builds [OF assms(1) edit, of "vs_compact_pointer vs"])
    fix cp' b' files
    assume "Builder_Apply (complete_edit vs edit) (vs_compact_pointer vs, mk_Builder (vs_nowversion vs)) = Some (cp', b')"
      "\<And>l. level_after (vs_nowversion vs) (complete_edit vs edit) l (files l)"
      "Builder_SaveTo b' = (if \<forall>l \<in> {1..<kNumLevels}. files_apart (files l)
         then Some (mk_Version\<lparr>v_files := (\<lambda>l. if l < kNumLevels then files l else [])\<rparr>) else None)"
    then show ?thesis
      using b r by (auto simp: level_after_def complete_edit_at simp del: One_nat_def split: if_splits)
  qed
qed

lemma LogAndApply_ok:
  assumes "version_ok (vs_nowversion vs)" "edit_ok edit" "LogAndApply rnd ext P edit vs = Some (s, vs')"
  shows "version_ok (vs_nowversion vs')"
proof -
  have "edit_files_wf edit"
    using assms(2) by (simp add: edit_ok_def)
  note r = LogAndApply_levels [OF version_ok_base [OF assms(1)] this assms(3)]
  show ?thesis
  proof (cases "State_ok s")
    case True
    have "sorted (map fkey (v_files (vs_nowversion vs') l)) \<and> (\<forall>f \<in> set (v_files (vs_nowversion vs') l). file_ok f)" for l
      using True r level_after_ok [OF assms(1,2)] by (cases "l < kNumLevels") auto
    then show ?thesis
      using True r by (simp add: version_ok_def files_apart_sorted)
  next
    case False
    then show ?thesis
      using r assms(1) by (simp add: version_ok_def)
  qed
qed

text \<open>A run of edits, each on its own system.\<close>

fun LogAndApply_all ::
  "(rat \<Rightarrow> rat) \<Rightarrow> (u32 \<Rightarrow> bytes \<Rightarrow> u32) \<Rightarrow> (posix \<times> VersionEdit) list \<Rightarrow> VersionSet \<Rightarrow> VersionSet option" where
  "LogAndApply_all rnd ext [] vs = Some vs"
| "LogAndApply_all rnd ext ((P, edit) # edits) vs = do {
     (s, vs') \<leftarrow> LogAndApply rnd ext P edit vs;
     LogAndApply_all rnd ext edits vs' }"

lemma LogAndApply_all_ok:
  "LogAndApply_all rnd ext edits vs = Some vs' \<Longrightarrow> \<forall>e \<in> snd ` set edits. edit_ok e \<Longrightarrow>
   version_ok (vs_nowversion vs) \<Longrightarrow> version_ok (vs_nowversion vs')"
  by (induction rnd ext edits vs rule: LogAndApply_all.induct) (auto dest: LogAndApply_ok split: bind_splits)

section \<open>Properties\<close>

text \<open>
  \<open>Recover\<close> reads a manifest back: over the log of any edits that \<open>EncodeTo\<close> wrote and that name all three numbers,
  it takes over the numbers and applies the edits one by one, but the version it builds only goes to
  \<open>versionlist\<close>: the current version keeps its files.
\<close>

theorem VersionSet_Recover_installs:
  assumes "\<forall>c a b. ext (ext c a) b = ext c (a @ b)"
    and "px_open_read P (CurrentFileName (vs_dbname vs)) = Some \<lparr>rf_rest = bytes_of (m @ [CHR 0x0A]), rf_os = []\<rparr>"
      "length m < 8191"
      "px_open_read P (vs_dbname vs @ ''/'' @ m) = Some \<lparr>rf_rest = wal_image ext 0 (edit_records edits), rf_os = []\<rparr>"
    and "\<forall>e \<in> set edits. edit_readable e" "wal_fits 0 (edit_records edits)" "edits \<noteq> []"
      "wal_end 0 (edit_records edits) \<noteq> 32768"
    and "Recover_edits edits
       \<lparr>rs_s = kok, rs_builder = (vs_compact_pointer vs, mk_Builder (vs_nowversion vs)),
        rs_log_number = None, rs_next_file = None, rs_last_sequence = None\<rparr> = Some st"
      "rs_log_number st = Some l" "rs_next_file st = Some n" "rs_last_sequence st = Some q"
      "Builder_SaveTo (snd (rs_builder st)) = Some v"
  shows "\<exists>vs'. VersionSet_Recover rnd ext P vs = Some (kok, True, vs') \<and>
    vs_log_number vs' = l \<and> vs_next_file_number vs' = n + 1 \<and> vs_manifest_file_number vs' = n \<and> vs_last_sequence vs' = q \<and>
    vs_versionlist vs' = v_files v # vs_versionlist vs \<and> v_files (vs_nowversion vs') = v_files (vs_nowversion vs)"
  by (rule Recover_takes_over [OF assms])
theorem VersionSet_Recover_installs_witness:
  "\<exists>(v :: Version) vs'. VersionSet_Recover id crc32c_Extend (posix_ok (demo_files [demo_edit])) (mk_VersionSet ''d'' 100) = Some (kok, True, vs') \<and>
    vs_log_number vs' = 3 \<and> vs_next_file_number vs' = 9 + 1 \<and> vs_manifest_file_number vs' = 9 \<and> vs_last_sequence vs' = 300 \<and>
    vs_versionlist vs' = v_files v # vs_versionlist (mk_VersionSet ''d'' 100) \<and>
    v_files (vs_nowversion vs') = v_files (vs_nowversion (mk_VersionSet ''d'' 100))"
proof -
  obtain st v where st: "Recover_edits [demo_edit] demo_builder = Some st" "rs_log_number st = Some 3" "rs_next_file st = Some 9"
      "rs_last_sequence st = Some 300" "Builder_SaveTo (snd (rs_builder st)) = Some v"
    using demo_recovered by (auto split: option.splits)
  have "\<exists>vs'. VersionSet_Recover id crc32c_Extend (posix_ok (demo_files [demo_edit])) (mk_VersionSet ''d'' 100) = Some (kok, True, vs') \<and>
    vs_log_number vs' = 3 \<and> vs_next_file_number vs' = 9 + 1 \<and> vs_manifest_file_number vs' = 9 \<and> vs_last_sequence vs' = 300 \<and>
    vs_versionlist vs' = v_files v # vs_versionlist (mk_VersionSet ''d'' 100) \<and>
    v_files (vs_nowversion vs') = v_files (vs_nowversion (mk_VersionSet ''d'' 100))"
    by (rule VersionSet_Recover_installs [where m = "''M''" and edits = "[demo_edit]" and st = st])
      (use st demo_edit_readable demo_edit_fits in \<open>simp_all add: crc32c_Extend_append posix_ok_def demo_files_def CurrentFileName_def
        mk_VersionSet_def demo_builder_def\<close>)
  then show ?thesis
    by (intro exI [of _ v])
qed


text \<open>
  C28: Reopening a database forgets its tables: after \<open>Recover\<close>, the edit that \<open>Open\<close> applies when there was nothing to
  replay makes a current version without any file, and starts a new manifest that holds nothing but this edit.
\<close>

theorem reopen_forgets_tables:
  assumes "\<forall>c a b. ext (ext c a) b = ext c (a @ b)"
    and "VersionSet_Recover rnd ext P (mk_VersionSet dbname max_file_size) = Some (kok, save_manifest, vs1)"
    and "edit_no_files edit" "posix_works P' os"
  shows "\<exists>vs2 w. LogAndApply rnd' ext P' edit (snd (NewFileNumber vs1)) = Some (kok, vs2) \<and>
    (\<forall>l. v_files (vs_nowversion vs2) l = []) \<and>
    vs_descriptor vs2 = Some (DescriptorFileName dbname (vs_manifest_file_number vs1), w) \<and>
    wf_disk (wal_file w) = wal_image ext 0 [VersionEdit_EncodeTo (complete_edit (snd (NewFileNumber vs1)) edit) []]"
proof -
  have crc: "crc_lib ext"
    using assms(1) by (simp add: crc_lib_def)
  let ?vs = "snd (NewFileNumber vs1)"
  have vs: "vs_blank ?vs" "vs_dbname ?vs = dbname" "vs_manifest_file_number ?vs = vs_manifest_file_number vs1"
    using Recover_blank [OF assms(2) mk_VersionSet_blank] by (simp_all add: NewFileNumber_def vs_blank_def mk_VersionSet_def)
  obtain w vs2 where "LogAndApply rnd' ext P' edit ?vs = Some (kok, vs2)"
      "applied (complete_edit ?vs edit) mk_Version ?vs (DescriptorFileName (vs_dbname ?vs) (vs_manifest_file_number ?vs), w) vs2"
      "wf_disk (wal_file w) = wal_image ext 0 (edit_records [complete_edit ?vs edit])"
    by (rule LogAndApply_blank [OF crc assms(4) vs(1) assms(3), where rnd = rnd'])
  then show ?thesis
    by (intro exI [of _ vs2] exI [of _ w]) (simp add: applied_def vs(2,3) edit_records_def mk_Version_def)
qed

theorem reopen_forgets_tables_witness:
  "\<exists>vs1 vs2 w. VersionSet_Recover id crc32c_Extend (posix_ok (demo_files [demo_edit])) (mk_VersionSet ''d'' 100) = Some (kok, True, vs1) \<and>
    LogAndApply id crc32c_Extend (posix_ok (\<lambda>name. None)) mk_VersionEdit (snd (NewFileNumber vs1)) = Some (kok, vs2) \<and>
    (\<forall>l. v_files (vs_nowversion vs2) l = []) \<and>
    vs_descriptor vs2 = Some (DescriptorFileName ''d'' (vs_manifest_file_number vs1), w) \<and>
    wf_disk (wal_file w) = wal_image crc32c_Extend 0 [VersionEdit_EncodeTo (complete_edit (snd (NewFileNumber vs1)) mk_VersionEdit) []]"
proof -
  obtain vs1 where r: "VersionSet_Recover id crc32c_Extend (posix_ok (demo_files [demo_edit])) (mk_VersionSet ''d'' 100) = Some (kok, True, vs1)"
    using demo_Recover by blast
  have "edit_no_files mk_VersionEdit"
    by (simp add: edit_no_files_def mk_VersionEdit_def)
  from reopen_forgets_tables [OF _ r this posix_ok_works, where rnd' = id ]
  show ?thesis
    using r by (auto simp: crc32c_Extend_append)
qed


text \<open>
  C25: Over any history of a version set, with calls of \<open>LogAndApply\<close> that succeed and that fail, every table file that was in the current version
  once is live for ever, because \<open>versionlist\<close> never shrinks; and no compaction is ever chosen, because \<open>Finalize\<close> stores the scores of the new
  version in the old one, as long as no call has failed, or since a call has succeeded after the last failure.  (Behind a failed call the old version
  is still the current one, and has the scores of the version that was given up.)
\<close>

theorem vs_history:
  assumes "vs_any_step\<^sup>*\<^sup>* (mk_VersionSet dbname max_file_size) vs" "vs_any_step\<^sup>*\<^sup>* vs vs'"
    and "l < kNumLevels" "f \<in> set (v_files (vs_nowversion vs) l)"
  shows "fm_num f \<in> AddLiveFiles vs' live \<and>
    (vs_step\<^sup>*\<^sup>* (mk_VersionSet dbname max_file_size) vs' \<or>
       (\<exists>rnd ext P edit vs1 vs2. LogAndApply rnd ext P edit vs1 = Some (kok, vs2) \<and> vs_step\<^sup>*\<^sup>* vs2 vs') \<longrightarrow>
     \<not> NeedsCompaction vs' \<and> PickCompaction vs' = Some (None, vs'))"
proof -
  have "vs_listed (mk_VersionSet dbname max_file_size)" "vs_idle (mk_VersionSet dbname max_file_size)"
    by (rule mk_VersionSet_idle)+
  then have live: "v_files (vs_nowversion vs) \<in> set (vs_versionlist vs')"
    using vs_any_steps_listed [OF assms(1)] vs_any_steps_listed [OF assms(2)] by (auto simp: vs_listed_def)
  have idle: "vs_idle vs'" if "vs_step\<^sup>*\<^sup>* (mk_VersionSet dbname max_file_size) vs' \<or>
       (\<exists>rnd ext P edit vs1 vs2. LogAndApply rnd ext P edit vs1 = Some (kok, vs2) \<and> vs_step\<^sup>*\<^sup>* vs2 vs')"
    using that vs_steps_idle \<open>vs_idle _\<close> LogAndApply_keeps by (fastforce simp: vs_idle_def)
  show ?thesis
    using assms(3,4) live idle by (auto simp: vs_idle_def AddLiveFiles_eq NeedsCompaction_def PickCompaction_def)
qed

theorem vs_history_witness:
  "\<exists>vs1 vs2 f. f \<in> set (v_files (vs_nowversion vs1) 1) \<and> fm_num f = 7 \<and>
     LogAndApply id crc32c_Extend (posix_ok (\<lambda>name. None)) delete_edit vs1 = Some (kok, vs2) \<and>
     \<not> NeedsCompaction vs2 \<and> PickCompaction vs2 = Some (None, vs2) \<and> 7 \<in> AddLiveFiles vs2 {}"
proof (rule demo_steps)
  fix vs1 vs2
  assume s: "LogAndApply id crc32c_Extend (posix_ok (\<lambda>name. None)) demo_edit (mk_VersionSet ''d'' 100) = Some (kok, vs1)"
      "map fm_num (v_files (vs_nowversion vs1) 1) = [7]"
    and l: "LogAndApply id crc32c_Extend (posix_ok (\<lambda>name. None)) delete_edit vs1 = Some (kok, vs2)"
  then obtain f where f: "f \<in> set (v_files (vs_nowversion vs1) 1)" "fm_num f = 7"
    by (cases "v_files (vs_nowversion vs1) 1") auto
  have ok: "vs_step\<^sup>*\<^sup>* (mk_VersionSet ''d'' 100) vs2"
    using step_apply [OF s(1)] step_apply [OF l] by (meson converse_rtranclp_into_rtranclp r_into_rtranclp)
  show ?thesis
    using vs_history [OF r_into_rtranclp [of vs_any_step, OF any_ok [OF step_apply [OF s(1)]]]
        r_into_rtranclp [of vs_any_step, OF any_ok [OF step_apply [OF l]]] _ f(1), of "{}"] f l ok
    by (auto simp: kNumLevels_def)
qed

text \<open>
  \<open>MakeInputIterator\<close> gives a compaction nothing to read: its test for empty inputs is the wrong way around, so that of a
  compaction with inputs either there is no iterator at all, or one over no files, which is never valid.
\<close>

theorem MakeInputIterator_loses_inputs:
  assumes "co_inputs0 c \<noteq> []" "0 \<le> co_level c" "\<forall>h. block_function h \<noteq> None"
  shows "if co_inputs1 c = []
    then \<exists>t t'. MakeInputIterator DO block_function c = Some (Inl (Some t)) \<and>
      io_SeekToFirst (tl_ops DO block_function) t = Some t' \<and> \<not> io_Valid (tl_ops DO block_function) t'
    else MakeInputIterator DO block_function c = None"
proof -
  let ?t = "mk_TweLevelIterator level_ops (Some (mk_LevelFileNumIterator []))"
  have "level_usable [] (mk_LevelFileNumIterator [])"
    using mk_LevelFileNumIterator_usable [of "[]"] by (simp add: level_entries_def)
  then obtain t' where t': "TweLevelIterator_SeekToFirst level_ops DO block_function ?t = Some t'" "level_merge.null_over [] t'"
    using level_merge.TweLevelIterator_seeks(1) [OF level_merge.mk_TweLevelIterator_null assms(3)] by blast
  then have "\<not> TweLevelIterator_Valid t'"
    using data_null_simps(4) unfolding level_merge.null_over_def by blast
  then show ?thesis
    using assms(1,2) t'(1) by (simp add: MakeInputIterator_def input_iterators_def NewMergingIterator_def tl_ops_def)
qed

theorem MakeInputIterator_loses_inputs_witness:
  "\<exists>t t'. MakeInputIterator block_ops (\<lambda>h. Some None)
      ((mk_Compaction 100 1)\<lparr>co_inputs0 := [\<lparr>fm_num = 7, fm_file_size = 100, fm_smallest = [1], fm_largest = [2]\<rparr>]\<rparr>) =
      Some (Inl (Some t)) \<and>
    io_SeekToFirst (tl_ops block_ops (\<lambda>h. Some None)) t = Some t' \<and> \<not> io_Valid (tl_ops block_ops (\<lambda>h. Some None)) t'"
  using MakeInputIterator_loses_inputs
      [of "(mk_Compaction 100 1)\<lparr>co_inputs0 := [\<lparr>fm_num = 7, fm_file_size = 100, fm_smallest = [1], fm_largest = [2]\<rparr>]\<rparr>"
        "\<lambda>h. Some None" block_ops]
  by (simp add: mk_Compaction_def)

text \<open>
  C18: Versions stay well-formed: after any run of \<open>LogAndApply\<close> with well-formed edits, from a new version set and whatever the
  systems answer, every level of the current version is sorted by smallest keys, all its files are well-formed, and from level 1 on
  each file ends before all files behind it begin.
\<close>

theorem versions_stay_ok:
  assumes "LogAndApply_all rnd ext edits (mk_VersionSet dbname max_file_size) = Some vs" "\<forall>e \<in> snd ` set edits. edit_ok e"
  shows "sorted (map fkey (v_files (vs_nowversion vs) l)) \<and>
    (\<forall>f \<in> set (v_files (vs_nowversion vs) l). ikey_wf (fm_smallest f) \<and> ikey_wf (fm_largest f) \<and>
       ikey_abs (fm_smallest f) \<le> ikey_abs (fm_largest f)) \<and>
    (l \<in> {1..<kNumLevels} \<longrightarrow>
       sorted_wrt (\<lambda>f g. ikey_abs (fm_largest f) < ikey_abs (fm_smallest g)) (v_files (vs_nowversion vs) l))"
  using LogAndApply_all_ok [OF assms mk_VersionSet_ok] by (simp add: version_ok_def file_ok_def both_wf_def)

theorem versions_stay_ok_witness:
  "\<exists>vs. LogAndApply_all id crc32c_Extend [(posix_ok (\<lambda>name. None), demo_edit)] (mk_VersionSet ''d'' 100) = Some vs \<and>
    map fm_num (v_files (vs_nowversion vs) 1) = [7] \<and> sorted (map fkey (v_files (vs_nowversion vs) 1))"
proof (rule demo_steps)
  fix vs1 vs2
  assume s: "LogAndApply id crc32c_Extend (posix_ok (\<lambda>name. None)) demo_edit (mk_VersionSet ''d'' 100) = Some (kok, vs1)"
      "map fm_num (v_files (vs_nowversion vs1) 1) = [7]"
  then have r: "LogAndApply_all id crc32c_Extend [(posix_ok (\<lambda>name. None), demo_edit)] (mk_VersionSet ''d'' 100) = Some vs1"
    by simp
  have "ikey_abs [1, 0, 0, 0, 0, 0, 0, 0, 0] \<le> ikey_abs [2, 0, 0, 0, 0, 0, 0, 0, 0]"
    by code_simp
  then have "edit_ok demo_edit"
    by (simp add: edit_ok_def edit_files_wf_def edit_levels_ok_def demo_edit_def new_at_def AddFile_def SetLogNumber_def
        SetNextFile_def SetLastSequence_def mk_VersionEdit_def level_index_def kNumLevels_def both_wf_def file_ok_def ikey_wf_def)
  then show ?thesis
    using versions_stay_ok [OF r, of 1] r s(2) by auto
qed

end
