(* ===== verification/Database.thy ===== *)
theory Database
  imports VersionSet WriteBatch Cache
begin

text \<open>
  The database object: class \<open>DBImpl\<close> of src/src/db/db.h and src/src/db/db.cpp, the options of src/src/util/options.h
  and the snapshots of src/src/db/snapshot.h.

  Every operation runs alone: locks, condition variables and logging have no counterpart here (DbConcurrent has those of the writers), and a wait for the background thread is
  the call that it makes.  A result \<open>None\<close> is undefined behaviour, an exception that nobody catches,
  \<open>abort\<close>, or a wait for ever.
\<close>

section \<open>State\<close>

text \<open>
  What does not change: the options, the libraries, what \<open>new\<close> returns and what the uninitialised member of a write batch holds.
\<close>

record 's dbenv =
  de_tenv :: tenv
  de_renv :: renv
  de_list :: "'s skiplist_ops"
  de_new :: new_char
  de_rnd :: "rat \<Rightarrow> rat"
  de_open_table :: "string \<Rightarrow> RandomAccessFile option"
  de_write_buffer_size :: u64
  de_max_file_size :: u32
  de_max_open_files :: u64
  de_seq0 :: u64

abbreviation de_ext :: "'s dbenv \<Rightarrow> u32 \<Rightarrow> bytes \<Rightarrow> u32" where
  "de_ext E \<equiv> te_ext (de_tenv E)"

record Writer =
  wr_sync :: bool
  wr_batch :: "WriteBatch option"

text \<open>A snapshot is a shared pointer: \<open>sn_id\<close> is the object it points to.\<close>

record Snapshot =
  sn_id :: nat
  snap_seq :: u64

text \<open>What the database does to files besides the log and the manifest of the version set: those it closes, with what is in
  them, and those it removes.\<close>

datatype fs_event = FileClosed string WritableFile | FileDeleted string

text \<open>
  \<open>db_log\<close> is \<open>logfile\<close> and \<open>logwrite\<close>, which share the file, with the name of the file.  \<open>db_writerque\<close> holds the
  writers that wait behind the one that is running.  \<open>pending_file\<close> is always empty.
\<close>

record 's DBImpl =
  db_dbname :: string
  db_lock :: bool
  db_mem :: "'s memtable option"
  db_imm :: "'s memtable option"
  db_has_imm :: bool
  db_logfilenum :: u64
  db_log :: "(string \<times> walWriter) option"
  db_writerque :: "Writer list"
  db_snapshots :: "Snapshot list"
  db_next_snapshot :: nat
  db_table_cache :: TableCache
  db_pending_outputs :: "u64 set"
  db_shutting_down :: bool
  db_background_compaction :: bool
  db_env :: PosixEnv
  db_versions :: VersionSet
  db_bg_error :: State
  db_events :: "fs_event list"

definition mk_DBImpl :: "'s dbenv \<Rightarrow> string \<Rightarrow> 's DBImpl" where
  "mk_DBImpl E dbname =
     \<lparr>db_dbname = dbname, db_lock = False, db_mem = None, db_imm = None, db_has_imm = False, db_logfilenum = 0,
      db_log = None, db_writerque = [], db_snapshots = [], db_next_snapshot = 0,
      db_table_cache = mk_TableCache dbname (de_max_open_files E), db_pending_outputs = {},
      db_shutting_down = False, db_background_compaction = False, db_env = mk_PosixEnv,
      db_versions = mk_VersionSet dbname (de_max_file_size E), db_bg_error = kok, db_events = []\<rparr>"

definition kL0_SlowdownWrites :: nat where
  "kL0_SlowdownWrites = 8"

definition kL0_StopWrites :: nat where
  "kL0_StopWrites = 12"

definition MaxBatchSize :: u64 where
  "MaxBatchSize = 1024"

section \<open>Background work\<close>

definition MaybeCompaction :: "'s DBImpl \<Rightarrow> 's DBImpl" where
  "MaybeCompaction db =
     (if db_background_compaction db then db
      else if db_shutting_down db then db
      else if \<not> State_ok (db_bg_error db) then db
      else if db_imm db = None \<and> \<not> NeedsCompaction (db_versions db) then db
      else db\<lparr>db_background_compaction := True, db_env := Schedule (db_env db)\<rparr>)"

definition keep_file :: "u64 \<Rightarrow> u64 \<Rightarrow> u64 set \<Rightarrow> u64 \<Rightarrow> FileType \<Rightarrow> bool" where
  "keep_file log_number manifest_file_number live num type =
     (case type of
        kCurrentFile \<Rightarrow> True | kDBLockFile \<Rightarrow> True | kInfoLogFile \<Rightarrow> True
      | kDescriptorFile \<Rightarrow> num \<ge> manifest_file_number
      | kLogFile \<Rightarrow> num \<ge> log_number
      | kTableFile \<Rightarrow> num \<in> live | kTempFile \<Rightarrow> num \<in> live)"

text \<open>The loop of \<open>DeleteObsoleteFiles\<close>; \<open>num\<close> and \<open>type\<close> are only read when they have been set.\<close>

fun delete_files ::
  "'s dbenv \<Rightarrow> (u64 \<Rightarrow> FileType \<Rightarrow> bool) \<Rightarrow> string list \<Rightarrow> 's DBImpl \<Rightarrow> 's DBImpl option" where
  "delete_files E keep [] db = Some db"
| "delete_files E keep (filename # filenames) db = do {
     (ok, num, type) \<leftarrow> ParsefileName filename 0 kTempFile;
     let db1 = (if ok \<and> \<not> keep num type
                then db\<lparr>db_table_cache := (if type = kTableFile then TableCache_Evict (de_renv E) num (db_table_cache db)
                                            else db_table_cache db),
                        db_events := db_events db @ [FileDeleted (db_dbname db @ ''/'' @ filename)]\<rparr>
                else db);
     delete_files E keep filenames db1 }"

definition DeleteObsoleteFiles :: "'s dbenv \<Rightarrow> posix \<Rightarrow> 's DBImpl \<Rightarrow> 's DBImpl option" where
  "DeleteObsoleteFiles E P db =
     (if \<not> State_ok (db_bg_error db) then Some db
      else delete_files E
        (keep_file (vs_log_number (db_versions db)) (vs_manifest_file_number (db_versions db)) (AddLiveFiles (db_versions db) {}))
        (snd (GetChildren P (db_dbname db))) db)"

definition BuildTable ::
  "'s dbenv \<Rightarrow> posix \<Rightarrow> 's memtable \<Rightarrow> FileMate \<Rightarrow> 's DBImpl \<Rightarrow> (State \<times> FileMate \<times> 's DBImpl) option" where
  "BuildTable E P mem meta db =
     (let meta0 = meta\<lparr>fm_file_size := 0\<rparr>;
          fname = TableFileName (db_dbname db) (fm_num meta)
      in case NewWritableFile P fname of
           (s, None) \<Rightarrow> Some (s, meta0, db)
         | (_, Some file) \<Rightarrow> do {
             (s, meta1, b) \<leftarrow> Flushlevel0fromskip (de_tenv E) (de_list E) mem meta0 (mk_Tablebuilder file);
             let meta2 = (if State_ok s then meta1\<lparr>fm_file_size := tb_offset b\<rparr> else meta1);
             (s1, f1) \<leftarrow> (if State_ok s then file_Sync P fname (tb_file b) else Some (s, tb_file b));
             (s2, f2) \<leftarrow> (if State_ok s1 then file_Close P fname f1 else Some (s1, f1));
             Some (s2, meta2, db\<lparr>db_events := db_events db @
               [if State_ok s2 \<and> fm_file_size meta2 > 0 then FileClosed fname f2 else FileDeleted fname]\<rparr>) })"

definition WriteLevel0Table ::
  "'s dbenv \<Rightarrow> posix \<Rightarrow> 's memtable \<Rightarrow> VersionEdit \<Rightarrow> 's DBImpl \<Rightarrow> (State \<times> VersionEdit \<times> 's DBImpl) option" where
  "WriteLevel0Table E P mem edit db = do {
     let (num, vs) = NewFileNumber (db_versions db);
     (s, meta, db1) \<leftarrow> BuildTable E P mem
       \<lparr>fm_num = num, fm_file_size = 0, fm_smallest = [], fm_largest = []\<rparr>
       (db\<lparr>db_versions := vs, db_pending_outputs := insert num (db_pending_outputs db)\<rparr>);
     Some (s,
       (if State_ok s \<and> fm_file_size meta > 0
        then AddFile 0 (fm_num meta) (fm_file_size meta) (fm_smallest meta) (fm_largest meta) edit else edit),
       db1\<lparr>db_pending_outputs := db_pending_outputs db1 - {num}\<rparr>) }"

definition CompactMemTable :: "'s dbenv \<Rightarrow> posix \<Rightarrow> 's DBImpl \<Rightarrow> 's DBImpl option" where
  "CompactMemTable E P db = do {
     imm \<leftarrow> db_imm db;
     (s, edit, db1) \<leftarrow> WriteLevel0Table E P imm mk_VersionEdit db;
     let s1 = (if State_ok s \<and> db_shutting_down db1 then kioerror else s);
     (s2, vs) \<leftarrow> (if State_ok s1
       then LogAndApply (de_rnd E) (de_ext E) P (SetLogNumber (db_logfilenum db1) edit) (db_versions db1)
       else Some (s1, db_versions db1));
     let db2 = db1\<lparr>db_versions := vs\<rparr>;
     if State_ok s2 then DeleteObsoleteFiles E P (db2\<lparr>db_imm := None, db_has_imm := False\<rparr>)
     else Some (if State_ok (db_bg_error db2) then db2\<lparr>db_bg_error := s2\<rparr> else db2) }"

text \<open>
  The status of \<open>LogAndApply\<close> is dropped.  A compaction that is no trivial move gets a \<open>CompactionState\<close> that is
  destroyed again; \<open>DoCompactionWork\<close> is never called.
\<close>

definition BackgroundCompaction :: "'s dbenv \<Rightarrow> posix \<Rightarrow> 's DBImpl \<Rightarrow> 's DBImpl option" where
  "BackgroundCompaction E P db =
     (if db_imm db \<noteq> None then CompactMemTable E P db
      else do {
        (c, vs) \<leftarrow> PickCompaction (db_versions db);
        case c of
          None \<Rightarrow> Some (db\<lparr>db_versions := vs\<rparr>)
        | Some c \<Rightarrow>
            if IsTrivialMove vs c then do {
              let cf = hd (co_inputs0 c);
              let edit = AddFile (co_level c) (fm_num cf) (fm_file_size cf) (fm_smallest cf) (fm_largest cf)
                (VersionEdit_DeleteFile (co_level c) (fm_num cf) (co_edit c));
              (s, vs') \<leftarrow> LogAndApply (de_rnd E) (de_ext E) P edit vs;
              Some (db\<lparr>db_versions := vs'\<rparr>) }
            else Some (db\<lparr>db_versions := vs\<rparr>) })"

definition BackgroundCall :: "'s dbenv \<Rightarrow> posix \<Rightarrow> 's DBImpl \<Rightarrow> 's DBImpl option" where
  "BackgroundCall E P db = do {
     db1 \<leftarrow> (if db_shutting_down db then Some db
            else if \<not> State_ok (db_bg_error db) then Some db
            else BackgroundCompaction E P db);
     Some (MaybeCompaction (db1\<lparr>db_background_compaction := False\<rparr>)) }"

text \<open>
  What the thread does.  A wait for \<open>background_work_finished_signal\<close> ends when it has done it: when there is no thread that has its call
  before it, nobody ever signals.
\<close>

definition background_thread :: "'s dbenv \<Rightarrow> posix \<Rightarrow> 's DBImpl \<Rightarrow> 's DBImpl option" where
  "background_thread E P db =
     (if env_thread (db_env db) then BackgroundCall E P (db\<lparr>db_env := (db_env db)\<lparr>env_thread := False\<rparr>\<rparr>) else None)"

definition wait_background :: "'s dbenv \<Rightarrow> posix \<Rightarrow> 's DBImpl \<Rightarrow> 's DBImpl option" where
  "wait_background E P db = background_thread E P db"

section \<open>Writing\<close>

text \<open>
  \<open>MakeRoomForwrite\<close>; the second \<open>unlock\<close> of a lock after the sleep throws.  The status is always ok.
\<close>

definition switch_memtable :: "'s dbenv \<Rightarrow> posix \<Rightarrow> 's DBImpl \<Rightarrow> bool \<times> 's DBImpl" where
  "switch_memtable E P db =
     (let (new_log_number, vs) = NewFileNumber (db_versions db);
          db1 = db\<lparr>db_versions := vs\<rparr>;
          name = LogFileName (db_dbname db) new_log_number
      in case NewWritableFile P name of
           (_, None) \<Rightarrow> (False, db1)
         | (_, Some lfile) \<Rightarrow>
             (True, MaybeCompaction (db1\<lparr>db_log := Some (name, mk_walWriter (de_ext E) lfile),
                db_logfilenum := new_log_number, db_imm := db_mem db, db_has_imm := True,
                db_mem := Some (mk_Memtable (de_list E))\<rparr>)))"

partial_function (option) MakeRoom_loop ::
  "'s dbenv \<Rightarrow> posix \<Rightarrow> bool \<Rightarrow> bool \<Rightarrow> 's DBImpl \<Rightarrow> 's DBImpl option" where
  "MakeRoom_loop E P allow_delay force db =
     (if \<not> State_ok (db_bg_error db) then Some db
      else if allow_delay \<and> NumLevelFiles (db_versions db) 0 \<ge> kL0_SlowdownWrites then None
      else Option.bind (if force then Some False
          else map_option (\<lambda>m. ucast (Memtable_ApproximateMemoryUsage m) \<le> de_write_buffer_size E) (db_mem db)) (\<lambda>room.
        if room then Some db
        else if NumLevelFiles (db_versions db) 0 \<ge> kL0_StopWrites \<or> db_imm db \<noteq> None
        then Option.bind (wait_background E P db) (MakeRoom_loop E P allow_delay force)
        else (let (switched, db1) = switch_memtable E P db
              in if switched then MakeRoom_loop E P allow_delay False db1 else Some db1)))"

definition MakeRoomForwrite :: "'s dbenv \<Rightarrow> posix \<Rightarrow> bool \<Rightarrow> 's DBImpl \<Rightarrow> (State \<times> 's DBImpl) option" where
  "MakeRoomForwrite E P force db = map_option (Pair kok) (MakeRoom_loop E P (\<not> force) force db)"

text \<open>
  \<open>BuildBatchGroup\<close> appends the batches of the waiting writers to the first one.  It sets its parameter instead of
  \<open>*last_writer\<close>, so that the caller's last writer remains the first one.
\<close>

fun group_batches :: "bool \<Rightarrow> u64 \<Rightarrow> Writer list \<Rightarrow> WriteBatch \<Rightarrow> WriteBatch option" where
  "group_batches sync sz [] fntbatch = Some fntbatch"
| "group_batches sync sz (w # ws) fntbatch =
     (if wr_sync w \<noteq> sync then Some fntbatch
      else do {
        b \<leftarrow> wr_batch w;
        if sz + ucast (WriteBatch_ByteSize b) > MaxBatchSize then Some fntbatch
        else do {
          fntbatch' \<leftarrow> WriteBatch_Append fntbatch b;
          group_batches sync sz ws fntbatch' } })"

definition BuildBatchGroup :: "bool \<Rightarrow> WriteBatch \<Rightarrow> Writer list \<Rightarrow> WriteBatch option" where
  "BuildBatchGroup sync batch waiting = group_batches sync (ucast (WriteBatch_ByteSize batch)) waiting batch"

text \<open>
  The part of \<open>Write\<close> that has a batch.  Under the mutex, the group gets its sequence number, and the last one of the group is known; then the
  group goes to the log and, without the mutex, into the memtable: the status that is dropped, the batch and the database.
\<close>

definition group_batch :: "bool \<Rightarrow> WriteBatch \<Rightarrow> Writer list \<Rightarrow> u64 \<Rightarrow> (WriteBatch \<times> u64) option" where
  "group_batch sync updates waiting last_sequence = do {
     upt \<leftarrow> BuildBatchGroup sync updates waiting;
     upt1 \<leftarrow> WriteBatch_SetSequence upt (last_sequence + 1);
     count \<leftarrow> WriteBatch_Count upt1;
     Some (upt1, last_sequence + scast count) }"

definition write_log ::
  "'s dbenv \<Rightarrow> posix \<Rightarrow> bool \<Rightarrow> WriteBatch \<Rightarrow> 's DBImpl \<Rightarrow> (State \<times> WriteBatch \<times> 's DBImpl) option" where
  "write_log E P sync wb db = do {
     (name, logwrite) \<leftarrow> db_log db;
     (s1, logwrite1) \<leftarrow> Appendrecord (de_ext E) (WriteBatch_Contents wb) logwrite;
     (s2, logfile) \<leftarrow> (if State_ok s1 \<and> sync then file_Sync P name (wal_file logwrite1) else Some (s1, wal_file logwrite1));
     let db1 = db\<lparr>db_log := Some (name, logwrite1\<lparr>wal_file := logfile\<rparr>)\<rparr>;
     if State_ok s2 then do {
       mem \<leftarrow> db_mem db1;
       (s3, wb1, mem') \<leftarrow> WriteBatch_InsertInto (de_new E) (de_list E) wb mem;
       Some (s3, wb1, db1\<lparr>db_mem := Some mem'\<rparr>) }
     else Some (s2, wb, db1) }"

definition write_batch ::
  "'s dbenv \<Rightarrow> posix \<Rightarrow> bool \<Rightarrow> WriteBatch \<Rightarrow> 's DBImpl \<Rightarrow> (State \<times> u64 \<times> WriteBatch \<times> 's DBImpl) option" where
  "write_batch E P sync updates db = do {
     (upt, last_sequence) \<leftarrow> group_batch sync updates (db_writerque db) (vs_last_sequence (db_versions db));
     (s, upt', db') \<leftarrow> write_log E P sync upt db;
     Some (s, last_sequence, upt', db') }"

text \<open>
  \<open>Write\<close>, from the moment the writer is at the front of the queue.  The last loop only removes this writer.
\<close>

definition DBImpl_Write ::
  "'s dbenv \<Rightarrow> posix \<Rightarrow> bool \<Rightarrow> WriteBatch option \<Rightarrow> 's DBImpl \<Rightarrow> (State \<times> WriteBatch option \<times> 's DBImpl) option" where
  "DBImpl_Write E P sync updates db = do {
     (statue, db1) \<leftarrow> MakeRoomForwrite E P (updates = None) db;
     let last_sequence = vs_last_sequence (db_versions db1);
     (last_sequence', updates', db2) \<leftarrow>
       (case updates of
          Some b \<Rightarrow>
            if State_ok statue then do {
              (s, q, b', db') \<leftarrow> write_batch E P sync b db1;
              Some (q, Some b', db') }
            else Some (last_sequence, updates, db1)
        | None \<Rightarrow> Some (last_sequence, updates, db1));
     Some (kok, updates', db2\<lparr>db_versions := SetLastSequence_vs last_sequence' (db_versions db2)\<rparr>) }"

definition DBImpl_Put ::
  "'s dbenv \<Rightarrow> posix \<Rightarrow> bool \<Rightarrow> bytes \<Rightarrow> bytes \<Rightarrow> 's DBImpl \<Rightarrow> (State \<times> 's DBImpl) option" where
  "DBImpl_Put E P sync key value db = do {
     batch \<leftarrow> WriteBatch_Put (mk_WriteBatch (de_seq0 E)) key value;
     (s, _, db') \<leftarrow> DBImpl_Write E P sync (Some batch) db;
     Some (s, db') }"

definition DBImpl_Delete ::
  "'s dbenv \<Rightarrow> posix \<Rightarrow> bool \<Rightarrow> bytes \<Rightarrow> 's DBImpl \<Rightarrow> (State \<times> 's DBImpl) option" where
  "DBImpl_Delete E P sync key db = do {
     batch \<leftarrow> WriteBatch_Delete (mk_WriteBatch (de_seq0 E)) key;
     (s, _, db') \<leftarrow> DBImpl_Write E P sync (Some batch) db;
     Some (s, db') }"

section \<open>Reading\<close>

definition DBImpl_Get ::
  "'s dbenv \<Rightarrow> Snapshot option \<Rightarrow> bytes \<Rightarrow> bytes \<Rightarrow> 's DBImpl \<Rightarrow> (State \<times> bytes \<times> 's DBImpl) option" where
  "DBImpl_Get E snap key value db = do {
     let snapshot = (case snap of Some sn \<Rightarrow> snap_seq sn | None \<Rightarrow> vs_last_sequence (db_versions db));
     let lk = mk_Lookey key snapshot;
     mem \<leftarrow> db_mem db;
     (found, value1, s1) \<leftarrow> Memtable_Get (de_list E) mem lk value kok;
     if found then Some (s1, value1, db)
     else do {
       (found2, value2, s2) \<leftarrow>
         (case db_imm db of
            None \<Rightarrow> Some (False, value1, s1)
          | Some imm \<Rightarrow> Memtable_Get (de_list E) imm lk value1 s1);
       if found2 then Some (s2, value2, db)
       else do {
         (s3, g) \<leftarrow> Version_Get (de_renv E) (de_open_table E) lk value2 (vs_nowversion (db_versions db))
           (db_table_cache db);
         Some (s3, gs_val g, MaybeCompaction (db\<lparr>db_table_cache := gs_cache g\<rparr>)) } } }"

definition GetSnapshot :: "'s DBImpl \<Rightarrow> Snapshot \<times> 's DBImpl" where
  "GetSnapshot db =
     (let snapshot = \<lparr>sn_id = db_next_snapshot db, snap_seq = vs_last_sequence (db_versions db)\<rparr>
      in (snapshot, db\<lparr>db_snapshots := db_snapshots db @ [snapshot], db_next_snapshot := Suc (db_next_snapshot db)\<rparr>))"

definition ReleaseSnapshot :: "Snapshot \<Rightarrow> 's DBImpl \<Rightarrow> 's DBImpl" where
  "ReleaseSnapshot snapshot db = db\<lparr>db_snapshots := filter (\<lambda>sn. sn_id sn \<noteq> sn_id snapshot) (db_snapshots db)\<rparr>"

section \<open>Opening\<close>

definition DBImpl_NewDB :: "'s dbenv \<Rightarrow> posix \<Rightarrow> 's DBImpl \<Rightarrow> (State \<times> 's DBImpl) option" where
  "DBImpl_NewDB E P db =
     (let new_db = SetLastSequence 0 (SetNextFile 2 (SetLogNumber 0 mk_VersionEdit));
          manifest = DescriptorFileName (db_dbname db) 1
      in case NewWritableFile P manifest of
           (s, None) \<Rightarrow> Some (s, db)
         | (_, Some file) \<Rightarrow> do {
             (s, loger) \<leftarrow> Appendrecord (de_ext E) (VersionEdit_EncodeTo new_db []) (mk_walWriter (de_ext E) file);
             (s1, file1) \<leftarrow> (if State_ok s then file_Close P manifest (wal_file loger) else Some (s, wal_file loger));
             if State_ok s1 then do {
               (s2, current) \<leftarrow> SetCurrentFile P (db_dbname db) 1;
               Some (s2, db\<lparr>db_events := db_events db @ FileClosed manifest file1 #
                 (case current of None \<Rightarrow> [] | Some f \<Rightarrow> [FileClosed (CurrentFileName (db_dbname db)) f])\<rparr>) }
             else Some (s1, db\<lparr>db_events := db_events db @ [FileDeleted manifest]\<rparr>) })"

text \<open>The variables of the loop of \<open>RecoverLogFile\<close>.\<close>

record 's log_state =
  ls_s :: State
  ls_batch :: WriteBatch
  ls_mem :: "'s memtable option"
  ls_save_manifest :: bool
  ls_edit :: VersionEdit
  ls_max_sequence :: u64

text \<open>One record: whether the loop goes on.\<close>

definition recover_batch ::
  "'s dbenv \<Rightarrow> posix \<Rightarrow> bytes \<Rightarrow> 's log_state \<Rightarrow> 's DBImpl \<Rightarrow> (bool \<times> 's log_state \<times> 's DBImpl) option" where
  "recover_batch E P record st db = do {
     let batch = WriteBatch_SetContents (ls_batch st) record;
     let mem = (case ls_mem st of Some m \<Rightarrow> m | None \<Rightarrow> mk_Memtable (de_list E));
     (s, batch1, mem1) \<leftarrow> WriteBatch_InsertInto (de_new E) (de_list E) batch mem;
     let st1 = st\<lparr>ls_s := s, ls_batch := batch1, ls_mem := Some mem1\<rparr>;
     if \<not> State_ok s then Some (False, st1, db)
     else do {
       seq \<leftarrow> WriteBatch_Sequence batch1;
       count \<leftarrow> WriteBatch_Count batch1;
       let last_seq = seq + scast count - 1;
       let st2 = st1\<lparr>ls_max_sequence := max (ls_max_sequence st1) last_seq\<rparr>;
       if ucast (Memtable_ApproximateMemoryUsage mem1) > de_write_buffer_size E then do {
         (s', edit, db1) \<leftarrow> WriteLevel0Table E P mem1 (ls_edit st2) db;
         Some (State_ok s', st2\<lparr>ls_save_manifest := True, ls_s := s', ls_edit := edit, ls_mem := None\<rparr>, db1) }
       else Some (True, st2, db) } }"

partial_function (option) RecoverLog_loop ::
  "'s dbenv \<Rightarrow> posix \<Rightarrow> bytes \<Rightarrow> Reader \<Rightarrow> 's log_state \<Rightarrow> 's DBImpl \<Rightarrow> ('s log_state \<times> 's DBImpl) option" where
  "RecoverLog_loop E P ptr readers st db =
     Option.bind (ReadRecord (de_ext E) True ptr readers) (\<lambda>(ok, record, readers').
       if \<not> ok then Some (st, db)
       else if length record < 12 then RecoverLog_loop E P record readers' st db
       else Option.bind (recover_batch E P record st db) (\<lambda>(go_on, st', db').
         if go_on then RecoverLog_loop E P record readers' st' db' else Some (st', db')))"

text \<open>
  The number of the log is cut to 32 bits.  The memtable the records were replayed into is dropped at the end.
\<close>

definition RecoverLogFile ::
  "'s dbenv \<Rightarrow> posix \<Rightarrow> u64 \<Rightarrow> bool \<Rightarrow> VersionEdit \<Rightarrow> u64 \<Rightarrow> 's DBImpl
    \<Rightarrow> (State \<times> bool \<times> VersionEdit \<times> u64 \<times> 's DBImpl) option" where
  "RecoverLogFile E P number save_manifest edit max_sequence db =
     (let log_num = (ucast number :: u32);
          fname = LogFileName (db_dbname db) (ucast log_num)
      in case NewReadFile P fname of
           (s, None) \<Rightarrow> Some (s, save_manifest, edit, max_sequence, db)
         | (s, Some file) \<Rightarrow> do {
             (st, db') \<leftarrow> RecoverLog_loop E P [] (mk_Reader file True 0)
               \<lparr>ls_s = s, ls_batch = mk_WriteBatch (de_seq0 E), ls_mem = None, ls_save_manifest = save_manifest,
                ls_edit = edit, ls_max_sequence = max_sequence\<rparr> db;
             Some (ls_s st, ls_save_manifest st, ls_edit st, ls_max_sequence st, db') })"

text \<open>The loop over the directory: the numbers that are still expected, and the logs.\<close>

fun scan_files :: "u64 \<Rightarrow> string list \<Rightarrow> u64 set \<Rightarrow> u64 list \<Rightarrow> (u64 set \<times> u64 list) option" where
  "scan_files min_log [] expected logs = Some (expected, logs)"
| "scan_files min_log (filename # filenames) expected logs = do {
     (ok, number, type) \<leftarrow> ParsefileName filename 0 kTempFile;
     if ok then scan_files min_log filenames (expected - {number})
       (if type = kLogFile \<and> number \<ge> min_log then logs @ [number] else logs)
     else scan_files min_log filenames expected logs }"

fun recover_logs ::
  "'s dbenv \<Rightarrow> posix \<Rightarrow> u64 list \<Rightarrow> bool \<Rightarrow> VersionEdit \<Rightarrow> u64 \<Rightarrow> 's DBImpl
    \<Rightarrow> (State \<times> bool \<times> VersionEdit \<times> 's DBImpl) option" where
  "recover_logs E P [] save_manifest edit max_sequence db = Some (kok, save_manifest, edit, db)"
| "recover_logs E P (n # ns) save_manifest edit max_sequence db = do {
     (s, save1, edit1, max1, db1) \<leftarrow> RecoverLogFile E P n save_manifest edit max_sequence db;
     if State_ok s then recover_logs E P ns save1 edit1 max1 db1 else Some (s, save1, edit1, db1) }"

text \<open>The status, \<open>*save_manifest\<close>, \<open>*edit\<close> and the database.  The status of \<open>CreateDir\<close> is dropped.\<close>

definition DBImpl_Recover ::
  "'s dbenv \<Rightarrow> posix \<Rightarrow> VersionEdit \<Rightarrow> 's DBImpl \<Rightarrow> (State \<times> bool \<times> VersionEdit \<times> 's DBImpl) option" where
  "DBImpl_Recover E P edit db =
     (let (s, env) = LockFile P (LockFileName (db_dbname db)) (db_env db)
      in if \<not> State_ok s then Some (s, False, edit, db\<lparr>db_env := env\<rparr>)
         else do {
           let db0 = db\<lparr>db_lock := True, db_env := env\<rparr>;
           (s1, db1) \<leftarrow> (if FileExists P (CurrentFileName (db_dbname db)) then Some (kok, db0) else DBImpl_NewDB E P db0);
           if \<not> State_ok s1 then Some (s1, False, edit, db1)
           else do {
             (s2, save_manifest, vs) \<leftarrow> VersionSet_Recover (de_rnd E) (de_ext E) P (db_versions db1);
             let db2 = db1\<lparr>db_versions := vs\<rparr>;
             if \<not> State_ok s2 then Some (s2, save_manifest, edit, db2)
             else
               (case GetChildren P (db_dbname db2) of (s3, filenames) \<Rightarrow>
                  if \<not> State_ok s3 then Some (s3, save_manifest, edit, db2)
                  else do {
                    (expected, logs) \<leftarrow> scan_files (vs_log_number vs) filenames (AddLiveFiles vs {}) [];
                    if expected \<noteq> {} then Some (kcorruption, save_manifest, edit, db2)
                    else recover_logs E P (sort logs) save_manifest edit 0 db2 }) } })"

text \<open>\<open>Open\<close>: the status, the database if it was opened, and what the failed one has done.\<close>

definition open_log ::
  "'s dbenv \<Rightarrow> posix \<Rightarrow> VersionEdit \<Rightarrow> 's DBImpl \<Rightarrow> State \<times> VersionEdit \<times> 's DBImpl" where
  "open_log E P edit db =
     (let (new_log_number, vs) = NewFileNumber (db_versions db);
          name = LogFileName (db_dbname db) new_log_number;
          db1 = db\<lparr>db_versions := vs\<rparr>
      in case NewWritableFile P name of
           (s, None) \<Rightarrow> (s, edit, db1)
         | (s, Some lfile) \<Rightarrow>
             (s, SetLogNumber new_log_number edit,
              db1\<lparr>db_log := Some (name, mk_walWriter (de_ext E) lfile), db_logfilenum := new_log_number,
                  db_mem := Some (mk_Memtable (de_list E))\<rparr>))"

text \<open>
  The directory changes while \<open>Open\<close> runs, and it is listed twice, by \<open>Recover\<close> and by \<open>DeleteObsoleteFiles\<close>:
  \<open>P\<close> answers the system calls of \<open>Recover\<close>, \<open>P'\<close> those that follow it.
\<close>

definition DBImpl_Open :: "'s dbenv \<Rightarrow> posix \<Rightarrow> posix \<Rightarrow> string \<Rightarrow> (State \<times> 's DBImpl option) option" where
  "DBImpl_Open E P P' name = do {
     (s, save_manifest, edit, db) \<leftarrow> DBImpl_Recover E P mk_VersionEdit (mk_DBImpl E name);
     let (s1, edit1, db1) = (if State_ok s \<and> db_mem db = None then open_log E P' edit db else (s, edit, db));
     (s2, vs) \<leftarrow> (if State_ok s1 \<and> save_manifest
       then LogAndApply (de_rnd E) (de_ext E) P' (SetLogNumber (db_logfilenum db1) edit1) (db_versions db1)
       else Some (s1, db_versions db1));
     let db2 = db1\<lparr>db_versions := vs\<rparr>;
     if State_ok s2 then do {
       db3 \<leftarrow> DeleteObsoleteFiles E P' db2;
       Some (s2, Some (MaybeCompaction db3)) }
     else Some (s2, None) }"

text \<open>
  The destructor: after \<open>shutting_down_\<close> is set it waits for the background work that is scheduled, and then unlocks the
  database.  What remains is the state in which the members are destroyed.
\<close>

partial_function (option) close_loop :: "'s dbenv \<Rightarrow> posix \<Rightarrow> 's DBImpl \<Rightarrow> 's DBImpl option" where
  "close_loop E P db =
     (if db_background_compaction db then Option.bind (wait_background E P db) (close_loop E P) else Some db)"

definition DBImpl_close :: "'s dbenv \<Rightarrow> posix \<Rightarrow> 's DBImpl \<Rightarrow> 's DBImpl option" where
  "DBImpl_close E P db = do {
     db1 \<leftarrow> close_loop E P (db\<lparr>db_shutting_down := True\<rparr>);
     Some (if db_lock db1
       then (let (s, env) = UnlockFile P (LockFileName (db_dbname db1)) (db_env db1)
             in db1\<lparr>db_lock := \<not> State_ok s, db_env := env\<rparr>)
       else db1) }"

end
