(* ===== verification/DbWrites.thy ===== *)
theory DbWrites
  imports Database
begin

text \<open>
  The write path and reading back: what \<open>Put\<close>, \<open>Delete\<close> and \<open>Get\<close> of src/src/db/db.cpp do together with the log and the memtable.
\<close>

section \<open>Operations\<close>

fun DBImpl_op :: "'s dbenv \<Rightarrow> posix \<Rightarrow> wop \<Rightarrow> 's DBImpl \<Rightarrow> (State \<times> 's DBImpl) option" where
  "DBImpl_op E P (WPut k v) db = DBImpl_Put E P False k v db"
| "DBImpl_op E P (WDel k) db = DBImpl_Delete E P False k db"

fun DBImpl_ops :: "'s dbenv \<Rightarrow> posix \<Rightarrow> wop list \<Rightarrow> 's DBImpl \<Rightarrow> (State list \<times> 's DBImpl) option" where
  "DBImpl_ops E P [] db = Some ([], db)"
| "DBImpl_ops E P (x # xs) db = do {
     (s, db1) \<leftarrow> DBImpl_op E P x db;
     (ss, db2) \<leftarrow> DBImpl_ops E P xs db1;
     Some (s # ss, db2) }"

text \<open>What a list of operations writes to the log and to the memtable: each one gets a sequence number of its own.\<close>

fun op_records :: "u64 \<Rightarrow> wop list \<Rightarrow> bytes list" where
  "op_records q [] = []"
| "op_records q (x # xs) = wb_image (q + 1) [x] # op_records (q + 1) xs"

fun op_entries :: "u64 \<Rightarrow> wop list \<Rightarrow> mentry list" where
  "op_entries q [] = []"
| "op_entries q (x # xs) = wop_entry (q + 1) x # op_entries (q + 1) xs"

text \<open>A database that can take the next write at once, with \<open>n\<close> more writes of the log going through.\<close>

definition db_ready :: "'s dbenv \<Rightarrow> nat \<Rightarrow> nat \<Rightarrow> u64 \<Rightarrow> 's memtable \<Rightarrow> walWriter \<Rightarrow> 's DBImpl \<Rightarrow> bool" where
  "db_ready E bo n q m w db \<longleftrightarrow>
     State_ok (db_bg_error db) \<and> NumLevelFiles (db_versions db) 0 < kL0_SlowdownWrites \<and> db_writerque db = [] \<and>
     db_mem db = Some m \<and> ucast (Memtable_ApproximateMemoryUsage m) \<le> de_write_buffer_size E \<and>
     (\<exists>name. db_log db = Some (name, w)) \<and> wal_inv (de_ext E) bo w \<and> wf_offset (wal_file w) = 0 \<and>
     wf_os (wal_file w) = replicate n WFull \<and> vs_last_sequence (db_versions db) = q"

lemma MakeRoomForwrite_ready:
  assumes "db_ready E bo n q m w db"
  shows "MakeRoomForwrite E P False db = Some (kok, db)"
  using assms by (simp add: MakeRoomForwrite_def db_ready_def MakeRoom_loop.simps [of E P True])

text \<open>The part of \<open>Write\<close> that is the same for every log outcome.\<close>

lemma DBImpl_op_Write:
  "DBImpl_op E P x db = map_option (\<lambda>(s, _, db'). (s, db'))
     (DBImpl_Write E P False (Some ((mk_WriteBatch (de_seq0 E))\<lparr>wb_mate := wb_image 0 [x]\<rparr>)) db)"
  using WriteBatch_op_image [OF mk_WriteBatch_image, of "de_seq0 E" x]
  by (cases x) (auto simp: DBImpl_Put_def DBImpl_Delete_def map_option_case split: option.splits bind_splits)

lemma DBImpl_op_ready:
  assumes crc: "crc_lib (de_ext E)" and db: "db_ready E bo (Suc n) q m w db"
    and fits: "mentry_fits (wop_entry (q + 1) x)" "wal_fits bo [wb_image (q + 1) [x]]"
  obtains name w' where "db_log db = Some (name, w)"
    "DBImpl_op E P x db = map_option (\<lambda>m'. (kok, db\<lparr>db_log := Some (name, w'), db_mem := Some m',
      db_versions := SetLastSequence_vs (q + 1) (db_versions db)\<rparr>)) (Memtable_Add_all (de_new E) (de_list E) m [wop_entry (q + 1) x])"
    "wal_inv (de_ext E) (wal_end bo [wb_image (q + 1) [x]]) w'" "wf_os (wal_file w') = replicate n WFull" "wf_offset (wal_file w') = 0"
    "wf_disk (wal_file w') = wf_disk (wal_file w) @ wal_image (de_ext E) bo [wb_image (q + 1) [x]]"
proof -
  obtain name where name: "db_log db = Some (name, w)"
    using db by (auto simp: db_ready_def)
  let ?b = "(mk_WriteBatch (de_seq0 E))\<lparr>wb_mate := wb_image 0 [x]\<rparr>"
  let ?b1 = "?b\<lparr>wb_mate := wb_image (q + 1) [x]\<rparr>"
  have b: "wb_mate ?b = wb_image 0 [x]" "wb_mate ?b1 = wb_image (q + 1) [x]"
    by simp_all
  have w: "wal_inv (de_ext E) bo w" "wf_offset (wal_file w) = 0" "wf_os (wal_file w) = WFull # replicate n WFull"
    using db by (simp_all add: db_ready_def)
  obtain w' where w': "Appendrecord (de_ext E) (wb_image (q + 1) [x]) w = Some (kok, w')"
    "wal_inv (de_ext E) (wal_end bo [wb_image (q + 1) [x]]) w'"
    "wf_os (wal_file w') = replicate n WFull" "wf_offset (wal_file w') = 0"
    "wf_disk (wal_file w') = wf_disk (wal_file w) @ wal_image (de_ext E) bo [wb_image (q + 1) [x]]"
    using Appendrecord_fits [OF crc w, of "wb_image (q + 1) [x]"] fits(2) by auto
  have "write_batch E P False ?b db = map_option (\<lambda>m'. (kok, q + 1, ?b1\<lparr>wb_seq := wb_seq ?b1 + 1\<rparr>,
      db\<lparr>db_log := Some (name, w'), db_mem := Some m'\<rparr>)) (Memtable_Add_all (de_new E) (de_list E) m [wop_entry (q + 1) x])"
    using db name w'(1) InsertInto_image [of "[x]" "q + 1" ?b1 "de_new E" "de_list E" m] fits(1)
      SetSequence_image [OF b(1), of "q + 1"] Count_image [OF b(2)]
    by (cases "Memtable_Add_all (de_new E) (de_list E) m [wop_entry (q + 1) x]")
      (simp_all add: write_batch_def group_batch_def write_log_def db_ready_def BuildBatchGroup_def WriteBatch_Contents_def)
  then have "DBImpl_op E P x db = map_option (\<lambda>m'. (kok, db\<lparr>db_log := Some (name, w'), db_mem := Some m',
      db_versions := SetLastSequence_vs (q + 1) (db_versions db)\<rparr>)) (Memtable_Add_all (de_new E) (de_list E) m [wop_entry (q + 1) x])"
    using MakeRoomForwrite_ready [OF db, of P]
    by (cases "Memtable_Add_all (de_new E) (de_list E) m [wop_entry (q + 1) x]")
      (simp_all add: DBImpl_op_Write DBImpl_Write_def)
  then show ?thesis
    using that name w' by blast
qed

lemma DBImpl_op_step:
  assumes crc: "crc_lib (de_ext E)" and db: "db_ready E bo (Suc n) q m w db"
    and fits: "mentry_fits (wop_entry (q + 1) x)" "wal_fits bo [wb_image (q + 1) [x]]"
    and m': "Memtable_Add_all (de_new E) (de_list E) m [wop_entry (q + 1) x] = Some m'"
      "ucast (Memtable_ApproximateMemoryUsage m') \<le> de_write_buffer_size E"
  obtains db' w' where "DBImpl_op E P x db = Some (kok, db')"
    "db_ready E (wal_end bo [wb_image (q + 1) [x]]) n (q + 1) m' w' db'"
    "wf_disk (wal_file w') = wf_disk (wal_file w) @ wal_image (de_ext E) bo [wb_image (q + 1) [x]]"
    "db_versions db' = SetLastSequence_vs (q + 1) (db_versions db)" "db_imm db' = db_imm db"
proof -
  obtain name w' where w': "db_log db = Some (name, w)"
    "DBImpl_op E P x db = map_option (\<lambda>m'. (kok, db\<lparr>db_log := Some (name, w'), db_mem := Some m',
      db_versions := SetLastSequence_vs (q + 1) (db_versions db)\<rparr>)) (Memtable_Add_all (de_new E) (de_list E) m [wop_entry (q + 1) x])"
    "wal_inv (de_ext E) (wal_end bo [wb_image (q + 1) [x]]) w'" "wf_os (wal_file w') = replicate n WFull" "wf_offset (wal_file w') = 0"
    "wf_disk (wal_file w') = wf_disk (wal_file w) @ wal_image (de_ext E) bo [wb_image (q + 1) [x]]"
    by (rule DBImpl_op_ready [OF crc db fits])
  show ?thesis
    using that [of "db\<lparr>db_log := Some (name, w'), db_mem := Some m', db_versions := SetLastSequence_vs (q + 1) (db_versions db)\<rparr>" w']
      db m' w' by (simp add: db_ready_def SetLastSequence_vs_def NumLevelFiles_def)
qed

lemma Add_all_Cons:
  "Memtable_Add_all new L m (e # es) = Some m' \<longleftrightarrow>
    (\<exists>m1. Memtable_Add_all new L m [e] = Some m1 \<and> Memtable_Add_all new L m1 es = Some m')"
  by (cases "Memtable_Add new L m (me_seq e) (me_type e) (me_key e) (me_value e)") simp_all

lemma DBImpl_ops_run:
  assumes crc: "crc_lib (de_ext E)"
  shows "db_ready E bo (length xs + k) q m w db \<Longrightarrow> \<forall>e \<in> set (op_entries q xs). mentry_fits e \<Longrightarrow>
    wal_fits bo (op_records q xs) \<Longrightarrow> Memtable_Add_all (de_new E) (de_list E) m (op_entries q xs) = Some m' \<Longrightarrow>
    (\<forall>n m'. Memtable_Add_all (de_new E) (de_list E) m (take n (op_entries q xs)) = Some m' \<longrightarrow>
      ucast (Memtable_ApproximateMemoryUsage m') \<le> de_write_buffer_size E) \<Longrightarrow>
    \<exists>db' w'. DBImpl_ops E P xs db = Some (replicate (length xs) kok, db') \<and>
      db_ready E (wal_end bo (op_records q xs)) k (q + of_nat (length xs)) m' w' db' \<and>
      wf_disk (wal_file w') = wf_disk (wal_file w) @ wal_image (de_ext E) bo (op_records q xs) \<and>
      db_versions db' = SetLastSequence_vs (q + of_nat (length xs)) (db_versions db) \<and> db_imm db' = db_imm db"
proof (induction xs arbitrary: bo q m w db)
  case Nil
  then show ?case
    by (auto simp: db_ready_def SetLastSequence_vs_def)
next
  case (Cons x xs)
  obtain m1 where m1: "Memtable_Add_all (de_new E) (de_list E) m [wop_entry (q + 1) x] = Some m1"
      "Memtable_Add_all (de_new E) (de_list E) m1 (op_entries (q + 1) xs) = Some m'"
    using iffD1 [OF Add_all_Cons Cons.prems(4) [unfolded op_entries.simps]] by blast
  have u: "ucast (Memtable_ApproximateMemoryUsage m1) \<le> de_write_buffer_size E"
    using Cons.prems(5) [rule_format, of 1 m1] m1(1) by simp
  obtain db1 w1 where d: "DBImpl_op E P x db = Some (kok, db1)"
      "db_ready E (wal_end bo [wb_image (q + 1) [x]]) (length xs + k) (q + 1) m1 w1 db1"
      "wf_disk (wal_file w1) = wf_disk (wal_file w) @ wal_image (de_ext E) bo [wb_image (q + 1) [x]]"
      "db_versions db1 = SetLastSequence_vs (q + 1) (db_versions db)" "db_imm db1 = db_imm db"
    by (rule DBImpl_op_step [OF crc Cons.prems(1) [unfolded list.size add_Suc add_Suc_shift [symmetric] add_0] _ _ m1(1) u]) (use Cons.prems(2,3) in simp_all)
  have r: "\<forall>n m'. Memtable_Add_all (de_new E) (de_list E) m1 (take n (op_entries (q + 1) xs)) = Some m' \<longrightarrow>
      ucast (Memtable_ApproximateMemoryUsage m') \<le> de_write_buffer_size E"
  proof (intro allI impI)
    fix n m2
    assume "Memtable_Add_all (de_new E) (de_list E) m1 (take n (op_entries (q + 1) xs)) = Some m2"
    then have "Memtable_Add_all (de_new E) (de_list E) m (take (Suc n) (op_entries q (x # xs))) = Some m2"
      unfolding op_entries.simps take_Suc_Cons by (intro iffD2 [OF Add_all_Cons]) (use m1(1) in blast)
    then show "ucast (Memtable_ApproximateMemoryUsage m2) \<le> de_write_buffer_size E"
      using Cons.prems(5) by blast
  qed
  obtain db' w' where i: "DBImpl_ops E P xs db1 = Some (replicate (length xs) kok, db')"
      "db_ready E (wal_end (wal_end bo [wb_image (q + 1) [x]]) (op_records (q + 1) xs)) k (q + 1 + of_nat (length xs)) m' w' db'"
      "wf_disk (wal_file w') = wf_disk (wal_file w1) @
        wal_image (de_ext E) (wal_end bo [wb_image (q + 1) [x]]) (op_records (q + 1) xs)"
      "db_versions db' = SetLastSequence_vs (q + 1 + of_nat (length xs)) (db_versions db1)" "db_imm db' = db_imm db1"
    using Cons.IH [OF d(2) _ _ m1(2) r] Cons.prems(2,3) by auto
  have "q + 1 + of_nat (length xs) = q + of_nat (length (x # xs))"
    by simp
  note n = i [unfolded this]
  have "DBImpl_ops E P (x # xs) db = Some (replicate (length (x # xs)) kok, db')"
    using d(1) i(1) by simp
  moreover have "wf_disk (wal_file w') = wf_disk (wal_file w) @ wal_image (de_ext E) bo (op_records q (x # xs))"
    using n(3) d(3) by simp
  moreover have "db_versions db' = SetLastSequence_vs (q + of_nat (length (x # xs))) (db_versions db)"
    unfolding n(4) d(4) by (simp add: SetLastSequence_vs_def)
  ultimately show ?case
    using n(2,5) d(5) by (intro exI [of _ db'] exI [of _ w']) simp
qed

section \<open>Reading the last write\<close>

fun wop_key :: "wop \<Rightarrow> bytes" where
  "wop_key (WPut k v) = k"
| "wop_key (WDel k) = k"

text \<open>The last operation on a key, and what a read answers after it.\<close>

definition last_op :: "bytes \<Rightarrow> wop list \<Rightarrow> wop option" where
  "last_op k xs = List.find (\<lambda>x. wop_key x = k) (rev xs)"

fun op_answer :: "wop \<Rightarrow> bytes \<Rightarrow> State \<times> bytes" where
  "op_answer (WPut k v) value = (kok, v)"
| "op_answer (WDel k) value = (knotfound, value)"

lemma wop_entry_simps [simp]: "me_key (wop_entry s x) = wop_key x" "me_seq (wop_entry s x) = s"
  by (cases x; simp)+

lemma read_entry_op: "read_entry (wop_entry s x) v kok = (True, snd (op_answer x v), fst (op_answer x v))"
  by (cases x) simp_all

lemma op_entries_append: "op_entries q (xs @ ys) = op_entries q xs @ op_entries (q + of_nat (length xs)) ys"
  by (induction xs arbitrary: q) (simp_all add: add.assoc)

lemma length_op_entries: "length (op_entries q xs) = length xs"
  by (induction xs arbitrary: q) simp_all

lemma op_records_append: "op_records q (xs @ ys) = op_records q xs @ op_records (q + of_nat (length xs)) ys"
  by (induction xs arbitrary: q) (simp_all add: add.assoc)

lemma op_entries_seq:
  "e \<in> set (op_entries q xs) \<Longrightarrow> unat q + length xs < 2 ^ 64 \<Longrightarrow>
    unat q < unat (me_seq e) \<and> unat (me_seq e) \<le> unat q + length xs"
proof (induction xs arbitrary: q)
  case (Cons x xs)
  have "unat (q + 1) = unat q + 1"
    using Cons.prems(2) by (subst unat_add_lem [THEN iffD1]) auto
  then show ?case
    using Cons.IH [of "q + 1"] Cons.prems by auto
qed simp

lemma unat_add_length: "unat (q :: u64) + n < 2 ^ 64 \<Longrightarrow> unat (q + of_nat n) = unat q + n"
  by (subst unat_add_lem [THEN iffD1]) (auto simp: unat_of_nat)

lemma newest_last_op:
  "newest (op_entries q xs) k (q + of_nat (length xs)) e \<Longrightarrow> unat q + length xs < 2 ^ 64 \<Longrightarrow>
    \<exists>s x. last_op k xs = Some x \<and> e = wop_entry s x"
proof (induction xs rule: rev_induct)
  case Nil
  then show ?case
    by (simp add: newest_def)
next
  case (snoc x xs)
  let ?n = "q + of_nat (length xs) + 1"
  have es: "op_entries q (xs @ [x]) = op_entries q xs @ [wop_entry ?n x]"
    by (simp add: op_entries_append)
  have n: "unat ?n = unat q + length xs + 1"
    using unat_add_length [of q "Suc (length xs)"] snoc.prems(2) by (simp add: ac_simps)
  have old: "me_seq e < ?n" if "e \<in> set (op_entries q xs)" for e
    using op_entries_seq [OF that] snoc.prems(2) n by (simp add: word_less_nat_alt)
  have m: "q + of_nat (length (xs @ [x])) = ?n"
    by (simp add: ac_simps)
  note new = snoc.prems(1) [unfolded m es newest_def]
  show ?case
  proof (cases "wop_key x = k")
    case True
    then have "me_seq (wop_entry ?n x) \<le> me_seq e"
      using new by auto
    then have "e = wop_entry ?n x"
      using new old [of e] by auto
    then show ?thesis
      using True by (auto simp: last_op_def)
  next
    case False
    have "unat (q + of_nat (length xs)) = unat q + length xs"
      using unat_add_length [of q "length xs"] snoc.prems(2) by simp
    then have "e' \<in> set (op_entries q xs) \<Longrightarrow> me_seq e' \<le> q + of_nat (length xs)" for e'
      using op_entries_seq [of e' q xs] snoc.prems(2) by (simp add: word_le_nat_alt)
    then have "newest (op_entries q xs) k (q + of_nat (length xs)) e"
      using new False old unfolding newest_def by (auto intro: less_imp_le)
    then show ?thesis
      using snoc.IH snoc.prems(2) False by (auto simp: last_op_def)
  qed
qed

lemma newest_prefix:
  assumes "newest (op_entries q (xs @ ys)) k (q + of_nat (length xs)) e" "unat q + length (xs @ ys) < 2 ^ 64"
  shows "newest (op_entries q xs) k (q + of_nat (length xs)) e"
proof -
  have l: "unat (q + of_nat (length xs)) = unat q + length xs"
    using assms(2) by (intro unat_add_length) simp
  have "\<not> me_seq e \<le> q + of_nat (length xs)" if "e \<in> set (op_entries (q + of_nat (length xs)) ys)" for e
    using op_entries_seq [OF that] assms(2) l by (simp add: word_le_nat_alt)
  then show ?thesis
    using assms(1) by (auto simp: newest_def op_entries_append)
qed

lemma last_op_entry:
  assumes "last_op k xs = Some x"
  shows "\<exists>e \<in> set (op_entries q xs). me_key e = k"
proof -
  have "x \<in> set xs" "wop_key x = k"
    using assms by (auto simp: last_op_def find_Some_iff) (metis length_rev nth_mem set_rev)
  moreover have "x \<in> set xs \<Longrightarrow> \<exists>e \<in> set (op_entries q xs). me_key e = wop_key x"
    by (induction xs arbitrary: q) auto
  ultimately show ?thesis
    by simp
qed

lemma Get_last_op:
  assumes "skiplist_lib L" "Memtable_rep L m (op_entries q (xs @ ys))" "last_op k xs = Some x"
    and "unat q + length (xs @ ys) < 2 ^ 64" "q + of_nat (length xs) \<le> kMaxSequenceNumber"
  shows "Memtable_Get L m (mk_Lookey k (q + of_nat (length xs))) v kok =
    Some (True, snd (op_answer x v), fst (op_answer x v))"
proof -
  let ?es = "op_entries q (xs @ ys)" and ?n = "q + of_nat (length xs)"
  obtain r where r: "Memtable_Get L m (mk_Lookey k ?n) v kok = Some r"
      "(\<exists>e. newest ?es k ?n e \<and> r = read_entry e v kok) \<or> (\<forall>e \<in> set ?es. me_key e = k \<longrightarrow> \<not> me_seq e \<le> ?n)"
    using skiplist_lib.Get_rep [OF assms(1,2,5), of k v kok] by blast
  obtain e where e: "e \<in> set (op_entries q xs)" "me_key e = k"
    using last_op_entry [OF assms(3)] by blast
  have "unat ?n = unat q + length xs"
    using assms(4) by (intro unat_add_length) simp
  then have "me_seq e \<le> ?n"
    using op_entries_seq [OF e(1)] assms(4) by (simp add: word_le_nat_alt)
  then obtain e' where e': "newest ?es k ?n e'" "r = read_entry e' v kok"
    using r(2) e by (auto simp: op_entries_append)
  obtain s x' where "last_op k xs = Some x'" "e' = wop_entry s x'"
    using newest_last_op [OF newest_prefix [OF e'(1) assms(4)]] assms(4) by auto
  then show ?thesis
    using r(1) e'(2) assms(3) read_entry_op by simp
qed

lemma wal_append:
  "wal_fits bo (rs @ rs') \<longleftrightarrow> wal_fits bo rs \<and> wal_fits (wal_end bo rs) rs'"
  "wal_image ext bo (rs @ rs') = wal_image ext bo rs @ wal_image ext (wal_end bo rs) rs'"
  "wal_end bo (rs @ rs') = wal_end (wal_end bo rs) rs'"
  by (induction bo rs rule: wal_end.induct) auto

lemma Add_all_append:
  "Memtable_Add_all new L m (es @ es') = Option.bind (Memtable_Add_all new L m es) (\<lambda>m'. Memtable_Add_all new L m' es')"
  by (induction es arbitrary: m) (auto split: bind_splits)

lemma GetSnapshot_ready:
  "db_ready E bo n q m w db \<Longrightarrow> db_ready E bo n q m w (snd (GetSnapshot db))"
  "db_versions (snd (GetSnapshot db)) = db_versions db"
  by (simp_all add: db_ready_def GetSnapshot_def Let_def)

lemma DBImpl_Get_mem:
  assumes "db_ready E bo n q m w db"
    and "Memtable_Get (de_list E) m (mk_Lookey k (case snap of Some sn \<Rightarrow> snap_seq sn | None \<Rightarrow> q)) v kok = Some (True, v', s)"
  shows "DBImpl_Get E snap k v db = Some (s, v', db)"
  using assms by (cases snap) (simp_all add: DBImpl_Get_def db_ready_def)

text \<open>Two runs, with a snapshot taken between them.\<close>

lemma DBImpl_ops_twice:
  fixes E :: "'s dbenv"
  assumes "skiplist_lib (de_list E)" "crc_lib (de_ext E)"
    and "db_ready E 0 (length (xs @ ys)) q (mk_Memtable (de_list E)) w db"
    and "\<forall>e \<in> set (op_entries q (xs @ ys)). mentry_fits e" "wal_fits 0 (op_records q (xs @ ys))"
    and "\<forall>n m. Memtable_Add_all (de_new E) (de_list E) (mk_Memtable (de_list E)) (take n (op_entries q (xs @ ys))) = Some m
      \<longrightarrow> ucast (Memtable_ApproximateMemoryUsage m) \<le> de_write_buffer_size E"
    and short: "\<forall>e \<in> set (op_entries q (xs @ ys)). mentry_short e"
  obtains m1 w1 db1 sn db2 m2 w2 db3 bo where
    "DBImpl_ops E P xs db = Some (replicate (length xs) kok, db1)" "Memtable_rep (de_list E) m1 (op_entries q xs)"
    "db_ready E (wal_end 0 (op_records q xs)) (length ys) (q + of_nat (length xs)) m1 w1 db1"
    "GetSnapshot db1 = (sn, db2)" "snap_seq sn = q + of_nat (length xs)"
    "DBImpl_ops E P ys db2 = Some (replicate (length ys) kok, db3)" "Memtable_rep (de_list E) m2 (op_entries q (xs @ ys))"
    "db_ready E bo 0 (q + of_nat (length xs) + of_nat (length ys)) m2 w2 db3"
    "wf_disk (wal_file w2) = wf_disk (wal_file w) @ wal_image (de_ext E) 0 (op_records q (xs @ ys))"
proof -
  let ?L = "de_list E" and ?M = "mk_Memtable (de_list E)" and ?n = "q + of_nat (length xs)"
  let ?usage = "\<lambda>m. ucast (Memtable_ApproximateMemoryUsage m) \<le> de_write_buffer_size E"
  have es: "op_entries q (xs @ ys) = op_entries q xs @ op_entries ?n ys" "op_records q (xs @ ys) = op_records q xs @ op_records ?n ys"
    by (rule op_entries_append op_records_append)+
  have xs: "\<forall>e \<in> set (op_entries q xs). mentry_fits e" "\<forall>e \<in> set (op_entries q xs). mentry_short e"
    and ys: "\<forall>e \<in> set (op_entries ?n ys). mentry_fits e" "\<forall>e \<in> set (op_entries ?n ys). mentry_short e"
    using assms(4) short unfolding es by simp_all
  obtain m1 where m1: "Memtable_Add_all (de_new E) ?L ?M (op_entries q xs) = Some m1" "Memtable_rep ?L m1 (op_entries q xs)"
    using skiplist_lib.Add_all_rep [OF assms(1) skiplist_lib.rep_mk [OF assms(1)] xs, of "de_new E"] by auto
  obtain m2 where m2: "Memtable_Add_all (de_new E) ?L m1 (op_entries ?n ys) = Some m2"
      "Memtable_rep ?L m2 (op_entries q (xs @ ys))"
    using skiplist_lib.Add_all_rep [OF assms(1) m1(2) ys, of "de_new E"] unfolding es by auto
  have M: "Memtable_Add_all (de_new E) ?L ?M (take (length xs + n) (op_entries q (xs @ ys))) =
      Memtable_Add_all (de_new E) ?L m1 (take n (op_entries ?n ys))" for n
    by (simp add: es length_op_entries Add_all_append m1(1))
  have u1: "\<forall>n m. Memtable_Add_all (de_new E) ?L ?M (take n (op_entries q xs)) = Some m \<longrightarrow> ?usage m"
  proof (intro allI impI)
    fix n m
    assume "Memtable_Add_all (de_new E) ?L ?M (take n (op_entries q xs)) = Some m"
    then show "?usage m"
      using assms(6) [rule_format, of "min n (length xs)" m] by (cases "n \<le> length xs") (simp_all add: es length_op_entries min_def)
  qed
  have u2: "\<forall>n m. Memtable_Add_all (de_new E) ?L m1 (take n (op_entries ?n ys)) = Some m \<longrightarrow> ?usage m"
    using assms(6) by (simp only: M [symmetric]) blast
  have f: "wal_fits 0 (op_records q xs)" "wal_fits (wal_end 0 (op_records q xs)) (op_records ?n ys)"
    using assms(5) unfolding es wal_append by blast+
  obtain db1 w1 where d1: "DBImpl_ops E P xs db = Some (replicate (length xs) kok, db1)"
      "db_ready E (wal_end 0 (op_records q xs)) (length ys) ?n m1 w1 db1"
      "wf_disk (wal_file w1) = wf_disk (wal_file w) @ wal_image (de_ext E) 0 (op_records q xs)"
    using DBImpl_ops_run [OF assms(2) assms(3) [unfolded length_append] _ f(1) m1(1) u1, of P] assms(4) unfolding es by auto
  obtain sn db2 where sn: "GetSnapshot db1 = (sn, db2)" "snap_seq sn = ?n"
    using d1(2) by (cases "GetSnapshot db1") (auto simp: GetSnapshot_def db_ready_def Let_def)
  have r2: "db_ready E (wal_end 0 (op_records q xs)) (length ys + 0) ?n m1 w1 db2"
    using GetSnapshot_ready(1) [OF d1(2)] sn(1) by simp
  obtain db3 w3 where d3: "DBImpl_ops E P ys db2 = Some (replicate (length ys) kok, db3)"
      "db_ready E (wal_end (wal_end 0 (op_records q xs)) (op_records ?n ys)) 0 (?n + of_nat (length ys)) m2 w3 db3"
      "wf_disk (wal_file w3) = wf_disk (wal_file w1) @ wal_image (de_ext E) (wal_end 0 (op_records q xs)) (op_records ?n ys)"
    using DBImpl_ops_run [OF assms(2) r2 _ f(2) m2(1) u2, of P] assms(4) unfolding es by auto
  show ?thesis
    using that [OF d1(1) m1(2) d1(2) sn d3(1) m2(2) d3(2)] d3(3) d1(3) unfolding es wal_append by simp
qed

section \<open>Properties\<close>

text \<open>
  C1: Reads see the last write, and snapshots are isolated: on a database with a fresh memtable, as long as every value has fewer
  than 128 bytes, the log takes the records, each in its block, and the memtable stays within the write buffer, every \<open>Put\<close> and \<open>Delete\<close> returns ok; a
  \<open>Get\<close> answers from the last operation on the key; and a \<open>Get\<close> at a snapshot answers from the last operation
  before the snapshot was taken, whatever is written afterwards.  The log on disk holds one record for each operation.
\<close>

theorem db_reads_last_write:
  fixes E :: "'s dbenv"
  assumes "skiplist_lib (de_list E)" "\<forall>c a b. de_ext E (de_ext E c a) b = de_ext E c (a @ b)"
    and "db_ready E 0 (length (xs @ ys)) q (mk_Memtable (de_list E)) w db" "unat q + length (xs @ ys) < 2 ^ 56"
    and "\<forall>e \<in> set (op_entries q (xs @ ys)). mentry_fits e" "wal_fits 0 (op_records q (xs @ ys))"
    and "\<forall>n m. Memtable_Add_all (de_new E) (de_list E) (mk_Memtable (de_list E)) (take n (op_entries q (xs @ ys))) = Some m
      \<longrightarrow> ucast (Memtable_ApproximateMemoryUsage m) \<le> de_write_buffer_size E"
    and "last_op k xs = Some x" and "\<forall>e \<in> set (op_entries q (xs @ ys)). mentry_short e"
  shows "\<exists>db1 sn db2 db3 w'. DBImpl_ops E P xs db = Some (replicate (length xs) kok, db1) \<and>
    DBImpl_Get E None k v db1 = Some (fst (op_answer x v), snd (op_answer x v), db1) \<and>
    GetSnapshot db1 = (sn, db2) \<and> DBImpl_ops E P ys db2 = Some (replicate (length ys) kok, db3) \<and>
    DBImpl_Get E (Some sn) k v db3 = Some (fst (op_answer x v), snd (op_answer x v), db3) \<and>
    map_option snd (db_log db3) = Some w' \<and>
    wf_disk (wal_file w') = wf_disk (wal_file w) @ wal_image (de_ext E) 0 (op_records q (xs @ ys))"
proof -
  have crc: "crc_lib (de_ext E)"
    using assms(2) by (simp add: crc_lib_def)
  let ?n = "q + of_nat (length xs)"
  obtain m1 w1 db1 sn db2 m2 w2 db3 bo where d1: "DBImpl_ops E P xs db = Some (replicate (length xs) kok, db1)"
      "Memtable_rep (de_list E) m1 (op_entries q xs)" "db_ready E (wal_end 0 (op_records q xs)) (length ys) ?n m1 w1 db1"
    and sn: "GetSnapshot db1 = (sn, db2)" "snap_seq sn = ?n"
    and d3: "DBImpl_ops E P ys db2 = Some (replicate (length ys) kok, db3)"
      "Memtable_rep (de_list E) m2 (op_entries q (xs @ ys))" "db_ready E bo 0 (?n + of_nat (length ys)) m2 w2 db3"
    and disk: "wf_disk (wal_file w2) = wf_disk (wal_file w) @ wal_image (de_ext E) 0 (op_records q (xs @ ys))"
    by (rule DBImpl_ops_twice [OF assms(1) crc assms(3,5,6,7,9), of P])
  have "unat ?n = unat q + length xs"
    using assms(4) by (intro unat_add_length) simp
  then have max: "?n \<le> kMaxSequenceNumber"
    using assms(4) by (simp add: kMaxSequenceNumber_def word_le_nat_alt)
  have "DBImpl_Get E None k v db1 = Some (fst (op_answer x v), snd (op_answer x v), db1)"
    by (rule DBImpl_Get_mem [OF d1(3)])
      (use Get_last_op [OF assms(1) _ assms(8), where ys = "[]" and m = m1] d1(2) assms(4) max in simp)
  moreover have "DBImpl_Get E (Some sn) k v db3 = Some (fst (op_answer x v), snd (op_answer x v), db3)"
    by (rule DBImpl_Get_mem [OF d3(3)])
      (use Get_last_op [OF assms(1) d3(2) assms(8) _ max] assms(4) sn(2) in simp)
  moreover have "map_option snd (db_log db3) = Some w2"
    using d3(3) by (auto simp: db_ready_def)
  ultimately show ?thesis
    using d1(1) sn(1) d3(1) disk by blast
qed

text \<open>A database with a write buffer of 4 GB.\<close>

definition demo_env :: "node list dbenv" where
  "demo_env = \<lparr>de_tenv = sample_env, de_renv = \<lparr>re_hash = (\<lambda>k. 5), re_ext = crc32c_Extend,
       re_uncompressed_length = (\<lambda>s. None), re_uncompress = (\<lambda>s. None)\<rparr>,
     de_list = list_skiplist, de_new = bump_new, de_rnd = id, de_open_table = (\<lambda>name. None),
     de_write_buffer_size = 0xFFFFFFFF, de_max_file_size = 2097152, de_max_open_files = 1000, de_seq0 = 0\<rparr>"

lemma demo_env_simps [simp]: "de_list demo_env = list_skiplist" "de_new demo_env = bump_new"
  "te_ext (de_tenv demo_env) = crc32c_Extend" "de_write_buffer_size demo_env = 0xFFFFFFFF"
  by (simp_all add: demo_env_def sample_env_def)

lemma ucast_32_le: "(ucast (x :: u32) :: u64) \<le> 0xFFFFFFFF"
  using unsigned_less [of x, where 'a = nat] by (simp add: word_le_nat_alt unsigned_ucast_eq take_bit_nat_eq_self)

definition demo_db :: "nat \<Rightarrow> node list DBImpl" where
  "demo_db n = (mk_DBImpl demo_env ''d'')\<lparr>db_mem := Some (mk_Memtable list_skiplist),
     db_log := Some (''d/000003.log'', mk_walWriter crc32c_Extend (mk_WritableFile [] (replicate n WFull)))\<rparr>"

lemma demo_db_ready:
  "db_ready demo_env 0 n 0 (mk_Memtable list_skiplist) (mk_walWriter crc32c_Extend (mk_WritableFile [] (replicate n WFull))) (demo_db n)"
proof -
  have f: "wf_offset (mk_WritableFile [] (replicate n WFull)) = 0" "wf_os (mk_WritableFile [] (replicate n WFull)) = replicate n WFull"
    by (simp_all add: mk_WritableFile_def)
  then have "wal_inv crc32c_Extend 0 (mk_walWriter crc32c_Extend (mk_WritableFile [] (replicate n WFull)))"
    by (intro wal_inv_mk) (simp_all add: wf_inv_mk)
  then show ?thesis
    using f by (simp add: db_ready_def demo_db_def mk_DBImpl_def mk_VersionSet_def mk_Version_def NumLevelFiles_def
        kL0_SlowdownWrites_def ucast_32_le mk_walWriter_def)
qed

theorem db_reads_last_write_witness:
  "\<exists>db1 sn db2 db3 w'. DBImpl_ops demo_env (posix_ok (\<lambda>name. None)) [WPut [1] [5]] (demo_db 2) = Some (replicate (length [WPut [1] [5]]) kok, db1) \<and>
    DBImpl_Get demo_env None [1] [] db1 = Some (kok, [5], db1) \<and>
    GetSnapshot db1 = (sn, db2) \<and> DBImpl_ops demo_env (posix_ok (\<lambda>name. None)) [WDel [1]] db2 = Some (replicate (length [WDel [1]]) kok, db3) \<and>
    DBImpl_Get demo_env (Some sn) [1] [] db3 = Some (kok, [5], db3) \<and>
    map_option snd (db_log db3) = Some w' \<and>
    wf_disk (wal_file w') = wal_image crc32c_Extend 0 [wb_image 1 [WPut [1] [5]], wb_image 2 [WDel [1]]]"
proof -
  have e: "op_entries 0 ([WPut [1] [5]] @ [WDel [1]]) = [wop_entry 1 (WPut [1] [5]), wop_entry 2 (WDel [1])]"
      "op_records 0 ([WPut [1] [5]] @ [WDel [1]]) = [wb_image 1 [WPut [1] [5]], wb_image 2 [WDel [1]]]"
    by simp_all
  have l: "length (wb_image s [WPut [1] [5]]) = 17" "length (wb_image s [WDel [1]]) = 15" for s
    by (simp_all add: wb_image_def EncodeLengthPrefixed_def PutLengthPrefixedview_def PutVarint32_def EncodeVarint32_small del: PutLengthPrefixedview_append)
  have f: "wal_fits 0 [wb_image 1 [WPut [1] [5]], wb_image 2 [WDel [1]]]"
    using l by (auto simp: wal_start_def dest: arg_cong [of _ "[]" length])
  have "length ([WPut [1] [5]] @ [WDel [1]]) = 2"
    by simp
  then have r: "db_ready demo_env 0 (length ([WPut [1] [5]] @ [WDel [1]])) 0 (mk_Memtable (de_list demo_env))
      (mk_walWriter crc32c_Extend (mk_WritableFile [] (replicate 2 WFull))) (demo_db 2)"
    using demo_db_ready [of 2] by (simp only: demo_env_simps)
  have "\<exists>db1 sn db2 db3 w'. DBImpl_ops demo_env (posix_ok (\<lambda>name. None)) [WPut [1] [5]] (demo_db 2) = Some (replicate (length [WPut [1] [5]]) kok, db1) \<and>
    DBImpl_Get demo_env None [1] [] db1 = Some (fst (op_answer (WPut [1] [5]) []), snd (op_answer (WPut [1] [5]) []), db1) \<and>
    GetSnapshot db1 = (sn, db2) \<and> DBImpl_ops demo_env (posix_ok (\<lambda>name. None)) [WDel [1]] db2 = Some (replicate (length [WDel [1]]) kok, db3) \<and>
    DBImpl_Get demo_env (Some sn) [1] [] db3 = Some (fst (op_answer (WPut [1] [5]) []), snd (op_answer (WPut [1] [5]) []), db3) \<and>
    map_option snd (db_log db3) = Some w' \<and>
    wf_disk (wal_file w') = wf_disk (wal_file (mk_walWriter crc32c_Extend (mk_WritableFile [] (replicate 2 WFull)))) @
      wal_image (de_ext demo_env) 0 (op_records 0 ([WPut [1] [5]] @ [WDel [1]]))"
    by (rule db_reads_last_write [OF _ _ r], unfold e)
      (use f in \<open>simp_all add: list_lib.skiplist_lib_axioms crc32c_Extend_append ucast_32_le mentry_fits_def mentry_short_def
        kMaxSequenceNumber_def last_op_def\<close>)
  then show ?thesis
    unfolding e by (simp add: mk_walWriter_def mk_WritableFile_def)
qed

text \<open>
  C23: Long values break the heap: on a database that can take a write at once, with a log that takes the record in its block, a
  \<open>Put\<close> is defined, and then returns ok, exactly when the value has fewer than 128 bytes.  For a longer one the entry of the memtable
  is built by a copy past the memory of its string, after the record has gone to the log.
\<close>

theorem Put_long_value_overflows:
  assumes "\<forall>c a b. de_ext E (de_ext E c a) b = de_ext E c (a @ b)" and "db_ready E bo (Suc n) q m w db"
    and "mentry_fits (wop_entry (q + 1) (WPut k v))" "wal_fits bo [wb_image (q + 1) [WPut k v]]"
  shows "\<exists>w'. Appendrecord (de_ext E) (wb_image (q + 1) [WPut k v]) w = Some (kok, w') \<and>
    (if length v < 128 then \<exists>db'. DBImpl_Put E P False k v db = Some (kok, db') else DBImpl_Put E P False k v db = None)"
proof -
  have crc: "crc_lib (de_ext E)"
    using assms(1) by (simp add: crc_lib_def)
  have w: "wal_inv (de_ext E) bo w" "wf_offset (wal_file w) = 0" "wf_os (wal_file w) = WFull # replicate n WFull"
    using assms(2) by (simp_all add: db_ready_def)
  obtain w' where w': "Appendrecord (de_ext E) (wb_image (q + 1) [WPut k v]) w = Some (kok, w')"
    using Appendrecord_fits [OF crc w, of "wb_image (q + 1) [WPut k v]"] assms(4) by auto
  obtain f where "DBImpl_op E P (WPut k v) db = map_option (\<lambda>m'. (kok, f m'))
      (Memtable_Add_all (de_new E) (de_list E) m [wop_entry (q + 1) (WPut k v)])"
    by (rule DBImpl_op_ready [OF crc assms(2-4), of P]) (rule that)
  then show ?thesis
    using w' Memtable_Add_cases [OF assms(3), of "de_new E" "de_list E" m] by (simp add: mentry_short_def)
qed

theorem Put_long_value_overflows_witness:
  "DBImpl_Put demo_env (posix_ok (\<lambda>name. None)) False [1] (replicate 128 5) (demo_db 1) = None"
proof -
  let ?v = "replicate 128 (5 :: byte)"
  have "length (EncodeVarint32 1) \<le> 5" "length (EncodeVarint32 128) \<le> 5"
    by (rule length_EncodeVarint32_bounds)+
  then have l: "length (wb_image (0 + 1) [WPut [1] ?v]) \<le> 200"
    by (simp add: wb_image_def EncodeLengthPrefixed_def PutLengthPrefixedview_def PutVarint32_def
        del: PutLengthPrefixedview_append)
  have "wb_image (0 + 1) [WPut [1] ?v] \<noteq> []"
    by (simp add: wb_image_def)
  then have f: "wal_fits 0 [wb_image (0 + 1) [WPut [1] ?v]]"
    using l by (auto simp: wal_start_def)
  have r: "db_ready demo_env 0 (Suc 0) 0 (mk_Memtable list_skiplist)
      (mk_walWriter crc32c_Extend (mk_WritableFile [] (replicate 1 WFull))) (demo_db 1)"
    using demo_db_ready [of 1] by simp
  have "mentry_fits (wop_entry (0 + 1) (WPut [1] ?v))"
    by (simp add: mentry_fits_def kMaxSequenceNumber_def)
  from Put_long_value_overflows [OF _ r this f, of "posix_ok (\<lambda>name. None)"]
  show ?thesis
    by (simp add: crc32c_Extend_append)
qed

end
