(* ===== verification/DbOpen.thy ===== *)
theory DbOpen
  imports DbWrites History
begin

text \<open>
  Opening a database: a new one, from the empty directory to the first write, and what the replay of a log leaves.
\<close>

section \<open>A new database\<close>

definition new_db_edit :: VersionEdit where
  "new_db_edit = SetLastSequence 0 (SetNextFile 2 (SetLogNumber 0 mk_VersionEdit))"




text \<open>What a new database has on disk.\<close>

definition first_current :: bytes where
  "first_current = bytes_of (''MANIFEST-000001'' @ [CHR 0x0A])"



section \<open>Opening it\<close>











section \<open>Replay of a log\<close>

lemma recover_batch_op:
  assumes "mentry_fits (wop_entry s x)" "(case ls_mem st of Some m \<Rightarrow> m | None \<Rightarrow> mk_Memtable (de_list E)) = m"
    and "Memtable_Add_all (de_new E) (de_list E) m [wop_entry s x] = Some m'"
      "ucast (Memtable_ApproximateMemoryUsage m') \<le> de_write_buffer_size E"
  obtains st' where "recover_batch E P (wb_image s [x]) st db = Some (True, st', db)" "ls_s st' = kok" "ls_mem st' = Some m'"
    "ls_save_manifest st' = ls_save_manifest st" "ls_edit st' = ls_edit st" "ls_max_sequence st' = max (ls_max_sequence st) s"
proof -
  let ?b = "WriteBatch_SetContents (ls_batch st) (wb_image s [x])"
  have b: "wb_mate ?b = wb_image s [x]" "wb_mate (?b\<lparr>wb_seq := wb_seq ?b + 1\<rparr>) = wb_image s [x]"
    by (simp_all add: WriteBatch_SetContents_def)
  have "WriteBatch_InsertInto (de_new E) (de_list E) ?b m = Some (kok, ?b\<lparr>wb_seq := wb_seq ?b + 1\<rparr>, m')"
    using InsertInto_image [of "[x]" s ?b "de_new E" "de_list E" m] assms(1,3) b(1) by simp
  moreover have "WriteBatch_Sequence (?b\<lparr>wb_seq := wb_seq ?b + 1\<rparr>) = Some s"
    unfolding WriteBatch_Sequence_def b(2) by (simp add: wb_image_def DecodeFixed64_def)
  ultimately have "recover_batch E P (wb_image s [x]) st db = Some (True, st\<lparr>ls_s := kok, ls_batch := ?b\<lparr>wb_seq := wb_seq ?b + 1\<rparr>,
      ls_mem := Some m', ls_max_sequence := max (ls_max_sequence st) s\<rparr>, db)"
    using assms(2) leD [OF assms(4)] Count_image [OF b(2)] by (simp add: recover_batch_def Let_def)
  then show ?thesis
    by (rule that) simp_all
qed

lemma RecoverLog_loop_ops:
  assumes crc: "crc_lib (de_ext E)"
  shows "reader_at (de_ext E) bo (op_records q xs) r \<Longrightarrow> wal_fits bo (op_records q xs) \<Longrightarrow>
    wal_end bo (op_records q xs) \<noteq> 32768 \<Longrightarrow> \<forall>e \<in> set (op_entries q xs). mentry_fits e \<Longrightarrow> unat q + length xs < 2 ^ 64 \<Longrightarrow>
    (case ls_mem st of Some m \<Rightarrow> m | None \<Rightarrow> mk_Memtable (de_list E)) = m \<Longrightarrow>
    Memtable_Add_all (de_new E) (de_list E) m (op_entries q xs) \<noteq> None \<Longrightarrow>
    \<forall>n m'. Memtable_Add_all (de_new E) (de_list E) m (take n (op_entries q xs)) = Some m' \<longrightarrow>
      ucast (Memtable_ApproximateMemoryUsage m') \<le> de_write_buffer_size E \<Longrightarrow> ls_s st = kok \<Longrightarrow>
    \<exists>st'. RecoverLog_loop E P ptr r st db = Some (st', db) \<and> ls_s st' = kok \<and> ls_save_manifest st' = ls_save_manifest st \<and>
      ls_edit st' = ls_edit st \<and>
      ls_max_sequence st' = (if xs = [] then ls_max_sequence st else max (ls_max_sequence st) (q + of_nat (length xs)))"
proof (induction xs arbitrary: bo q r st m ptr)
  case Nil
  then obtain r' where "ReadRecord (de_ext E) True ptr r = Some (False, [], r')"
    using ReadRecord_end [of "de_ext E" bo r True ptr] by auto
  then show ?case
    using Nil by (subst RecoverLog_loop.simps) simp
next
  case (Cons x xs)
  let ?d = "wb_image (q + 1) [x]" and ?bo = "wal_start bo + 7 + length (wb_image (q + 1) [x])"
  obtain r1 where r1: "ReadRecord (de_ext E) True ptr r = Some (True, ?d, r1)" "reader_at (de_ext E) ?bo (op_records (q + 1) xs) r1"
    using ReadRecord_at [OF crc, of bo ?d "op_records (q + 1) xs" r] Cons.prems(1,2) by (metis op_records.simps(2))
  obtain m1 m2 where m1: "Memtable_Add_all (de_new E) (de_list E) m [wop_entry (q + 1) x] = Some m1"
      "Memtable_Add_all (de_new E) (de_list E) m1 (op_entries (q + 1) xs) = Some m2"
    using Cons.prems(7) Add_all_Cons [of "de_new E" "de_list E" m "wop_entry (q + 1) x" "op_entries (q + 1) xs"] by auto
  have u: "ucast (Memtable_ApproximateMemoryUsage m1) \<le> de_write_buffer_size E"
    using Cons.prems(8) [rule_format, of 1 m1] m1(1) by simp
  obtain st1 where st1: "recover_batch E P ?d st db = Some (True, st1, db)" "ls_s st1 = kok" "ls_mem st1 = Some m1"
      "ls_save_manifest st1 = ls_save_manifest st" "ls_edit st1 = ls_edit st" "ls_max_sequence st1 = max (ls_max_sequence st) (q + 1)"
    by (rule recover_batch_op [OF _ Cons.prems(6) m1(1) u]) (use Cons.prems(4) in simp)
  have us: "\<forall>n m'. Memtable_Add_all (de_new E) (de_list E) m1 (take n (op_entries (q + 1) xs)) = Some m' \<longrightarrow>
      ucast (Memtable_ApproximateMemoryUsage m') \<le> de_write_buffer_size E"
  proof (intro allI impI)
    fix n m2
    assume "Memtable_Add_all (de_new E) (de_list E) m1 (take n (op_entries (q + 1) xs)) = Some m2"
    then have "Memtable_Add_all (de_new E) (de_list E) m (take (Suc n) (op_entries q (x # xs))) = Some m2"
      unfolding op_entries.simps take_Suc_Cons by (intro iffD2 [OF Add_all_Cons]) (use m1(1) in blast)
    then show "ucast (Memtable_ApproximateMemoryUsage m2) \<le> de_write_buffer_size E"
      using Cons.prems(8) by blast
  qed
  have q: "unat (q + 1) = unat q + 1" "unat (q + of_nat (length (x # xs))) = unat q + length (x # xs)"
    using Cons.prems(5) unat_add_length [of q 1] unat_add_length [of q "length (x # xs)"] by simp_all
  obtain st' where st': "RecoverLog_loop E P ?d r1 st1 db = Some (st', db)" "ls_s st' = kok"
      "ls_save_manifest st' = ls_save_manifest st1" "ls_edit st' = ls_edit st1"
      "ls_max_sequence st' = (if xs = [] then ls_max_sequence st1 else max (ls_max_sequence st1) (q + 1 + of_nat (length xs)))"
    using Cons.IH [OF r1(2) _ _ _ _ _ _ us st1(2)] Cons.prems(2-5) q(1) m1(2) st1(3) by auto
  have "q + 1 \<le> q + of_nat (length (x # xs))"
    using q by (simp only: word_le_nat_alt) simp
  then have "ls_max_sequence st' = max (ls_max_sequence st) (q + of_nat (length (x # xs)))"
    using st'(5) st1(6) by (cases xs) (auto simp: max_def add.assoc)
  then show ?case
    using r1(1) st1 st'(1-4) by (subst RecoverLog_loop.simps) (simp add: leD [OF wb_image_parts(4)])
qed

section \<open>Properties\<close>





text \<open>What a system reads that holds the new database and a log.\<close>

definition demo_new_files :: "string \<Rightarrow> ReadFile option" where
  "demo_new_files name =
     (if name = ''d/CURRENT'' then Some \<lparr>rf_rest = first_current, rf_os = []\<rparr>
      else if name = ''d/MANIFEST-000001''
      then Some \<lparr>rf_rest = wal_image crc32c_Extend 0 (edit_records [new_db_edit]), rf_os = []\<rparr>
      else if name = ''d/000003.log''
      then Some \<lparr>rf_rest = wal_image crc32c_Extend 0 (op_records 0 [WPut [1] [5], WDel [1]]), rf_os = []\<rparr>
      else None)"



text \<open>
  C31: The replay of a log is lost: over the log that one or more \<open>Put\<close>s and \<open>Delete\<close>s wrote, whose records each fit their block
  and do not end at the end of one, whose values have fewer than 128 bytes and which fit the write buffer of a memtable,
  \<open>RecoverLogFile\<close> returns ok and the last sequence number of the log, and leaves the database and the edit as they were: the
  memtable it fills is dropped.
\<close>

theorem RecoverLogFile_discards:
  assumes "skiplist_lib (de_list E)" "\<forall>c a b. de_ext E (de_ext E c a) b = de_ext E c (a @ b)"
    and "px_open_read P (LogFileName (db_dbname db) (ucast (ucast number :: u32))) =
      Some \<lparr>rf_rest = wal_image (de_ext E) 0 (op_records q xs), rf_os = []\<rparr>"
    and "xs \<noteq> []" "wal_fits 0 (op_records q xs)" "wal_end 0 (op_records q xs) \<noteq> 32768"
      "\<forall>e \<in> set (op_entries q xs). mentry_fits e" "unat q + length xs < 2 ^ 64"
      "\<forall>e \<in> set (op_entries q xs). mentry_short e"
    and "\<forall>n m. Memtable_Add_all (de_new E) (de_list E) (mk_Memtable (de_list E)) (take n (op_entries q xs)) = Some m
      \<longrightarrow> ucast (Memtable_ApproximateMemoryUsage m) \<le> de_write_buffer_size E"
  shows "RecoverLogFile E P number save_manifest edit max_sequence db =
    Some (kok, save_manifest, edit, max max_sequence (q + of_nat (length xs)), db)"
proof -
  have crc: "crc_lib (de_ext E)"
    using assms(2) by (simp add: crc_lib_def)
  have a: "Memtable_Add_all (de_new E) (de_list E) (mk_Memtable (de_list E)) (op_entries q xs) \<noteq> None"
    using skiplist_lib.Add_all_rep [OF assms(1) skiplist_lib.rep_mk [OF assms(1)] assms(7,9)] by fastforce
  have "op_records q xs \<noteq> []"
    using assms(4) by (cases xs) simp_all
  then have "\<exists>st'. RecoverLog_loop E P [] (mk_Reader \<lparr>rf_rest = wal_image (de_ext E) 0 (op_records q xs), rf_os = []\<rparr> True 0)
      \<lparr>ls_s = kok, ls_batch = mk_WriteBatch (de_seq0 E), ls_mem = None, ls_save_manifest = save_manifest,
        ls_edit = edit, ls_max_sequence = max_sequence\<rparr> db = Some (st', db) \<and> ls_s st' = kok \<and>
      ls_save_manifest st' = save_manifest \<and> ls_edit st' = edit \<and>
      ls_max_sequence st' = max max_sequence (q + of_nat (length xs))"
    using RecoverLog_loop_ops [OF crc reader_at_new _ _ assms(7,8) _ a assms(10), where
        st = "\<lparr>ls_s = kok, ls_batch = mk_WriteBatch (de_seq0 E), ls_mem = None, ls_save_manifest = save_manifest,
          ls_edit = edit, ls_max_sequence = max_sequence\<rparr>"] assms(4-6)
    by (simp add: wal_image_block_end)
  then show ?thesis
    using assms(3) by (auto simp: RecoverLogFile_def NewReadFile_def Let_def)
qed

theorem RecoverLogFile_discards_witness:
  "RecoverLogFile demo_env (posix_ok demo_new_files) 3 False mk_VersionEdit 0 (demo_db 0) =
    Some (kok, False, mk_VersionEdit, max 0 (0 + of_nat (length [WPut [1] [5], WDel [1]])), demo_db 0)"
proof -
  have l: "length (wb_image s [WPut [1] [5]]) = 17" "length (wb_image s [WDel [1]]) = 15" for s
    by (simp_all add: wb_image_def EncodeLengthPrefixed_def PutLengthPrefixedview_def PutVarint32_def EncodeVarint32_small
        del: PutLengthPrefixedview_append)
  have f: "wal_fits 0 (op_records 0 [WPut [1] [5], WDel [1]])" "wal_end 0 (op_records 0 [WPut [1] [5], WDel [1]]) \<noteq> 32768"
    using l by (auto simp: wal_start_def dest: arg_cong [of _ "[]" length])
  have "LogFileName ''d'' 3 = ''d/000003.log''"
    by code_simp
  then show ?thesis
    by (intro RecoverLogFile_discards)
      (use f in \<open>simp_all add: list_lib.skiplist_lib_axioms crc32c_Extend_append posix_ok_def demo_new_files_def demo_db_def
        mk_DBImpl_def ucast_32_le mentry_fits_def mentry_short_def kMaxSequenceNumber_def\<close>)
qed

end
