(* ===== verification/DbThread.thy ===== *)
theory DbThread
  imports DbWrites
begin

text \<open>
  The thread of a database: what is scheduled, what a full memtable does, what happens when the thread has done its only call, and closing.
\<close>

section \<open>What leaves the environment alone\<close>

lemma MaybeCompaction_keeps:
  "db_mem (MaybeCompaction db) = db_mem db" "db_imm (MaybeCompaction db) = db_imm db"
  "db_log (MaybeCompaction db) = db_log db" "db_versions (MaybeCompaction db) = db_versions db"
  "db_bg_error (MaybeCompaction db) = db_bg_error db" "db_logfilenum (MaybeCompaction db) = db_logfilenum db"
  "db_table_cache (MaybeCompaction db) = db_table_cache db" "db_writerque (MaybeCompaction db) = db_writerque db"
  "db_dbname (MaybeCompaction db) = db_dbname db" "db_has_imm (MaybeCompaction db) = db_has_imm db"
  "db_background_compaction db \<Longrightarrow> db_background_compaction (MaybeCompaction db)"
  by (simp_all add: MaybeCompaction_def)

text \<open>The thread has ended, and a memtable waits to be flushed.\<close>

definition blocked :: "'s memtable \<Rightarrow> 's DBImpl \<Rightarrow> bool" where
  "blocked imm db \<longleftrightarrow> env_started (db_env db) \<and> \<not> env_thread (db_env db) \<and> db_imm db = Some imm \<and> State_ok (db_bg_error db)"

lemma blocked_MaybeCompaction: "blocked imm db \<Longrightarrow> blocked imm (MaybeCompaction db)"
  by (simp add: blocked_def MaybeCompaction_def Schedule_def Let_def)

lemma blocked_wait: "blocked imm db \<Longrightarrow> background_thread E P db = None"
  by (simp add: blocked_def background_thread_def)

lemma blocked_MakeRoom:
  assumes "blocked imm db" "MakeRoomForwrite E P force db = Some (s, db')"
  shows "db' = db" "force = False"
  using assms
  by (auto simp: MakeRoomForwrite_def MakeRoom_loop.simps [of E P "\<not> force" force db] blocked_def wait_background_def
      background_thread_def split: if_splits bind_splits)

lemma write_batch_keeps:
  assumes "write_batch E P sync updates db = Some (s, q, updates', db')"
  shows "db_env db' = db_env db" "db_imm db' = db_imm db" "db_bg_error db' = db_bg_error db"
    "db_background_compaction db' = db_background_compaction db"
  using assms by (auto simp: write_batch_def write_log_def Let_def split: bind_splits if_splits)

lemma blocked_Write:
  assumes "blocked imm db" "DBImpl_Write E P sync updates db = Some (s, updates', db')"
  shows "blocked imm db' \<and> db_background_compaction db' = db_background_compaction db"
proof -
  obtain s1 where room: "MakeRoomForwrite E P (updates = None) db = Some (s1, db)"
    using assms by (auto simp: DBImpl_Write_def split: bind_splits dest: blocked_MakeRoom)
  then obtain b where b: "updates = Some b"
    using blocked_MakeRoom(2) [OF assms(1) room] by auto
  show ?thesis
  proof (cases "State_ok s1")
    case True
    then obtain t q b' db1 where w: "write_batch E P sync b db = Some (t, q, b', db1)"
        "db' = db1\<lparr>db_versions := SetLastSequence_vs q (db_versions db1)\<rparr>"
      using assms(2) room b by (auto simp: DBImpl_Write_def split: bind_splits)
    then show ?thesis
      using assms(1) write_batch_keeps [OF w(1)] by (simp add: blocked_def)
  next
    case False
    then show ?thesis
      using assms room b by (auto simp: DBImpl_Write_def blocked_def)
  qed
qed

text \<open>A read changes the cache and may schedule a call.\<close>

lemma DBImpl_Get_state:
  assumes "DBImpl_Get E snap k v db = Some (s, v', db')"
  obtains "db' = db" | c where "db' = MaybeCompaction (db\<lparr>db_table_cache := c\<rparr>)"
  using assms unfolding DBImpl_Get_def Let_def
  by (auto split: bind_splits if_splits)

lemma blocked_Get:
  assumes "blocked imm db" "DBImpl_Get E snap k v db = Some (s, v', db')"
  shows "blocked imm db' \<and> (db_background_compaction db \<longrightarrow> db_background_compaction db')"
  using assms(2)
proof (cases rule: DBImpl_Get_state)
  case (2 c)
  moreover have "blocked imm (db\<lparr>db_table_cache := c\<rparr>)"
    using assms(1) by (simp add: blocked_def)
  ultimately show ?thesis
    by (simp add: blocked_MaybeCompaction MaybeCompaction_keeps)
qed (simp add: assms(1))

section \<open>Histories of a database\<close>

text \<open>
  The calls that return, the background thread between them, and other writers that come and go in the queue.
\<close>

inductive db_step :: "'s dbenv \<Rightarrow> 's DBImpl \<Rightarrow> 's DBImpl \<Rightarrow> bool" for E where
  step_write: "DBImpl_Write E P sync updates db = Some (s, updates', db') \<Longrightarrow> db_step E db db'"
| step_get: "DBImpl_Get E snap k v db = Some (s, v', db') \<Longrightarrow> db_step E db db'"
| step_snapshot: "GetSnapshot db = (sn, db') \<Longrightarrow> db_step E db db'"
| step_release: "db_step E db (ReleaseSnapshot sn db)"
| step_thread: "background_thread E P db = Some db' \<Longrightarrow> db_step E db db'"
| step_wait: "db_step E db (db\<lparr>db_writerque := ws\<rparr>)"

lemma blocked_step:
  assumes "db_step E db db'" "blocked imm db"
  shows "blocked imm db' \<and> (db_background_compaction db \<longrightarrow> db_background_compaction db')"
  using assms
proof cases
  case step_write
  then show ?thesis
    using blocked_Write assms(2) by metis
next
  case step_get
  then show ?thesis
    using blocked_Get assms(2) by metis
next
  case step_thread
  then show ?thesis
    using blocked_wait [OF assms(2)] by simp
qed (auto simp: blocked_def GetSnapshot_def ReleaseSnapshot_def Let_def)

lemma blocked_steps:
  assumes "(db_step E)\<^sup>*\<^sup>* db db'" "blocked imm db"
  shows "blocked imm db' \<and> (db_background_compaction db \<longrightarrow> db_background_compaction db')"
  using assms by (induction rule: rtranclp_induct) (auto dest: blocked_step)

section \<open>Closing\<close>

lemma BackgroundCall_shutting_down:
  "db_shutting_down db \<Longrightarrow> BackgroundCall E P db = Some (db\<lparr>db_background_compaction := False\<rparr>)"
  by (simp add: BackgroundCall_def MaybeCompaction_def)

lemma close_loop_ends:
  assumes "db_shutting_down db"
  shows "close_loop E P db = (if \<not> db_background_compaction db then Some db
     else if env_thread (db_env db)
     then Some (db\<lparr>db_env := (db_env db)\<lparr>env_thread := False\<rparr>, db_background_compaction := False\<rparr>)
     else None)"
  using assms
  by (simp add: close_loop.simps [of E P db] wait_background_def background_thread_def BackgroundCall_shutting_down
      close_loop.simps [of E P "db\<lparr>db_env := env, db_background_compaction := False\<rparr>" for env])

section \<open>Reading beyond the memtables\<close>

text \<open>A table cache that cannot be used: its calls fail and leave it as it is.\<close>

definition cache_fails :: "renv \<Rightarrow> (string \<Rightarrow> RandomAccessFile option) \<Rightarrow> TableCache \<Rightarrow> bool" where
  "cache_fails R open_table c \<longleftrightarrow>
     (\<forall>n sz k s call c'. TableCache_Get R open_table n sz k c = Some (s, call, c') \<longrightarrow> \<not> State_ok s \<and> call = None \<and> c' = c)"

lemma Get_files_fails:
  assumes "cache_fails R open_table c" "Get_files R open_table ikey u level fs g = Some (ret, g')" "gs_cache g = c"
  shows "gs_val g' = gs_val g \<and> gs_cache g' = c \<and> (case ret of None \<Rightarrow> True | Some s \<Rightarrow> \<not> State_ok s)"
proof (cases fs)
  case (Cons f fs')
  have "\<not> State_ok s \<and> call = None \<and> c' = c" if "TableCache_Get R open_table (fm_num f) (fm_file_size f) ikey c = Some (s, call, c')" for s call c'
    using assms(1) that unfolding cache_fails_def by blast
  then show ?thesis
    using assms(2,3) Cons
    by (cases "TableCache_Get R open_table (fm_num f) (fm_file_size f) ikey c") (auto simp: Let_def split: bind_splits if_splits)
qed (use assms in simp)

lemma Get_levels_fails:
  assumes "cache_fails R open_table c" "Get_levels R open_table ikey u files levels g = Some (s, g')" "gs_cache g = c"
  shows "\<not> State_ok s \<and> gs_val g' = gs_val g \<and> gs_cache g' = c"
  using assms(2,3)
  by (induction levels arbitrary: g)
    (auto split: bind_splits option.splits dest!: Get_files_fails [OF assms(1)])

lemma mk_TableCache_fails: "cache_fails R open_table (mk_TableCache dbname n)"
  unfolding cache_fails_def
proof (intro allI impI)
  fix num sz k s call c'
  assume "TableCache_Get R open_table num sz k (mk_TableCache dbname n) = Some (s, call, c')"
  then show "\<not> State_ok s \<and> call = None \<and> c' = mk_TableCache dbname n"
    using TableCache_unusable [OF refl, of dbname n R open_table num sz k] by simp
qed

lemma Memtable_Get_new:
  assumes "skiplist_lib L" "seq \<le> kMaxSequenceNumber"
  shows "Memtable_Get L (mk_Memtable L) (mk_Lookey k seq) v s = Some (False, v, s)"
  using skiplist_lib.Get_rep [OF assms(1) skiplist_lib.rep_mk [OF assms(1)] assms(2), of k v s]
  by (auto simp: newest_def)

text \<open>The sequence number that a read uses.\<close>

definition read_seq :: "Snapshot option \<Rightarrow> 's DBImpl \<Rightarrow> u64" where
  "read_seq snap db = (case snap of Some sn \<Rightarrow> snap_seq sn | None \<Rightarrow> vs_last_sequence (db_versions db))"

section \<open>Properties\<close>

text \<open>
  C16: Closing: the destructor waits for at most one background call, which does nothing any more, and then releases the lock object; it
  waits for ever exactly when a call is scheduled that no thread is going to run.
\<close>

theorem DBImpl_close_ends:
  "case DBImpl_close E P db of
     None \<Rightarrow> db_background_compaction db \<and> \<not> env_thread (db_env db)
   | Some db' \<Rightarrow> (db_background_compaction db, env_thread (db_env db)) \<noteq> (True, False) \<and>
       db_shutting_down db' \<and> \<not> db_background_compaction db' \<and>
       db_lock db' = (db_lock db \<and> \<not> px_fcntl P (LockFileName (db_dbname db))) \<and>
       db_versions db' = db_versions db \<and> db_mem db' = db_mem db \<and> db_imm db' = db_imm db \<and> db_events db' = db_events db"
  by (simp add: DBImpl_close_def close_loop_ends UnlockFile_def)

text \<open>
  C8: Making room: when the memtable is full, none is waiting and the next log can be created, the memtable becomes the immutable one, an
  empty one and the new log take its place, a background call is scheduled, and every read that the memtable answered has the same
  answer as before.
\<close>

theorem MakeRoom_switches:
  fixes E :: "'s dbenv"
  assumes "skiplist_lib (de_list E)" "State_ok (db_bg_error db)" "NumLevelFiles (db_versions db) 0 < kL0_SlowdownWrites"
    and "db_mem db = Some m" "de_write_buffer_size E < ucast (Memtable_ApproximateMemoryUsage m)" "db_imm db = None"
    and "\<not> db_shutting_down db" "\<not> db_background_compaction db"
    and "px_open_write P (LogFileName (db_dbname db) (vs_next_file_number (db_versions db))) = Some f"
  shows "\<exists>db'. MakeRoomForwrite E P False db = Some (kok, db') \<and>
    db_mem db' = Some (mk_Memtable (de_list E)) \<and> db_imm db' = Some m \<and> db_has_imm db' \<and>
    db_log db' = Some (LogFileName (db_dbname db) (vs_next_file_number (db_versions db)), mk_walWriter (de_ext E) f) \<and>
    db_background_compaction db' \<and> db_env db' = Schedule (db_env db) \<and>
    (\<forall>snap k v s v'. read_seq snap db \<le> kMaxSequenceNumber \<longrightarrow>
       Memtable_Get (de_list E) m (mk_Lookey k (read_seq snap db)) v kok = Some (True, v', s) \<longrightarrow>
       DBImpl_Get E snap k v db = Some (s, v', db) \<and> DBImpl_Get E snap k v db' = Some (s, v', db'))"
proof -
  let ?name = "LogFileName (db_dbname db) (vs_next_file_number (db_versions db))"
  let ?db = "db\<lparr>db_versions := snd (NewFileNumber (db_versions db)), db_log := Some (?name, mk_walWriter (de_ext E) f),
      db_logfilenum := vs_next_file_number (db_versions db), db_imm := Some m, db_has_imm := True,
      db_mem := Some (mk_Memtable (de_list E)), db_background_compaction := True, db_env := Schedule (db_env db)\<rparr>"
  have sw: "switch_memtable E P db = (True, ?db)"
    using assms(2,4,7-9)
    by (simp add: switch_memtable_def NewFileNumber_def NewWritableFile_def MaybeCompaction_def)
  have n: "NumLevelFiles (db_versions ?db) 0 = NumLevelFiles (db_versions db) 0"
    by (simp add: NewFileNumber_def NumLevelFiles_def)
  have "ucast (Memtable_ApproximateMemoryUsage (mk_Memtable (de_list E))) \<le> de_write_buffer_size E"
    by (simp add: Memtable_ApproximateMemoryUsage_def mk_Memtable_def mk_Arena_def Arena_MemoryUsage_def)
  then have "MakeRoom_loop E P True False ?db = Some ?db"
    using assms(2,3) n by (simp add: MakeRoom_loop.simps [of E P True False ?db])
  moreover have "NumLevelFiles (db_versions db) 0 < kL0_StopWrites"
    using assms(3) by (simp add: kL0_SlowdownWrites_def kL0_StopWrites_def)
  ultimately have "MakeRoomForwrite E P False db = Some (kok, ?db)"
    using assms(2-6) sw by (simp add: MakeRoomForwrite_def MakeRoom_loop.simps [of E P True False db] not_le)
  moreover have "DBImpl_Get E snap k v db = Some (s, v', db) \<and> DBImpl_Get E snap k v ?db = Some (s, v', ?db)"
    if "read_seq snap db \<le> kMaxSequenceNumber"
      "Memtable_Get (de_list E) m (mk_Lookey k (read_seq snap db)) v kok = Some (True, v', s)" for snap k v s v'
  proof -
    have "read_seq snap ?db = read_seq snap db"
      by (simp add: read_seq_def NewFileNumber_def split: option.splits)
    then show ?thesis
      using that assms(4) Memtable_Get_new [OF assms(1) that(1), of k v kok]
      by (simp add: DBImpl_Get_def read_seq_def [symmetric])
  qed
  ultimately show ?thesis
    by (intro exI [of _ ?db]) simp
qed

text \<open>A memtable with one entry in a database with a write buffer of 100 bytes.\<close>

lemma one_entry:
  obtains m where "Memtable_Add_all bump_new list_skiplist (mk_Memtable list_skiplist) (op_entries 0 [WPut [1] [5]]) = Some m"
    "Memtable_ApproximateMemoryUsage m = 4104" "Memtable_rep list_skiplist m (op_entries 0 [WPut [1] [5]])"
proof -
  have f: "mentry_fits (wop_entry 1 (WPut [1] [5]))" "mentry_short (wop_entry 1 (WPut [1] [5]))"
    by (simp_all add: mentry_fits_def mentry_short_def kMaxSequenceNumber_def)
  obtain m where m: "Memtable_Add_all bump_new list_skiplist (mk_Memtable list_skiplist) (op_entries 0 [WPut [1] [5]]) = Some m"
      "Memtable_rep list_skiplist m (op_entries 0 [WPut [1] [5]])"
    using list_lib.Add_all_rep [OF list_lib.rep_mk, of "op_entries 0 [WPut [1] [5]]" bump_new] f by auto
  moreover have "Memtable_ApproximateMemoryUsage m = 4104"
    using m(1) Memtable_Add_eq [OF f, of bump_new list_skiplist "mk_Memtable list_skiplist"]
    by (auto simp: mk_Memtable_def mk_Arena_def mentry_val_def EncodeVarint32_small Memtable_ApproximateMemoryUsage_def
        Arena_AllocateAligned_def Arena_AllocateFallback_def Arena_AllocateNewBlock_def Arena_MemoryUsage_def BlockSize_def Let_def)
  ultimately show ?thesis
    using that by blast
qed

theorem MakeRoom_switches_witness:
  "\<exists>m db'. MakeRoomForwrite (demo_env\<lparr>de_write_buffer_size := 100\<rparr>) (posix_ok (\<lambda>name. None)) False
      ((demo_db 0)\<lparr>db_mem := Some m, db_versions := SetLastSequence_vs 1 (db_versions (demo_db 0))\<rparr>) = Some (kok, db') \<and>
    db_imm db' = Some m \<and> db_mem db' = Some (mk_Memtable list_skiplist) \<and> db_background_compaction db' \<and>
    DBImpl_Get (demo_env\<lparr>de_write_buffer_size := 100\<rparr>) None [1] [] db' = Some (kok, [5], db')"
proof -
  let ?E = "demo_env\<lparr>de_write_buffer_size := 100\<rparr>"
  obtain m where m: "Memtable_ApproximateMemoryUsage m = 4104" "Memtable_rep list_skiplist m (op_entries 0 ([WPut [1] [5]] @ []))"
    using one_entry by auto
  let ?db = "(demo_db 0)\<lparr>db_mem := Some m, db_versions := SetLastSequence_vs 1 (db_versions (demo_db 0))\<rparr>"
  have get: "Memtable_Get list_skiplist m (mk_Lookey [1] 1) [] kok = Some (True, [5], kok)"
    using Get_last_op [OF list_lib.skiplist_lib_axioms m(2), of "[1]" "WPut [1] [5]" "[]"]
    by (simp add: last_op_def kMaxSequenceNumber_def)
  have "\<exists>db'. MakeRoomForwrite ?E (posix_ok (\<lambda>name. None)) False ?db = Some (kok, db') \<and>
    db_mem db' = Some (mk_Memtable (de_list ?E)) \<and> db_imm db' = Some m \<and> db_has_imm db' \<and>
    db_log db' = Some (LogFileName (db_dbname ?db) (vs_next_file_number (db_versions ?db)),
      mk_walWriter (de_ext ?E) (mk_WritableFile [] [WFull, WFull])) \<and>
    db_background_compaction db' \<and> db_env db' = Schedule (db_env ?db) \<and>
    (\<forall>snap k v s v'. read_seq snap ?db \<le> kMaxSequenceNumber \<longrightarrow>
       Memtable_Get (de_list ?E) m (mk_Lookey k (read_seq snap ?db)) v kok = Some (True, v', s) \<longrightarrow>
       DBImpl_Get ?E snap k v ?db = Some (s, v', ?db) \<and> DBImpl_Get ?E snap k v db' = Some (s, v', db'))"
    by (rule MakeRoom_switches)
      (simp_all add: list_lib.skiplist_lib_axioms m(1) demo_db_def mk_DBImpl_def SetLastSequence_vs_def mk_VersionSet_def
        mk_Version_def NumLevelFiles_def kL0_SlowdownWrites_def posix_ok_def)
  moreover have "read_seq None ?db = 1"
    by (simp add: read_seq_def SetLastSequence_vs_def)
  ultimately show ?thesis
    using get by (intro exI [of _ m]) (auto simp: kMaxSequenceNumber_def)
qed

text \<open>
  C10: The second full memtable blocks a database for ever.  The environment runs the first work that is scheduled in a thread of
  its own and never takes another one from its queue: once this thread has ended, and a memtable waits for the next call, then whatever
  is called, that memtable stays, no background call ever runs, a write that needs room never returns, and neither does the destructor.
\<close>

theorem second_flush_blocks:
  assumes "(db_step E)\<^sup>*\<^sup>* db db'" "env_started (db_env db)" "\<not> env_thread (db_env db)"
    and "db_imm db = Some imm" "State_ok (db_bg_error db)" "db_background_compaction db"
  shows "db_imm db' = Some imm \<and> background_thread E P db' = None \<and> DBImpl_close E P db' = None \<and>
    DBImpl_Write E P sync None db' = None \<and>
    (case db_mem db' of None \<Rightarrow> True
     | Some m \<Rightarrow> ucast (Memtable_ApproximateMemoryUsage m) \<le> de_write_buffer_size E \<or> DBImpl_Write E P sync updates db' = None)"
proof -
  have b: "blocked imm db'" "db_background_compaction db'"
    using blocked_steps [OF assms(1)] assms(2-6) by (auto simp: blocked_def)
  have forced: "MakeRoomForwrite E P True db' = None"
    by (cases "MakeRoomForwrite E P True db'") (auto dest: blocked_MakeRoom(2) [OF b(1)])
  have full: "MakeRoomForwrite E P (updates = None) db' = None"
    if "db_mem db' = Some m" "\<not> ucast (Memtable_ApproximateMemoryUsage m) \<le> de_write_buffer_size E" for m
    using that b(1) forced
    by (cases updates)
      (simp_all add: MakeRoomForwrite_def MakeRoom_loop.simps [of E P True False] blocked_def wait_background_def background_thread_def)
  have none: "DBImpl_Write E P sync u db' = None" if "MakeRoomForwrite E P (u = None) db' = None" for u
    using that by (simp add: DBImpl_Write_def)
  have "case db_mem db' of None \<Rightarrow> True
     | Some m \<Rightarrow> ucast (Memtable_ApproximateMemoryUsage m) \<le> de_write_buffer_size E \<or> DBImpl_Write E P sync updates db' = None"
  proof (cases "db_mem db'")
    case (Some m)
    then show ?thesis
      using none [OF full [OF Some]] by (cases "ucast (Memtable_ApproximateMemoryUsage m) \<le> de_write_buffer_size E") simp_all
  qed simp
  then show ?thesis
    using b blocked_wait [OF b(1)] none [of None] forced by (simp add: DBImpl_close_def close_loop_ends blocked_def)
qed

text \<open>A database whose first flush is done, and whose memtable has become full again.\<close>

definition flushed_env :: PosixEnv where
  "flushed_env = (Schedule (Schedule mk_PosixEnv))\<lparr>env_thread := False\<rparr>"

theorem second_flush_blocks_witness:
  "DBImpl_close demo_env (posix_ok (\<lambda>name. None)) ((demo_db 0)\<lparr>db_imm := Some (mk_Memtable list_skiplist),
      db_background_compaction := True, db_env := flushed_env, db_writerque := []\<rparr>) = None"
  using second_flush_blocks [of demo_env "(demo_db 0)\<lparr>db_imm := Some (mk_Memtable list_skiplist), db_background_compaction := True,
      db_env := flushed_env\<rparr>", OF r_into_rtranclp [of "db_step demo_env", OF step_wait]]
  by (simp add: flushed_env_def Schedule_def mk_PosixEnv_def demo_db_def mk_DBImpl_def)

text \<open>
  C11: A table is never read: a \<open>Get\<close> that no memtable answers does not return ok, whatever the version and the table files
  hold, does not write to the value, and leaves the table cache as it is.
\<close>

theorem Get_beyond_memtables:
  assumes "db_table_cache db = mk_TableCache dbname n" "db_mem db = Some m"
    and "\<forall>m' \<in> {m} \<union> set_option (db_imm db). \<forall>v s. Memtable_Get (de_list E) m' (mk_Lookey k (read_seq snap db)) v s = Some (False, v, s)"
    and "DBImpl_Get E snap k v db = Some (s, v', db')"
  shows "\<not> State_ok s \<and> v' = v \<and> db_table_cache db' = db_table_cache db"
proof -
  obtain g where g: "Version_Get (de_renv E) (de_open_table E) (mk_Lookey k (read_seq snap db)) v
        (vs_nowversion (db_versions db)) (db_table_cache db) = Some (s, g)"
      "v' = gs_val g" "db' = MaybeCompaction (db\<lparr>db_table_cache := gs_cache g\<rparr>)"
    using assms(2-4)
    by (cases "db_imm db") (auto simp: DBImpl_Get_def read_seq_def [symmetric] split: bind_splits)
  from Get_levels_fails [OF mk_TableCache_fails g(1) [unfolded Version_Get_def assms(1)]] show ?thesis
    using g(2,3) assms(1) by (simp add: MaybeCompaction_keeps)
qed

text \<open>A database with a table on level 0 that holds the key.\<close>

theorem Get_beyond_memtables_witness:
  "\<exists>s v' db'. DBImpl_Get demo_env None [2] [7] ((demo_db 0)\<lparr>db_versions := (db_versions (demo_db 0))\<lparr>vs_nowversion := mk_Version\<lparr>v_files :=
      (\<lambda>level. if level = 0 then [demo_file 7 [1] [4]] else [])\<rparr>\<rparr>\<rparr>) = Some (s, v', db') \<and> \<not> State_ok s \<and> v' = [7]"
proof -
  let ?db = "(demo_db 0)\<lparr>db_versions := (db_versions (demo_db 0))\<lparr>vs_nowversion := mk_Version\<lparr>v_files :=
      (\<lambda>level. if level = 0 then [demo_file 7 [1] [4]] else [])\<rparr>\<rparr>\<rparr>"
  have db: "db_table_cache (demo_db 0) = mk_TableCache ''d'' 1000" "db_mem (demo_db 0) = Some (mk_Memtable list_skiplist)"
      "db_imm (demo_db 0) = None" "vs_last_sequence (db_versions (demo_db 0)) = 0"
    by (simp_all add: demo_db_def mk_DBImpl_def demo_env_def mk_VersionSet_def)
  have miss: "Memtable_Get list_skiplist (mk_Memtable list_skiplist) (mk_Lookey k 0) v s = Some (False, v, s)" for k v s
    by (rule Memtable_Get_new [OF list_lib.skiplist_lib_axioms]) simp
  have "FindTable (de_renv demo_env) (de_open_table demo_env) 7 100 (mk_TableCache ''d'' 1000) = Some (kioerror, None, mk_TableCache ''d'' 1000)"
    by (simp add: FindTable_def NewRandomAccessFile_def ShareCache_empty [OF sc_empty_mk] demo_env_def)
  then have "DBImpl_Get demo_env None [2] [7] ?db \<noteq> None"
    by (simp add: DBImpl_Get_def db miss Version_Get_def kNumLevels_def upt_rec mk_Version_def Get_candidates_def demo_file_def
        sort_newest_def TableCache_Get_def Let_def)
  then obtain s v' db' where g: "DBImpl_Get demo_env None [2] [7] ?db = Some (s, v', db')"
    by (cases "DBImpl_Get demo_env None [2] [7] ?db") auto
  have "\<not> State_ok s \<and> v' = [7] \<and> db_table_cache db' = db_table_cache ?db"
    by (rule Get_beyond_memtables [OF _ _ _ g, where m = "mk_Memtable list_skiplist" and n = 1000 and dbname = "''d''"])
      (simp_all add: read_seq_def db miss)
  then show ?thesis
    using g by blast
qed

end
