(* ===== verification/DbBackground.thy ===== *)
theory DbBackground
  imports DbWrites History VersionBuild
begin

text \<open>
  The background work of a database: making room for a write, compactions, and closing.
\<close>

section \<open>Files of a version\<close>

lemma files_apart_distinct:
  assumes "files_apart files" "\<forall>f \<in> set files. ikey_abs (fm_smallest f) \<le> ikey_abs (fm_largest f)"
  shows "distinct files"
proof -
  have "successively (\<lambda>f g. ikey_abs (fm_smallest f) < ikey_abs (fm_smallest g)) files"
    using assms unfolding files_apart_def by (induction files rule: induct_list012) auto
  then have "sorted_wrt (\<lambda>f g. ikey_abs (fm_smallest f) < ikey_abs (fm_smallest g)) files"
    by (subst (asm) successively_conv_sorted_wrt) (auto intro!: transpI)
  then show ?thesis
    by (induction files) auto
qed

text \<open>The edit of a trivial move: the file is deleted from the level and added to the same level again.\<close>

definition trivial_edit :: "nat \<Rightarrow> FileMate \<Rightarrow> VersionEdit \<Rightarrow> VersionEdit" where
  "trivial_edit l f edit = AddFile (int l) (fm_num f) (fm_file_size f) (fm_smallest f) (fm_largest f)
     (VersionEdit_DeleteFile (int l) (fm_num f) edit)"

lemma trivial_edit_files:
  assumes "ve_deleted_files edit = []" "ve_new_files edit = []"
  shows "ve_deleted_files (trivial_edit l f edit) = [(int l, fm_num f)]" "ve_new_files (trivial_edit l f edit) = [(int l, f)]"
    "ve_compact_pointers (trivial_edit l f edit) = ve_compact_pointers edit"
  using assms by (cases f; simp add: trivial_edit_def AddFile_def VersionEdit_DeleteFile_def)+

lemma trivial_edit_at:
  assumes "ve_deleted_files edit = []" "ve_new_files edit = []"
  shows "new_at (trivial_edit l f edit) l' = (if l' = l then [f] else [])" "deleted_at (trivial_edit l f edit) l' = {}"
  using trivial_edit_files [OF assms] by (auto simp: new_at_def deleted_at_def)

section \<open>Properties\<close>

text \<open>
  A trivial move aborts: it deletes the file from its level and adds it to the same level, which cancels the deletion, so that the next
  version would have the file twice, and \<open>SaveTo\<close> finds two overlapping files, on every level but 0.
\<close>

theorem trivial_move_aborts:
  assumes "base_wf (vs_nowversion vs)" "0 < l" "l < kNumLevels"
    and "\<forall>f \<in> set (v_files (vs_nowversion vs) l). ikey_abs (fm_smallest f) \<le> ikey_abs (fm_largest f)"
    and "f \<in> set (v_files (vs_nowversion vs) l)" "ve_deleted_files edit = []" "ve_new_files edit = []"
      "\<forall>p \<in> set (ve_compact_pointers edit). level_index (fst p) \<noteq> None"
  shows "LogAndApply rnd ext P (AddFile (int l) (fm_num f) (fm_file_size f) (fm_smallest f) (fm_largest f)
    (VersionEdit_DeleteFile (int l) (fm_num f) edit)) vs = None"
proof -
  let ?e = "trivial_edit l f edit" and ?files = "v_files (vs_nowversion vs) l"
  note e = trivial_edit_files [OF assms(6,7), of l f]
  have "both_wf f"
    using assms(1,5) by (auto simp: base_wf_def)
  then have "edit_files_wf ?e"
    using assms(3,8) e trivial_edit_at [OF assms(6,7), of l f]
    by (auto simp: edit_files_wf_def edit_levels_ok_def level_index_Some)
  then have wf': "edit_files_wf (complete_edit vs ?e)"
    by (simp add: complete_edit_at)
  show ?thesis
  proof (rule Builder_builds [OF assms(1) wf', of "vs_compact_pointer vs"])
    fix cp' b files
    assume b: "Builder_Apply (complete_edit vs ?e) (vs_compact_pointer vs, mk_Builder (vs_nowversion vs)) = Some (cp', b)"
        "\<And>l. level_after (vs_nowversion vs) (complete_edit vs ?e) l (files l)"
        "Builder_SaveTo b = (if \<forall>l \<in> {1..<kNumLevels}. files_apart (files l)
           then Some (mk_Version\<lparr>v_files := (\<lambda>l. if l < kNumLevels then files l else [])\<rparr>) else None)"
    have m: "mset (files l) = mset ?files + {#f#}"
      using b(2) [of l] trivial_edit_at [OF assms(6,7), of l f] by (simp add: level_after_def complete_edit_at)
    then have "set (files l) \<subseteq> set ?files"
      using assms(5) m by (metis add_mset_add_single insert_absorb order_refl set_mset_add_mset_insert set_mset_mset)
    moreover have "\<not> distinct (files l)"
    proof
      assume "distinct (files l)"
      then have "count (mset (files l)) f \<le> 1"
        by (simp add: distinct_count_atmost_1)
      moreover have "0 < count (mset ?files) f"
        using assms(5) by simp
      ultimately show False
        by (simp add: m)
    qed
    ultimately have "\<not> files_apart (files l)"
      using files_apart_distinct assms(4) by blast
    then have "Builder_SaveTo b = None"
      using b(3) assms(2,3) by auto
    then show ?thesis
      using b(1) by (simp add: LogAndApply_def complete_edit_def [symmetric] trivial_edit_def Let_def)
  qed
qed

theorem trivial_move_aborts_witness:
  "LogAndApply id crc32c_Extend (posix_ok (\<lambda>name. None)) (AddFile (int 2) (fm_num (key_file 3 1 2)) (fm_file_size (key_file 3 1 2))
      (fm_smallest (key_file 3 1 2)) (fm_largest (key_file 3 1 2)) (VersionEdit_DeleteFile (int 2) (fm_num (key_file 3 1 2)) mk_VersionEdit))
    ((mk_VersionSet ''d'' 100)\<lparr>vs_nowversion := two_files\<rparr>) = None"
proof (rule trivial_move_aborts)
  have wf: "both_wf (key_file n s l)" for n s l
    by (simp add: both_wf_def key_file_def ikey_wf_def)
  have "fkey (key_file 3 1 2) \<le> fkey (key_file 4 5 6)"
    by code_simp
  then show "base_wf (vs_nowversion ((mk_VersionSet ''d'' 100)\<lparr>vs_nowversion := two_files\<rparr>))"
    by (simp add: base_wf_def two_files_def mk_Version_def wf)
  have "ikey_abs (fm_smallest (key_file 3 1 2)) \<le> ikey_abs (fm_largest (key_file 3 1 2))"
    "ikey_abs (fm_smallest (key_file 4 5 6)) \<le> ikey_abs (fm_largest (key_file 4 5 6))"
    by code_simp+
  then show "\<forall>f \<in> set (v_files (vs_nowversion ((mk_VersionSet ''d'' 100)\<lparr>vs_nowversion := two_files\<rparr>)) 2).
      ikey_abs (fm_smallest f) \<le> ikey_abs (fm_largest f)"
    by (simp add: two_files_def mk_Version_def)
qed (simp_all add: kNumLevels_def two_files_def mk_Version_def mk_VersionEdit_def)

end
