(* ===== verification/DbFlush.thy ===== *)
theory DbFlush
  imports DbThread History
begin

text \<open>
  The flush of a memtable by the background call: the table file, the version edit and the version that follow.
\<close>

section \<open>Building the table\<close>

text \<open>The file that describes a flushed memtable: it has this number, and its range covers the keys of the memtable.\<close>

definition flush_file :: "'s skiplist_ops \<Rightarrow> 's memtable \<Rightarrow> u64 \<Rightarrow> FileMate \<Rightarrow> bool" where
  "flush_file L m n f \<longleftrightarrow> fm_num f = n \<and> both_wf f \<and>
     (\<forall>p \<in> set (sl_nodes L (mt_table m)). ikey_abs (fm_smallest f) \<le> nd_abs p \<and> nd_abs p \<le> ikey_abs (fm_largest f))"

lemma BuildTable_file:
  assumes "BuildTable E P m meta db = Some (s, f, db')" "State_ok s" "nodes_ok (sl_nodes (de_list E) (mt_table m))"
  shows "flush_file (de_list E) m (fm_num meta) f \<and> (\<exists>evs. db' = db\<lparr>db_events := evs\<rparr>)"
proof -
  obtain fi where fi: "px_open_write P (TableFileName (db_dbname db) (fm_num meta)) = Some fi"
    using assms(1,2) by (auto simp: BuildTable_def Let_def NewWritableFile_def split: option.splits)
  note b = assms(1) [unfolded BuildTable_def Let_def NewWritableFile_def fi option.case prod.case]
  obtain s0 meta1 b1 where fl: "Flushlevel0fromskip (de_tenv E) (de_list E) m (meta\<lparr>fm_file_size := 0\<rparr>) (mk_Tablebuilder fi) =
      Some (s0, meta1, b1)"
    using b by (auto split: bind_splits)
  note b = b [unfolded fl bind.bind_lunit prod.case]
  have "f = (if State_ok s0 then meta1\<lparr>fm_file_size := tb_offset b1\<rparr> else meta1)" and evs: "\<exists>evs. db' = db\<lparr>db_events := evs\<rparr>"
    using b by (auto simp only: bind_eq_Some_conv split_paired_Ex prod.case option.inject prod.inject)
  then have f: "fm_num f = fm_num meta1" "fm_smallest f = fm_smallest meta1" "fm_largest f = fm_largest meta1"
    by simp_all
  have wf: "ikey_wf k" if "k \<in> nd_key ` set (sl_nodes (de_list E) (mt_table m))" for k
    using assms(3) that by (auto simp: nodes_ok_def)
  show ?thesis
    using Flushlevel0_range [OF assms(3) fl] f evs wf by (auto simp: flush_file_def both_wf_def)
qed

lemma WriteLevel0Table_file:
  assumes "WriteLevel0Table E P m edit db = Some (s, edit', db')" "State_ok s" "nodes_ok (sl_nodes (de_list E) (mt_table m))"
  obtains f pending evs where "flush_file (de_list E) m (vs_next_file_number (db_versions db)) f"
    "edit' = (if fm_file_size f = 0 then edit else AddFile 0 (fm_num f) (fm_file_size f) (fm_smallest f) (fm_largest f) edit)"
    "db' = db\<lparr>db_versions := snd (NewFileNumber (db_versions db)), db_events := evs, db_pending_outputs := pending\<rparr>"
proof -
  let ?meta = "\<lparr>fm_num = vs_next_file_number (db_versions db), fm_file_size = 0, fm_smallest = [], fm_largest = []\<rparr>"
  let ?db = "db\<lparr>db_versions := snd (NewFileNumber (db_versions db)),
      db_pending_outputs := insert (vs_next_file_number (db_versions db)) (db_pending_outputs db)\<rparr>"
  obtain f db1 where b: "BuildTable E P m ?meta ?db = Some (s, f, db1)"
      "edit' = (if fm_file_size f > 0 then AddFile 0 (fm_num f) (fm_file_size f) (fm_smallest f) (fm_largest f) edit else edit)"
      "db' = db1\<lparr>db_pending_outputs := db_pending_outputs db1 - {vs_next_file_number (db_versions db)}\<rparr>"
    using assms(1,2) by (auto simp: WriteLevel0Table_def NewFileNumber_def split: bind_splits)
  obtain evs where "flush_file (de_list E) m (vs_next_file_number (db_versions db)) f" "db1 = ?db\<lparr>db_events := evs\<rparr>"
    using BuildTable_file [OF b(1) assms(2,3)] by auto
  then show ?thesis
    using that b(2,3) by (auto simp: word_neq_0_conv)
qed

section \<open>The flush\<close>

definition same_but_files :: "'s DBImpl \<Rightarrow> 's DBImpl \<Rightarrow> bool" where
  "same_but_files db db' \<longleftrightarrow> db_mem db' = db_mem db \<and> db_imm db' = db_imm db \<and> db_has_imm db' = db_has_imm db \<and>
     db_versions db' = db_versions db \<and> db_bg_error db' = db_bg_error db \<and> db_env db' = db_env db \<and>
     db_logfilenum db' = db_logfilenum db \<and> db_shutting_down db' = db_shutting_down db \<and>
     db_background_compaction db' = db_background_compaction db"

lemma delete_files_keeps: "delete_files E keep names db = Some db' \<Longrightarrow> same_but_files db db'"
proof (induction E keep names db rule: delete_files.induct)
  case (2 E keep name names db)
  obtain ok num type where p: "ParsefileName name 0 kTempFile = Some (ok, num, type)"
    using "2.prems" by (cases "ParsefileName name 0 kTempFile") auto
  from "2.IH" [OF p refl refl refl] "2.prems" show ?case
    by (auto simp: p same_but_files_def split: if_splits)
qed (simp add: same_but_files_def)

lemma DeleteObsoleteFiles_keeps: "DeleteObsoleteFiles E P db = Some db' \<Longrightarrow> same_but_files db db'"
  by (auto simp: DeleteObsoleteFiles_def same_but_files_def delete_files_keeps [unfolded same_but_files_def] split: if_splits)

lemma CompactMemTable_ok:
  assumes "CompactMemTable E P db = Some db'" "db_imm db = Some m" "State_ok (db_bg_error db)" "State_ok (db_bg_error db')"
    and "nodes_ok (sl_nodes (de_list E) (mt_table m))"
  obtains f edit vs where "flush_file (de_list E) m (vs_next_file_number (db_versions db)) f"
    "edit = (if fm_file_size f = 0 then mk_VersionEdit
       else AddFile 0 (fm_num f) (fm_file_size f) (fm_smallest f) (fm_largest f) mk_VersionEdit)"
    "LogAndApply (de_rnd E) (de_ext E) P (SetLogNumber (db_logfilenum db) edit) (snd (NewFileNumber (db_versions db))) = Some (kok, vs)"
    "same_but_files (db\<lparr>db_versions := vs, db_imm := None, db_has_imm := False\<rparr>) db'"
proof -
  note c = assms(1) [unfolded CompactMemTable_def assms(2) option.case bind.bind_lunit]
  obtain s edit db1 where w: "WriteLevel0Table E P m mk_VersionEdit db = Some (s, edit, db1)"
    using c by (auto split: bind_splits)
  note c = c [unfolded w bind.bind_lunit prod.case]
  let ?s1 = "if State_ok s \<and> db_shutting_down db1 then kioerror else s"
  obtain s2 vs where l: "(if State_ok ?s1
       then LogAndApply (de_rnd E) (de_ext E) P (SetLogNumber (db_logfilenum db1) edit) (db_versions db1)
       else Some (?s1, db_versions db1)) = Some (s2, vs)"
    using c unfolding Let_def by (auto simp only: bind_eq_Some_conv)
  note c = c [unfolded Let_def l bind.bind_lunit prod.case]
  have ok: "State_ok s2"
    using c assms(3,4) w by (cases "State_ok s2") (auto split: if_splits)
  then have l': "State_ok s" "\<not> db_shutting_down db1"
      "LogAndApply (de_rnd E) (de_ext E) P (SetLogNumber (db_logfilenum db1) edit) (db_versions db1) = Some (s2, vs)"
    using l by (auto split: if_splits)
  have d: "same_but_files (db1\<lparr>db_versions := vs, db_imm := None, db_has_imm := False\<rparr>) db'"
    using c ok DeleteObsoleteFiles_keeps by auto
  show ?thesis
  proof (rule WriteLevel0Table_file [OF w l'(1) assms(5)])
    fix f pending evs
    assume "flush_file (de_list E) m (vs_next_file_number (db_versions db)) f"
      "edit = (if fm_file_size f = 0 then mk_VersionEdit
         else AddFile 0 (fm_num f) (fm_file_size f) (fm_smallest f) (fm_largest f) mk_VersionEdit)"
      "db1 = db\<lparr>db_versions := snd (NewFileNumber (db_versions db)), db_events := evs, db_pending_outputs := pending\<rparr>"
    moreover have "s2 = kok"
      using ok by (cases s2) simp_all
    ultimately show ?thesis
      using that l'(3) d by (auto simp: same_but_files_def)
  qed
qed

lemma flush_edit:
  fixes f :: FileMate
  assumes "both_wf f" "edit = (if fm_file_size f = 0 then mk_VersionEdit
       else AddFile 0 (fm_num f) (fm_file_size f) (fm_smallest f) (fm_largest f) mk_VersionEdit)"
  shows "edit_files_wf (SetLogNumber n edit)" "deleted_at (SetLogNumber n edit) l = {}"
    "new_at (SetLogNumber n edit) l = (if l = 0 \<and> fm_file_size f \<noteq> 0 then [f] else [])"
  using assms
  by (cases f; auto simp: edit_files_wf_def edit_levels_ok_def deleted_at_def new_at_def AddFile_def mk_VersionEdit_def SetLogNumber_def
      level_index_def kNumLevels_def)+

section \<open>An example\<close>

definition flush_entries :: "mentry list" where
  "flush_entries = [\<lparr>me_seq = 5, me_type = kTypeValue, me_key = [1], me_value = []\<rparr>,
     \<lparr>me_seq = 4, me_type = kTypeValue, me_key = [2], me_value = []\<rparr>]"

definition flush_mem :: "node list memtable" where
  "flush_mem = \<lparr>mt_arena = mk_Arena, mt_table = map mentry_node flush_entries\<rparr>"

lemma flush_mem_rep: "Memtable_rep list_skiplist flush_mem flush_entries"
  by (simp add: Memtable_rep_def flush_mem_def flush_entries_def list_skiplist_def nodes_ok_def mentry_fits_def
      kMaxSequenceNumber_def less_eq_skey_def)

lemma Flush_nothing: "wf_offset f = 0 \<Longrightarrow> WritableFile_Flush f = Some (kok, f)"
  by (simp add: WritableFile_Flush_def Flush_loop.simps)

lemma sync_and_close:
  assumes "wf_inv f" "wf_os f \<in> {[WFull], [WFull, WFull]}"
  obtains f1 f2 where "file_Sync (posix_ok files) name f = Some (kok, f1)" "file_Close (posix_ok files) name f1 = Some (kok, f2)"
proof -
  obtain os where "wf_os f = replicate 0 WIntr @ WFull # os"
    using assms(2) by auto
  from Flush_complete_abs [OF assms(1) this]
  obtain f1 where f1: "WritableFile_Flush f = Some (kok, f1)" "wf_offset f1 = 0"
    by blast
  show ?thesis
    using that [of f1 f1] f1 Flush_nothing [OF f1(2)]
    by (simp add: file_Sync_def file_Close_def WritableFile_Sync_def WritableFile_Close_def SyncDirmainifset_def posix_ok_def)
qed

lemma flush_table:
  obtains sz evs where "BuildTable demo_env (posix_ok files) flush_mem
      \<lparr>fm_num = n, fm_file_size = 0, fm_smallest = [], fm_largest = []\<rparr> db = Some (kok,
      \<lparr>fm_num = n, fm_file_size = sz, fm_smallest = mk_InternalKey [1] 5 kTypeValue,
       fm_largest = mk_InternalKey [2] 4 kTypeValue\<rparr>, db\<lparr>db_events := evs\<rparr>)" "sz \<noteq> 0"
proof -
  let ?ns = "map mentry_node flush_entries" and ?P = "posix_ok files" and ?name = "TableFileName (db_dbname db) n"
  let ?meta = "\<lparr>fm_num = n, fm_file_size = 0, fm_smallest = [], fm_largest = []\<rparr>"
  obtain b b' where b: "add_entries sample_env sample_entries (mk_Tablebuilder (mk_WritableFile [] [WFull, WFull])) = Some b"
      "Tablebuilder_Finish sample_env b = Some (kok, b')" "tb_offset_ok b'" "wf_os (tb_file b') \<in> {[WFull], [WFull, WFull]}"
      "length (wf_abs (tb_file b')) \<in> {0<..<200000}"
    by (rule sample_finish [of "[WFull]"])
  have sz: "tb_offset b' \<noteq> 0"
    using b(3,5) by (auto simp: tb_offset_ok_def word_unat_eq_iff unat_of_nat)
  obtain f1 f2 where f: "file_Sync ?P ?name (tb_file b') = Some (kok, f1)" "file_Close ?P ?name f1 = Some (kok, f2)"
    by (rule sync_and_close [OF _ b(4)]) (use b(3) in \<open>simp add: tb_offset_ok_def\<close>)
  have "add_nodes sample_env ?ns (mk_Tablebuilder (mk_WritableFile [] [WFull, WFull])) = Some b"
    unfolding add_nodes_entries using b(1) by (simp add: sample_entries_def flush_entries_def mentry_node_def)
  then have "Flushlevel0fromskip sample_env list_skiplist flush_mem ?meta (mk_Tablebuilder (mk_WritableFile [] [WFull, WFull])) =
      Some (kok, ?meta\<lparr>fm_smallest := mk_InternalKey [1] 5 kTypeValue, fm_largest := mk_InternalKey [2] 4 kTypeValue\<rparr>, b')"
    using b(2) by (simp add: Flushlevel0fromskip_def flush_mem_def list_skiplist_def Skiplist_SeekToFirst_def Skiplist_SeekToLast_def
        Let_def) (simp add: flush_entries_def mentry_node_def)
  then show ?thesis
    using that [OF _ sz] f by (simp add: BuildTable_def NewWritableFile_def posix_ok_def demo_env_def Let_def)
qed

definition flush_versions :: VersionSet where
  "flush_versions = (mk_VersionSet ''d'' 100)\<lparr>
     vs_descriptor := Some (''d/MANIFEST-000002'', mk_walWriter crc32c_Extend (mk_WritableFile [] [WFull]))\<rparr>"

abbreviation flushed_edit :: "u64 \<Rightarrow> u64 \<Rightarrow> VersionEdit" where
  "flushed_edit n sz \<equiv> AddFile 0 n sz (mk_InternalKey [1] 5 kTypeValue) (mk_InternalKey [2] 4 kTypeValue) mk_VersionEdit"

lemma flushed_edit_applies:
  "case Builder_Apply (SetLogNumber 0 (flushed_edit n sz)) (\<lambda>l. [], mk_Builder mk_Version) of
     None \<Rightarrow> False | Some (cp, b) \<Rightarrow> Builder_SaveTo b \<noteq> None"
  by code_simp

lemma flushed_edit_fits:
  "wal_fits 0 (edit_records [SetLastSequence q (SetNextFile k (SetLogNumber m (flushed_edit n sz)))])"
proof -
  have v: "length (EncodeVarint32 x) \<le> 5" "length (EncodeVarint64 y) \<le> 10" "EncodeVarint32 x \<noteq> []" "EncodeVarint64 y \<noteq> []" for x y
    using length_EncodeVarint32_bounds [of x] length_EncodeVarint64_bounds [of y] by auto
  let ?r = "VersionEdit_EncodeTo (SetLastSequence q (SetNextFile k (SetLogNumber m (flushed_edit n sz)))) []"
  have "length (put_number tag True num []) \<le> 15" "put_number tag True num [] \<noteq> []" for tag num
    using v(1) [of tag] v(2) [of num] v(4) by (simp_all add: put_number_def PutVarint32_def PutVarint64_def)
  note num = this
  have len: "length (mk_InternalKey [u] s t) = 9" for u s t
    by (simp add: mk_InternalKey_def PutFixed64_def)
  have "length (put_new_file (l, f) []) \<le> 58" if "length (fm_smallest f) = 9" "length (fm_largest f) = 9" for l f
    using v(1) [of kNewFile] v(1) [of "word_of_int l"] v(2) [of "fm_num f"] v(2) [of "fm_file_size f"] v(1) [of 9] that
    by (simp add: put_new_file_def PutVarint32_def PutVarint64_def PutLengthPrefixedview_def Let_def del: PutLengthPrefixedview_append)
  from this [of "\<lparr>fm_num = n, fm_file_size = sz, fm_smallest = mk_InternalKey [1] 5 kTypeValue, fm_largest = mk_InternalKey [2] 4 kTypeValue\<rparr>" 0]
  have "length ?r \<le> 15 + (15 + (15 + 58))" "?r \<noteq> []"
    using num(1) [of kLogNumber m] num(1) [of kNextFileNumber k] num(1) [of kLastSequence q] num(2) [of kLogNumber m]
    by (simp_all add: VersionEdit_EncodeTo_concat AddFile_def mk_VersionEdit_def SetLogNumber_def SetNextFile_def SetLastSequence_def len)
  then show ?thesis
    by (simp add: edit_records_def wal_start_def)
qed

lemma flush_install:
  obtains vs where "LogAndApply id crc32c_Extend (posix_ok files) (SetLogNumber 0 (flushed_edit n sz)) (snd (NewFileNumber flush_versions)) = Some (kok, vs)"
proof -
  let ?e = "SetLogNumber 0 (flushed_edit n sz)" and ?f = "mk_WritableFile [] [WFull]" and ?vs = "snd (NewFileNumber flush_versions)"
  have now: "vs_nowversion ?vs = mk_Version" "vs_compact_pointer ?vs = (\<lambda>l. [])"
      "vs_descriptor ?vs = Some (''d/MANIFEST-000002'', mk_walWriter crc32c_Extend ?f)"
    by (simp_all add: NewFileNumber_def flush_versions_def mk_VersionSet_def)
  obtain cp b v where b: "Builder_Apply (complete_edit ?vs ?e) (vs_compact_pointer ?vs, mk_Builder (vs_nowversion ?vs)) = Some (cp, b)"
      "Builder_SaveTo b = Some v"
    using flushed_edit_applies [of n sz] unfolding Builder_Apply_complete now by (auto split: option.splits)
  have w: "wal_inv crc32c_Extend 0 (mk_walWriter crc32c_Extend ?f)" "wf_offset (wal_file (mk_walWriter crc32c_Extend ?f)) = 0"
      "wf_os (wal_file (mk_walWriter crc32c_Extend ?f)) = [WFull]"
    using wal_inv_mk [OF _ wf_inv_mk, of "[]" "[WFull]" crc32c_Extend] by (simp_all add: mk_walWriter_def mk_WritableFile_def)
  have "complete_edit ?vs ?e = SetLastSequence (vs_last_sequence ?vs) (SetNextFile (vs_next_file_number ?vs) ?e)"
    by (simp add: complete_edit_def SetLogNumber_def)
  then have "wal_fits 0 (edit_records [complete_edit ?vs ?e])"
    by (simp only: flushed_edit_fits)
  from LogAndApply_next [OF crc32c.crc_lib_axioms posix_ok_works b now(3) w this, where rnd = id]
  show ?thesis
    using that by auto
qed

section \<open>Properties\<close>

text \<open>
  C9: What a flush does: when the background call flushes the memtable that waits and no error is recorded, the memtable is gone, no further call is scheduled,
  and the new version holds the files of the old one and, on level 0, a file with the next number whose range covers every key of the memtable
  (unless the file is empty); the memtable in use stays.
\<close>

theorem background_flushes:
  assumes "Memtable_rep (de_list E) m es" "db_imm db = Some m" "State_ok (db_bg_error db)" "\<not> db_shutting_down db"
    and "base_wf (vs_nowversion (db_versions db))" "BackgroundCall E P db = Some db'" "State_ok (db_bg_error db')"
  shows "db_imm db' = None \<and> db_mem db' = db_mem db \<and> \<not> db_background_compaction db' \<and>
    (\<exists>f. fm_num f = vs_next_file_number (db_versions db) \<and>
       (\<forall>e \<in> set es. ikey_abs (fm_smallest f) \<le> ikey_abs (mk_InternalKey (me_key e) (me_seq e) (me_type e)) \<and>
          ikey_abs (mk_InternalKey (me_key e) (me_seq e) (me_type e)) \<le> ikey_abs (fm_largest f)) \<and>
       (\<forall>l < kNumLevels. mset (v_files (vs_nowversion (db_versions db')) l) = mset (v_files (vs_nowversion (db_versions db)) l) +
          (if l = 0 \<and> fm_file_size f \<noteq> 0 then {#f#} else {#})))"
proof -
  obtain db1 where c: "CompactMemTable E P db = Some db1" "db' = MaybeCompaction (db1\<lparr>db_background_compaction := False\<rparr>)"
    using assms(2-4,6) by (auto simp: BackgroundCall_def BackgroundCompaction_def split: bind_splits)
  have nodes: "nodes_ok (sl_nodes (de_list E) (mt_table m))"
    and entries: "mentry_node ` set es = set (sl_nodes (de_list E) (mt_table m))"
    using assms(1) unfolding Memtable_rep_def by (metis set_image_mset set_mset_mset)+
  have err: "State_ok (db_bg_error db1)"
    using assms(7) c(2) by (simp add: MaybeCompaction_keeps)
  show ?thesis
  proof (rule CompactMemTable_ok [OF c(1) assms(2,3) err nodes])
    fix f edit vs
    assume f: "flush_file (de_list E) m (vs_next_file_number (db_versions db)) f"
      and e: "edit = (if fm_file_size f = 0 then mk_VersionEdit
         else AddFile 0 (fm_num f) (fm_file_size f) (fm_smallest f) (fm_largest f) mk_VersionEdit)"
      and l: "LogAndApply (de_rnd E) (de_ext E) P (SetLogNumber (db_logfilenum db) edit) (snd (NewFileNumber (db_versions db))) = Some (kok, vs)"
      and s: "same_but_files (db\<lparr>db_versions := vs, db_imm := None, db_has_imm := False\<rparr>) db1"
    have now: "vs_nowversion (snd (NewFileNumber (db_versions db))) = vs_nowversion (db_versions db)"
      by (simp add: NewFileNumber_def)
    have "both_wf f"
      using f by (simp add: flush_file_def)
    note edit = flush_edit [OF this e, of "db_logfilenum db"]
    have "\<not> NeedsCompaction vs"
      using LogAndApply_keeps [OF l] by (simp add: NeedsCompaction_def)
    then have db': "db' = db1\<lparr>db_background_compaction := False\<rparr>"
      using s c(2) by (simp add: MaybeCompaction_def same_but_files_def)
    have "\<forall>l < kNumLevels. mset (v_files (vs_nowversion vs) l) = mset (v_files (vs_nowversion (db_versions db)) l) +
        (if l = 0 \<and> fm_file_size f \<noteq> 0 then {#f#} else {#})"
      using LogAndApply_levels [OF _ edit(1) l] assms(5) by (simp add: now level_after_def edit(2,3))
    moreover have "\<forall>e \<in> set es. ikey_abs (fm_smallest f) \<le> nd_abs (mentry_node e) \<and> nd_abs (mentry_node e) \<le> ikey_abs (fm_largest f)"
      using f entries unfolding flush_file_def by blast
    moreover have "fm_num f = vs_next_file_number (db_versions db)"
      using f by (simp add: flush_file_def)
    moreover have "nd_abs (mentry_node e) = ikey_abs (mk_InternalKey (me_key e) (me_seq e) (me_type e))" for e
      by (simp only: mentry_node_def node.simps)
    moreover have "db_imm db' = None" "db_mem db' = db_mem db" "\<not> db_background_compaction db'" "db_versions db' = vs"
      using s db' by (simp_all add: same_but_files_def)
    ultimately show ?thesis
      by (metis (no_types, lifting))
  qed
qed

theorem background_flushes_witness:
  "\<exists>db db' f. db_imm db = Some flush_mem \<and> BackgroundCall demo_env (posix_ok (\<lambda>name. None)) db = Some db' \<and> db_imm db' = None \<and>
    fm_num f = 2 \<and> ikey_abs (fm_smallest f) \<le> ikey_abs (mk_InternalKey [1] 5 kTypeValue) \<and>
    ikey_abs (mk_InternalKey [2] 4 kTypeValue) \<le> ikey_abs (fm_largest f) \<and>
    mset (v_files (vs_nowversion (db_versions db')) 0) = (if fm_file_size f \<noteq> 0 then {#f#} else {#})"
proof -
  let ?P = "posix_ok (\<lambda>name. None)" and ?db = "(demo_db 0)\<lparr>db_imm := Some flush_mem, db_has_imm := True, db_versions := flush_versions\<rparr>"
  have db: "db_imm ?db = Some flush_mem" "State_ok (db_bg_error ?db)" "\<not> db_shutting_down ?db" "db_logfilenum ?db = 0"
      "vs_nowversion (db_versions ?db) = mk_Version" "vs_next_file_number (db_versions ?db) = 2"
    by (simp_all add: demo_db_def mk_DBImpl_def flush_versions_def mk_VersionSet_def)
  have base: "base_wf (vs_nowversion (db_versions ?db))"
    unfolding db(5) by (simp add: base_wf_def mk_Version_def)
  let ?meta = "\<lparr>fm_num = 2, fm_file_size = 0, fm_smallest = [], fm_largest = []\<rparr>"
  let ?db1 = "?db\<lparr>db_versions := snd (NewFileNumber flush_versions), db_pending_outputs := insert 2 (db_pending_outputs ?db)\<rparr>"
  obtain sz evs where t: "BuildTable demo_env ?P flush_mem ?meta ?db1 = Some (kok,
      \<lparr>fm_num = 2, fm_file_size = sz, fm_smallest = mk_InternalKey [1] 5 kTypeValue,
       fm_largest = mk_InternalKey [2] 4 kTypeValue\<rparr>, ?db1\<lparr>db_events := evs\<rparr>)" "sz \<noteq> 0"
    by (rule flush_table)
  obtain vs where l: "LogAndApply id crc32c_Extend ?P (SetLogNumber 0 (flushed_edit 2 sz)) (snd (NewFileNumber flush_versions)) = Some (kok, vs)"
    by (rule flush_install)
  have num: "NewFileNumber flush_versions = (2, snd (NewFileNumber flush_versions))"
    by (simp add: NewFileNumber_def flush_versions_def mk_VersionSet_def)
  have "WriteLevel0Table demo_env ?P flush_mem mk_VersionEdit ?db = Some (kok, flushed_edit 2 sz,
      ?db1\<lparr>db_events := evs, db_pending_outputs := insert 2 (db_pending_outputs ?db) - {2}\<rparr>)"
    using t by (simp add: WriteLevel0Table_def word_neq_0_conv) (subst num, simp)
  moreover have "DeleteObsoleteFiles demo_env ?P d = Some d" for d
    by (simp add: DeleteObsoleteFiles_def GetChildren_def posix_ok_def)
  moreover have "de_rnd demo_env = id"
    by (simp add: demo_env_def)
  ultimately obtain db' where r: "BackgroundCall demo_env ?P ?db = Some db'" "State_ok (db_bg_error db')"
    using db l by (simp add: BackgroundCall_def BackgroundCompaction_def CompactMemTable_def MaybeCompaction_keeps)
  have "Memtable_rep (de_list demo_env) flush_mem flush_entries"
    using flush_mem_rep by simp
  from background_flushes [OF this db(1-3) base r] show ?thesis
    using db(1) r(1) unfolding db(5,6) by (fastforce simp: flush_entries_def mk_Version_def kNumLevels_def)
qed

end
