(* ===== verification/DbCompact.thy ===== *)
theory DbCompact
  imports DbWrites History
begin

text \<open>
  The work of a compaction: \<open>CompactionState\<close> of src/src/db/db.h, \<open>DoCompactionWork\<close> and its helpers of src/src/db/db.cpp, and
  \<open>Table::NewIterator\<close> of src/src/db/sstable.cpp.  Nothing calls \<open>DoCompactionWork\<close>.
\<close>

section \<open>State\<close>

text \<open>The size of an output is not initialised.\<close>

record Output =
  ou_number :: u64
  ou_file_size :: "u64 option"
  ou_smallest :: InternalKey
  ou_largest :: InternalKey

text \<open>\<open>FinishCompactionOutputFile\<close> deletes the builder and leaves the pointer as it is.\<close>

datatype builder_ptr = NoBuilder | LiveBuilder Tablebuilder | DeletedBuilder

definition live_builder :: "builder_ptr \<Rightarrow> Tablebuilder option" where
  "live_builder p = (case p of LiveBuilder b \<Rightarrow> Some b | _ \<Rightarrow> None)"

text \<open>\<open>cs_outfile\<close> is the name of the open file; the file itself is the one of the builder.\<close>

record CompactionState =
  cs_comp :: Compaction
  cs_small_snap :: u64
  cs_outputs :: "Output list"
  cs_outfile :: "string option"
  cs_builder :: builder_ptr
  cs_total_bytes :: u64

definition mk_CompactionState :: "Compaction \<Rightarrow> CompactionState" where
  "mk_CompactionState c =
     \<lparr>cs_comp = c, cs_small_snap = 0, cs_outputs = [], cs_outfile = None, cs_builder = NoBuilder, cs_total_bytes = 0\<rparr>"

definition current_output :: "CompactionState \<Rightarrow> Output option" where
  "current_output cs = (if cs_outputs cs = [] then None else Some (last (cs_outputs cs)))"

definition set_output :: "Output \<Rightarrow> CompactionState \<Rightarrow> CompactionState" where
  "set_output out cs = cs\<lparr>cs_outputs := butlast (cs_outputs cs) @ [out]\<rparr>"

section \<open>Output files\<close>

definition Table_NewIterator :: "Table \<Rightarrow> (Iter, Iter) TweLevelIterator option" where
  "Table_NewIterator t = do {
     index_iter \<leftarrow> Block_NewIterator (tp_index_block t);
     Some (mk_TweLevelIterator block_ops index_iter) }"

definition OpenCompactionOutputFile ::
  "'s dbenv \<Rightarrow> posix \<Rightarrow> CompactionState \<Rightarrow> 's DBImpl \<Rightarrow> State \<times> CompactionState \<times> 's DBImpl" where
  "OpenCompactionOutputFile E P cs db =
     (let (file_number, vs) = NewFileNumber (db_versions db);
          db1 = db\<lparr>db_versions := vs, db_pending_outputs := insert file_number (db_pending_outputs db)\<rparr>;
          cs1 = cs\<lparr>cs_outputs := cs_outputs cs @
             [\<lparr>ou_number = file_number, ou_file_size = None, ou_smallest = [], ou_largest = []\<rparr>]\<rparr>;
          fname = TableFileName (db_dbname db1) file_number
      in case NewWritableFile P fname of
           (s, None) \<Rightarrow> (s, cs1\<lparr>cs_outfile := None\<rparr>, db1)
         | (s, Some file) \<Rightarrow> (s, cs1\<lparr>cs_outfile := Some fname, cs_builder := LiveBuilder (mk_Tablebuilder file)\<rparr>, db1))"

text \<open>The state of the input iterator is an argument.  A finished table is opened again when it has entries.\<close>

definition FinishCompactionOutputFile ::
  "'s dbenv \<Rightarrow> posix \<Rightarrow> State \<Rightarrow> CompactionState \<Rightarrow> 's DBImpl \<Rightarrow> (State \<times> CompactionState \<times> 's DBImpl) option" where
  "FinishCompactionOutputFile E P input_state cs db = do {
     out \<leftarrow> current_output cs;
     b \<leftarrow> live_builder (cs_builder cs);
     (s, b1) \<leftarrow> (if State_ok input_state then Tablebuilder_Finish (de_tenv E) b else Some (input_state, b));
     let current_bytes = tb_offset b1;
     let cs1 = set_output (out\<lparr>ou_file_size := Some current_bytes\<rparr>) cs;
     (s2, f) \<leftarrow> (if State_ok s then do {
         name \<leftarrow> cs_outfile cs;
         (s1, f1) \<leftarrow> file_Sync P name (tb_file b1);
         if State_ok s1 then file_Close P name f1 else Some (s1, f1) }
       else Some (s, tb_file b1));
     let cs2 = cs1\<lparr>cs_total_bytes := cs_total_bytes cs1 + current_bytes, cs_builder := DeletedBuilder, cs_outfile := None\<rparr>;
     let db1 = db\<lparr>db_events := db_events db @ (case cs_outfile cs of None \<Rightarrow> [] | Some name \<Rightarrow> [FileClosed name f])\<rparr>;
     if State_ok s2 \<and> tb_num_entries b \<noteq> 0 then do {
       (table, cache) \<leftarrow> TableCache_NewIterator (de_renv E) (de_open_table E) (ou_number out) current_bytes (db_table_cache db1);
       iter \<leftarrow> Table_NewIterator table;
       s3 \<leftarrow> TweLevelIterator_state block_ops block_ops iter;
       Some (s3, cs2, db1\<lparr>db_table_cache := cache\<rparr>) }
     else Some (s2, cs2, db1) }"

text \<open>The loop of \<open>InstallCompactionResults\<close> counts to the level of the compaction.\<close>

fun add_outputs :: "int \<Rightarrow> Output list \<Rightarrow> nat \<Rightarrow> VersionEdit \<Rightarrow> VersionEdit option" where
  "add_outputs level outs 0 edit = Some edit"
| "add_outputs level [] (Suc n) edit = None"
| "add_outputs level (out # outs) (Suc n) edit = do {
     sz \<leftarrow> ou_file_size out;
     add_outputs level outs n (AddFile level (ou_number out) sz (ou_smallest out) (ou_largest out) edit) }"

definition InstallCompactionResults ::
  "'s dbenv \<Rightarrow> posix \<Rightarrow> CompactionState \<Rightarrow> 's DBImpl \<Rightarrow> (State \<times> CompactionState \<times> 's DBImpl) option" where
  "InstallCompactionResults E P cs db = do {
     let c = cs_comp cs;
     edit \<leftarrow> add_outputs (co_level c + 1) (cs_outputs cs) (nat (co_level c)) (AddInputDeletions c (co_edit c));
     (s, vs) \<leftarrow> LogAndApply (de_rnd E) (de_ext E) P edit (db_versions db);
     Some (s, cs\<lparr>cs_comp := c\<lparr>co_edit := edit\<rparr>\<rparr>, db\<lparr>db_versions := vs\<rparr>) }"

section \<open>The input\<close>

text \<open>
  What \<open>MakeInputIterator\<close> returns, as one iterator; \<open>Inl None\<close> is null.  No child of the merging iterator is null, so that it has a
  state.
\<close>

type_synonym 'd input_iterator =
  "(LevelFileNumIterator, 'd) TweLevelIterator option + (LevelFileNumIterator, 'd) TweLevelIterator Merageitor"

definition on_input ::
  "((LevelFileNumIterator, 'd) TweLevelIterator \<Rightarrow> (LevelFileNumIterator, 'd) TweLevelIterator option) \<Rightarrow>
   ((LevelFileNumIterator, 'd) TweLevelIterator Merageitor \<Rightarrow> (LevelFileNumIterator, 'd) TweLevelIterator Merageitor option) \<Rightarrow>
   'd input_iterator \<Rightarrow> 'd input_iterator option" where
  "on_input f g it =
     (case it of
        Inl None \<Rightarrow> None
      | Inl (Some t) \<Rightarrow> map_option (\<lambda>t'. Inl (Some t')) (f t)
      | Inr m \<Rightarrow> map_option Inr (g m))"

definition input_ops :: "'d iter_ops \<Rightarrow> (bytes \<Rightarrow> 'd option option) \<Rightarrow> 'd input_iterator iter_ops" where
  "input_ops DO block_function =
     (let Op = tl_ops DO block_function
      in \<lparr>io_Valid = (\<lambda>it. case it of Inl None \<Rightarrow> False | Inl (Some t) \<Rightarrow> io_Valid Op t | Inr m \<Rightarrow> Merageitor_Valid m),
          io_key = (\<lambda>it. case it of Inl None \<Rightarrow> [] | Inl (Some t) \<Rightarrow> io_key Op t | Inr m \<Rightarrow> Merageitor_key m),
          io_value = (\<lambda>it. case it of Inl None \<Rightarrow> None | Inl (Some t) \<Rightarrow> io_value Op t | Inr m \<Rightarrow> Merageitor_value Op m),
          io_SeekToFirst = on_input (io_SeekToFirst Op) (Merageitor_SeekToFirst Op),
          io_SeekToLast = on_input (io_SeekToLast Op) (Merageitor_SeekToLast Op),
          io_Seek = (\<lambda>k. on_input (io_Seek Op k) (Merageitor_Seek Op k)),
          io_Next = on_input (io_Next Op) (Merageitor_Next Op),
          io_Prev = on_input (io_Prev Op) (Merageitor_Prev Op),
          io_state = (\<lambda>it. case it of Inl None \<Rightarrow> kok | Inl (Some t) \<Rightarrow> io_state Op t
            | Inr m \<Rightarrow> (case Merageitor_state Op m of None \<Rightarrow> kok | Some s \<Rightarrow> s))\<rparr>)"

section \<open>The loop\<close>

text \<open>
  The variables of the loop.  \<open>has_cur_userkey\<close> and \<open>pkey\<close> are not initialised: \<open>None\<close>.
\<close>

record ('s, 'i) work =
  wk_iter :: 'i
  wk_s :: State
  wk_pkey :: "ParsedInternalKey option"
  wk_usrkey :: bytes
  wk_has_userkey :: "bool option"
  wk_last_seqkey :: u64
  wk_cs :: CompactionState
  wk_db :: "'s DBImpl"

text \<open>Whether an entry is dropped: it is hidden by a newer one that every snapshot sees, or it is a deletion with nothing below.\<close>

definition drop_key :: "bytes \<Rightarrow> ('s, 'i) work \<Rightarrow> (bool \<times> ('s, 'i) work) option" where
  "drop_key key w = do {
     let (ok, p) = ParseInternalKey key \<lparr>pk_user_key = [], pk_sequence = 0, pk_type = None\<rparr>;
     (has, usrkey, last_seqkey) \<leftarrow>
       (if \<not> ok then Some (False, [], kMaxSequenceNumber)
        else do {
          has \<leftarrow> wk_has_userkey w;
          same \<leftarrow> (if \<not> has then Some False
                  else do { r \<leftarrow> cmp_view (pk_user_key p) (wk_usrkey w); Some (r = 0) });
          Some (if same then (has, wk_usrkey w, wk_last_seqkey w) else (True, pk_user_key p, kMaxSequenceNumber)) });
     pkey \<leftarrow> (if length key < 8 then wk_pkey w else Some p);
     let small_snap = cs_small_snap (wk_cs w);
     (drop, comp) \<leftarrow>
       (if last_seqkey \<le> small_snap then Some (True, cs_comp (wk_cs w))
        else if pk_type pkey = Some kTypeDeletion \<and> pk_sequence pkey \<le> small_snap
        then IsBaseLevelForKey (pk_user_key pkey) (cs_comp (wk_cs w))
        else Some (False, cs_comp (wk_cs w)));
     Some (drop, w\<lparr>wk_pkey := Some pkey, wk_usrkey := usrkey, wk_has_userkey := Some has,
       wk_last_seqkey := pk_sequence pkey, wk_cs := (wk_cs w)\<lparr>cs_comp := comp\<rparr>\<rparr>) }"

text \<open>An entry that is kept; the result is false for \<open>break\<close>.\<close>

definition finish_output :: "'s dbenv \<Rightarrow> posix \<Rightarrow> 'i iter_ops \<Rightarrow> ('s, 'i) work \<Rightarrow> (bool \<times> ('s, 'i) work) option" where
  "finish_output E P Op w = do {
     (s, cs, db) \<leftarrow> FinishCompactionOutputFile E P (io_state Op (wk_iter w)) (wk_cs w) (wk_db w);
     Some (State_ok s, w\<lparr>wk_s := s, wk_cs := cs, wk_db := db\<rparr>) }"

definition add_key :: "'s dbenv \<Rightarrow> posix \<Rightarrow> 'i iter_ops \<Rightarrow> bytes \<Rightarrow> ('s, 'i) work \<Rightarrow> (bool \<times> ('s, 'i) work) option" where
  "add_key E P Op key w = do {
     let (s, cs, db) = (if cs_builder (wk_cs w) = NoBuilder then OpenCompactionOutputFile E P (wk_cs w) (wk_db w)
                        else (wk_s w, wk_cs w, wk_db w));
     let w1 = w\<lparr>wk_s := s, wk_cs := cs, wk_db := db\<rparr>;
     if \<not> State_ok s then Some (False, w1)
     else do {
       b \<leftarrow> live_builder (cs_builder cs);
       out \<leftarrow> current_output cs;
       let out1 = (if tb_num_entries b = 0 then out\<lparr>ou_smallest := snd (InternalKey_DecodeFrom key)\<rparr> else out);
       let out2 = out1\<lparr>ou_largest := snd (InternalKey_DecodeFrom key)\<rparr>;
       value \<leftarrow> io_value Op (wk_iter w1);
       b1 \<leftarrow> Tablebuilder_Add (de_tenv E) key value b;
       let w2 = w1\<lparr>wk_cs := (set_output out2 cs)\<lparr>cs_builder := LiveBuilder b1\<rparr>\<rparr>;
       if tb_offset b1 \<ge> co_max_output_file_size (cs_comp cs) then finish_output E P Op w2
       else Some (True, w2) } }"

text \<open>One round up to \<open>iter->Next()\<close>.  While a memtable waits, the loop locks a mutex that it has locked already.\<close>

definition work_step :: "'s dbenv \<Rightarrow> posix \<Rightarrow> 'i iter_ops \<Rightarrow> ('s, 'i) work \<Rightarrow> (bool \<times> ('s, 'i) work) option" where
  "work_step E P Op w =
     (if db_has_imm (wk_db w) then None
      else do {
        let key = io_key Op (wk_iter w);
        (stop, comp) \<leftarrow> ShouldStopBefore (vs_max_file_size (db_versions (wk_db w))) key (cs_comp (wk_cs w));
        let w1 = w\<lparr>wk_cs := (wk_cs w)\<lparr>cs_comp := comp\<rparr>\<rparr>;
        (go_on, w2) \<leftarrow> (if stop \<and> cs_builder (wk_cs w1) \<noteq> NoBuilder then finish_output E P Op w1 else Some (True, w1));
        if \<not> go_on then Some (False, w2)
        else do {
          (drop, w3) \<leftarrow> drop_key key w2;
          if drop then Some (True, w3) else add_key E P Op key w3 } })"

partial_function (option) work_loop ::
  "'s dbenv \<Rightarrow> posix \<Rightarrow> 'i iter_ops \<Rightarrow> ('s, 'i) work \<Rightarrow> ('s, 'i) work option" where
  "work_loop E P Op w =
     (if io_Valid Op (wk_iter w) \<and> \<not> db_shutting_down (wk_db w)
      then Option.bind (work_step E P Op w) (\<lambda>(go_on, w').
        if go_on then Option.bind (io_Next Op (wk_iter w')) (\<lambda>it. work_loop E P Op (w'\<lparr>wk_iter := it\<rparr>))
        else Some w')
      else Some w)"

text \<open>
  \<open>DoCompactionWork\<close> up to its closing brace: the status and the state it has reached there.  It ends without returning the status.
  With snapshots it dereferences the end of their list.
\<close>

definition DoCompactionWork ::
  "'s dbenv \<Rightarrow> posix \<Rightarrow> 'd iter_ops \<Rightarrow> (bytes \<Rightarrow> 'd option option) \<Rightarrow> CompactionState \<Rightarrow> 's DBImpl
    \<Rightarrow> (State \<times> CompactionState \<times> 's DBImpl) option" where
  "DoCompactionWork E P DO block_function cs db =
     (if db_snapshots db \<noteq> [] then None
      else do {
        let Op = input_ops DO block_function;
        iter \<leftarrow> MakeInputIterator DO block_function (cs_comp cs);
        iter1 \<leftarrow> io_SeekToFirst Op iter;
        w \<leftarrow> work_loop E P Op
          \<lparr>wk_iter = iter1, wk_s = kok, wk_pkey = None, wk_usrkey = [], wk_has_userkey = None,
           wk_last_seqkey = kMaxSequenceNumber, wk_cs = cs\<lparr>cs_small_snap := vs_last_sequence (db_versions db)\<rparr>, wk_db = db\<rparr>;
        let w1 = (if State_ok (wk_s w) \<and> db_shutting_down (wk_db w) then w\<lparr>wk_s := kioerror\<rparr> else w);
        (_, w2) \<leftarrow> (if State_ok (wk_s w1) \<and> cs_builder (wk_cs w1) \<noteq> NoBuilder then finish_output E P Op w1 else Some (True, w1));
        let s = (if State_ok (wk_s w2) then io_state Op (wk_iter w2) else wk_s w2);
        if State_ok s then InstallCompactionResults E P (wk_cs w2) (wk_db w2)
        else Some (s, wk_cs w2, wk_db w2) })"

section \<open>A compaction with inputs\<close>

text \<open>The iterator over no files.\<close>

lemma SeekToFirst_no_files:
  assumes "t = mk_TweLevelIterator level_ops (Some (mk_LevelFileNumIterator []))"
  shows "\<exists>t'. io_SeekToFirst (tl_ops DO block_function) t = Some t' \<and>
    \<not> io_Valid (tl_ops DO block_function) t' \<and> io_state (tl_ops DO block_function) t' = kok"
  unfolding assms
  by (simp add: tl_ops_def TweLevelIterator_SeekToFirst_def mk_TweLevelIterator_def mk_IteratorWrapper_def iw_Set_def
      iw_SeekToFirst_def iw_Update_def on_index_def on_data_def InitDataBlock_def tl_clear_def SkipEmptyDataBlocksForward_def
      SkipEmptyDataBlocks.simps TweLevelIterator_Valid_def TweLevelIterator_state_def iw_state_def level_ops_def
      mk_LevelFileNumIterator_def LevelFileNumIterator_SeekToFirst_def LevelFileNumIterator_Valid_def)

lemma DoCompactionWork_inputs:
  assumes "co_inputs0 c \<noteq> []" "0 \<le> co_level c" "\<not> db_shutting_down db"
  shows "DoCompactionWork E P DO block_function (mk_CompactionState c) db =
    (if db_snapshots db \<noteq> [] \<or> co_inputs1 c \<noteq> [] then None
     else InstallCompactionResults E P
       ((mk_CompactionState c)\<lparr>cs_small_snap := vs_last_sequence (db_versions db)\<rparr>) db)"
proof -
  obtain t' where t': "io_SeekToFirst (tl_ops DO block_function)
        (mk_TweLevelIterator level_ops (Some (mk_LevelFileNumIterator []))) = Some t'"
      "\<not> io_Valid (tl_ops DO block_function) t'" "io_state (tl_ops DO block_function) t' = kok"
    using SeekToFirst_no_files [OF refl] by blast
  then show ?thesis
    using assms
    by (simp add: DoCompactionWork_def MakeInputIterator_def input_iterators_def NewMergingIterator_def input_ops_def on_input_def
        mk_CompactionState_def Let_def work_loop.simps)
qed

lemma AddInputDeletions_0:
  assumes "co_inputs1 c = []" "co_level c = 0"
  shows "ve_new_files (AddInputDeletions c edit) = ve_new_files edit"
    "ve_compact_pointers (AddInputDeletions c edit) = ve_compact_pointers edit"
    "set (ve_deleted_files (AddInputDeletions c edit)) =
       set (ve_deleted_files edit) \<union> (\<lambda>f. (0, fm_num f)) ` set (co_inputs0 c)"
proof -
  have ins: "set (set_insert x xs) = insert x (set xs)" for x :: "int \<times> u64" and xs
    by (induction xs) auto
  have "ve_new_files (fold (\<lambda>f. VersionEdit_DeleteFile 0 (fm_num f)) fs edit) = ve_new_files edit \<and>
      ve_compact_pointers (fold (\<lambda>f. VersionEdit_DeleteFile 0 (fm_num f)) fs edit) = ve_compact_pointers edit \<and>
      set (ve_deleted_files (fold (\<lambda>f. VersionEdit_DeleteFile 0 (fm_num f)) fs edit)) =
        set (ve_deleted_files edit) \<union> (\<lambda>f. (0, fm_num f)) ` set fs" for fs :: "FileMate list"
    by (induction fs arbitrary: edit) (auto simp: VersionEdit_DeleteFile_def ins)
  then show "ve_new_files (AddInputDeletions c edit) = ve_new_files edit"
    "ve_compact_pointers (AddInputDeletions c edit) = ve_compact_pointers edit"
    "set (ve_deleted_files (AddInputDeletions c edit)) =
       set (ve_deleted_files edit) \<union> (\<lambda>f. (0, fm_num f)) ` set (co_inputs0 c)"
    using assms by (simp_all add: AddInputDeletions_def)
qed

section \<open>Properties\<close>

text \<open>
  C30: A compaction would lose its data: if \<open>DoCompactionWork\<close>, on a compaction with inputs, reaches its end, then the inputs were on level 0
  only; it has written no table, and when the new version is accepted, its level 0 is the old one without the inputs, and all other levels are
  as they were.
\<close>

theorem DoCompactionWork_loses_inputs:
  assumes "co_inputs0 c \<noteq> []" "0 \<le> co_level c" "\<not> db_shutting_down db" "base_wf (vs_nowversion (db_versions db))"
    and "ve_deleted_files (co_edit c) = []" "ve_new_files (co_edit c) = []"
      "\<forall>p \<in> set (ve_compact_pointers (co_edit c)). level_index (fst p) \<noteq> None"
    and "DoCompactionWork E P DO block_function (mk_CompactionState c) db = Some (s, cs, db')"
  shows "co_level c = 0 \<and> co_inputs1 c = [] \<and> cs_outputs cs = [] \<and> db_events db' = db_events db \<and>
    (State_ok s \<longrightarrow>
       set (v_files (vs_nowversion (db_versions db')) 0) =
         {f \<in> set (v_files (vs_nowversion (db_versions db)) 0). fm_num f \<notin> fm_num ` set (co_inputs0 c)} \<and>
       (\<forall>l \<in> {1..<kNumLevels}. set (v_files (vs_nowversion (db_versions db')) l) = set (v_files (vs_nowversion (db_versions db)) l)))"
proof -
  let ?e = "AddInputDeletions c (co_edit c)" and ?v = "vs_nowversion (db_versions db)"
  have i: "db_snapshots db = []" "co_inputs1 c = []"
    using assms(8) DoCompactionWork_inputs [OF assms(1-3), of E P DO block_function] by (auto split: if_splits)
  have install: "InstallCompactionResults E P ((mk_CompactionState c)\<lparr>cs_small_snap := vs_last_sequence (db_versions db)\<rparr>) db =
      Some (s, cs, db')"
    using assms(8) DoCompactionWork_inputs [OF assms(1-3), of E P DO block_function] i by simp
  have level: "co_level c = 0"
    using install assms(2) by (cases "nat (co_level c)") (auto simp: InstallCompactionResults_def mk_CompactionState_def)
  then obtain vs where l: "LogAndApply (de_rnd E) (de_ext E) P ?e (db_versions db) = Some (s, vs)"
      "db' = db\<lparr>db_versions := vs\<rparr>" "cs_outputs cs = []"
    using install by (auto simp: InstallCompactionResults_def mk_CompactionState_def split: bind_splits)
  note del = AddInputDeletions_0 [OF i(2) level, of "co_edit c"]
  have new: "new_at ?e l = []" for l
    by (simp add: new_at_def del assms(6))
  have gone: "deleted_at ?e l = (if l = 0 then fm_num ` set (co_inputs0 c) else {})" for l
    using del(3) assms(5) by (auto simp: deleted_at_def new)
  have "edit_files_wf ?e"
    using assms(5-7) del by (auto simp: edit_files_wf_def edit_levels_ok_def new level_index_def kNumLevels_def)
  from LogAndApply_levels [OF assms(4) this l(1)]
  have "set (v_files (vs_nowversion vs) l) = {f \<in> set (v_files ?v l). fm_num f \<notin> deleted_at ?e l}"
    if "State_ok s" "l < kNumLevels" for l
    using that by (auto simp: level_after_def new dest!: arg_cong [of "mset _" _ set_mset])
  then show ?thesis
    using level i l(2,3) by (auto simp: gone kNumLevels_def)
qed

text \<open>Two overlapping files on level 0, one of which is compacted.\<close>

definition level0_files :: Version where
  "level0_files = mk_Version\<lparr>v_files := (\<lambda>l. if l = 0 then [key_file 3 1 4, key_file 4 2 6] else [])\<rparr>"

definition demo_versions :: VersionSet where
  "demo_versions = (mk_VersionSet ''d'' 100)\<lparr>vs_nowversion := level0_files,
     vs_descriptor := Some (''d/MANIFEST-000002'', mk_walWriter crc32c_Extend (mk_WritableFile [] [WFull]))\<rparr>"

definition demo_compaction :: Compaction where
  "demo_compaction = (mk_Compaction 100 0)\<lparr>co_inputs0 := [key_file 3 1 4], co_input_version := Some level0_files\<rparr>"

lemma demo_versions_simps:
  "vs_nowversion demo_versions = level0_files" "base_wf level0_files"
proof -
  have wf: "both_wf (key_file n s l)" for n s l
    by (simp add: both_wf_def key_file_def ikey_wf_def)
  have "fkey (key_file 3 1 4) \<le> fkey (key_file 4 2 6)"
    by code_simp
  then show "base_wf level0_files"
    by (simp add: base_wf_def level0_files_def mk_Version_def wf)
qed (simp add: demo_versions_def)

lemma demo_compaction_edit:
  "case Builder_Apply (AddInputDeletions demo_compaction mk_VersionEdit) (\<lambda>l. [], mk_Builder level0_files) of
     None \<Rightarrow> False
   | Some (cp, b) \<Rightarrow> Builder_SaveTo b \<noteq> None"
  "length (VersionEdit_EncodeTo (SetLastSequence 0 (SetNextFile 2 (SetLogNumber 0 (AddInputDeletions demo_compaction mk_VersionEdit)))) []) = 9"
  by code_simp+

lemma demo_install:
  obtains vs where "LogAndApply id crc32c_Extend (posix_ok (\<lambda>name. None)) (AddInputDeletions demo_compaction mk_VersionEdit) demo_versions =
    Some (kok, vs)"
proof -
  let ?e = "AddInputDeletions demo_compaction mk_VersionEdit" and ?f = "mk_WritableFile [] [WFull]"
  obtain cp b v where b: "Builder_Apply (complete_edit demo_versions ?e) (vs_compact_pointer demo_versions, mk_Builder (vs_nowversion demo_versions)) =
      Some (cp, b)" "Builder_SaveTo b = Some v"
    using demo_compaction_edit(1)
    by (auto simp: Builder_Apply_complete demo_versions_def mk_VersionSet_def split: option.splits)
  have e: "complete_edit demo_versions ?e = SetLastSequence 0 (SetNextFile 2 (SetLogNumber 0 ?e))"
    by (simp add: complete_edit_def demo_versions_def mk_VersionSet_def demo_compaction_def AddInputDeletions_def mk_Compaction_def
        mk_VersionEdit_def VersionEdit_DeleteFile_def)
  have w: "wal_inv crc32c_Extend 0 (mk_walWriter crc32c_Extend ?f)" "wf_offset (wal_file (mk_walWriter crc32c_Extend ?f)) = 0"
      "wf_os (wal_file (mk_walWriter crc32c_Extend ?f)) = [WFull]"
    using wal_inv_mk [OF _ wf_inv_mk, of "[]" "[WFull]" crc32c_Extend] by (simp_all add: mk_walWriter_def mk_WritableFile_def)
  have "wal_fits 0 (edit_records [complete_edit demo_versions ?e])"
    using demo_compaction_edit(2) unfolding e by (auto simp: edit_records_def wal_start_def)
  from LogAndApply_next [OF crc32c.crc_lib_axioms posix_ok_works b _ w this, where rnd = id and name = "''d/MANIFEST-000002''"]
  show ?thesis
    using that by (auto simp: demo_versions_def)
qed

theorem DoCompactionWork_loses_inputs_witness:
  "\<exists>cs db'. DoCompactionWork demo_env (posix_ok (\<lambda>name. None)) block_ops (\<lambda>h. Some None) (mk_CompactionState demo_compaction)
      ((demo_db 0)\<lparr>db_versions := demo_versions\<rparr>) = Some (kok, cs, db') \<and> cs_outputs cs = [] \<and>
    set (v_files (vs_nowversion (db_versions db')) 0) = {key_file 4 2 6}"
proof -
  let ?db = "(demo_db 0)\<lparr>db_versions := demo_versions\<rparr>" and ?P = "posix_ok (\<lambda>name. None)"
  have c: "co_inputs0 demo_compaction \<noteq> []" "0 \<le> co_level demo_compaction" "\<not> db_shutting_down ?db" "db_snapshots ?db = []"
      "co_inputs1 demo_compaction = []" "co_level demo_compaction = 0" "co_edit demo_compaction = mk_VersionEdit"
    by (simp_all add: demo_compaction_def mk_Compaction_def demo_db_def mk_DBImpl_def)
  obtain vs where "LogAndApply id crc32c_Extend ?P (AddInputDeletions demo_compaction mk_VersionEdit) demo_versions = Some (kok, vs)"
    by (rule demo_install)
  then have "DoCompactionWork demo_env ?P block_ops (\<lambda>h. Some None) (mk_CompactionState demo_compaction) ?db \<noteq> None \<and>
      fst (the (DoCompactionWork demo_env ?P block_ops (\<lambda>h. Some None) (mk_CompactionState demo_compaction) ?db)) = kok"
    using DoCompactionWork_inputs [OF c(1-3), of demo_env ?P block_ops "\<lambda>h. Some None"] c(4-7)
    by (simp add: InstallCompactionResults_def mk_CompactionState_def demo_env_def sample_env_def)
  then obtain cs db' where r: "DoCompactionWork demo_env ?P block_ops (\<lambda>h. Some None) (mk_CompactionState demo_compaction) ?db = Some (kok, cs, db')"
    by auto
  have "base_wf (vs_nowversion (db_versions ?db))"
    by (simp add: demo_versions_simps)
  from DoCompactionWork_loses_inputs [OF c(1-3) this _ _ _ r]
  have "cs_outputs cs = []" "set (v_files (vs_nowversion (db_versions db')) 0) =
      {f \<in> set (v_files level0_files 0). fm_num f \<notin> fm_num ` set (co_inputs0 demo_compaction)}"
    by (simp_all add: c(7) mk_VersionEdit_def demo_versions_simps(1))
  moreover have "{f \<in> set (v_files level0_files 0). fm_num f \<notin> fm_num ` set (co_inputs0 demo_compaction)} = {key_file 4 2 6}"
    by (auto simp: level0_files_def demo_compaction_def key_file_def)
  ultimately show ?thesis
    using r by simp
qed

end
