(* ===== verification/DbConcurrent.thy ===== *)
theory DbConcurrent
  imports DbThread
begin

text \<open>
  Several threads that write: \<open>DBImpl::Write\<close> of src/src/db/db.cpp as a program of atomic steps over the mutex and the queue of
  writers, with \<open>Writer::wait\<close> and \<open>Writer::signal\<close> of src/src/db/db.h.  Each thread makes one call.
\<close>

section \<open>Threads\<close>

text \<open>
  Where a call is: before it locks the mutex; in \<open>wait\<close>, before it locks the mutex there, asleep, and behind it, before the condition of
  the loop; at the front of the queue; in \<open>MakeRoomForwrite\<close>, with its two flags, before a round of its loop and in its wait for the
  background work; behind \<open>MakeRoomForwrite\<close>; with its group, without the mutex, before the log; and before the second lock.
\<close>

datatype wpc =
    WStart | WRelock | WAsleep | WCheck | WFront | WMake bool bool | WRoomWait bool bool | WRoom State
  | WLog WriteBatch u64 | WDone State u64 | WReturned State

text \<open>The \<open>Writer\<close> of the call: \<open>th_signalled\<close> says that its condition variable was notified while it slept.\<close>

record thread =
  th_sync :: bool
  th_batch :: "WriteBatch option"
  th_done :: bool
  th_state :: State
  th_signalled :: bool
  th_pc :: wpc

text \<open>\<open>wo_mutex\<close>: the thread that locked the mutex last, while it is locked.\<close>

record 's world =
  wo_threads :: "nat \<Rightarrow> thread"
  wo_mutex :: "nat option"
  wo_queue :: "nat list"
  wo_db :: "'s DBImpl"

abbreviation wo_pc :: "'s world \<Rightarrow> nat \<Rightarrow> wpc" where
  "wo_pc w t \<equiv> th_pc (wo_threads w t)"

definition goto :: "nat \<Rightarrow> wpc \<Rightarrow> 's world \<Rightarrow> 's world" where
  "goto t pc w = w\<lparr>wo_threads := (wo_threads w)(t := (wo_threads w t)\<lparr>th_pc := pc\<rparr>)\<rparr>"

definition set_batch :: "nat \<Rightarrow> WriteBatch \<Rightarrow> 's world \<Rightarrow> 's world" where
  "set_batch t b w = w\<lparr>wo_threads := (wo_threads w)(t := (wo_threads w t)\<lparr>th_batch := Some b\<rparr>)\<rparr>"

definition writer_of :: "'s world \<Rightarrow> nat \<Rightarrow> Writer" where
  "writer_of w t = \<lparr>wr_sync = th_sync (wo_threads w t), wr_batch = th_batch (wo_threads w t)\<rparr>"

text \<open>The condition of the waiting loop, and the return behind it.\<close>

definition loop_pc :: "'s world \<Rightarrow> nat \<Rightarrow> wpc" where
  "loop_pc w t =
     (if th_done (wo_threads w t) then WReturned (th_state (wo_threads w t))
      else if hd (wo_queue w) = t then WFront else WRelock)"

text \<open>
  The last loop takes writers from the queue up to \<open>now_writer\<close>, which is always the writer itself; the others are done and signalled.  A
  signal to a thread that does not sleep yet is lost.  \<open>None\<close>: \<open>front\<close> of an empty queue.
\<close>

fun pop_writers :: "nat \<Rightarrow> nat list \<Rightarrow> (nat list \<times> nat list) option" where
  "pop_writers now_writer [] = None"
| "pop_writers now_writer (ready # queue) =
     (if ready = now_writer then Some ([], queue)
      else map_option (\<lambda>(rs, queue'). (ready # rs, queue')) (pop_writers now_writer queue))"

definition signal_writer :: "State \<Rightarrow> thread \<Rightarrow> thread" where
  "signal_writer s th = th\<lparr>th_done := True, th_state := s, th_signalled := th_signalled th \<or> th_pc th = WAsleep\<rparr>"

definition finish_write :: "nat \<Rightarrow> State \<Rightarrow> u64 \<Rightarrow> 's world \<Rightarrow> 's world option" where
  "finish_write t s last_sequence w = do {
     (rs, queue) \<leftarrow> pop_writers t (wo_queue w);
     Some (goto t (WReturned kok) (w\<lparr>
       wo_threads := (\<lambda>r. if r \<in> set rs then signal_writer s (wo_threads w r) else wo_threads w r),
       wo_mutex := None, wo_queue := queue,
       wo_db := (wo_db w)\<lparr>db_versions := SetLastSequence_vs last_sequence (db_versions (wo_db w))\<rparr>\<rparr>)) }"

section \<open>The steps of a writer\<close>

text \<open>One round of the loop of \<open>MakeRoomForwrite\<close>: it leaves the loop, waits for the background work, or has switched the memtable.\<close>

datatype 's room = RoomDone "'s DBImpl" | RoomWait | RoomAgain "'s DBImpl"

definition MakeRoom_once :: "'s dbenv \<Rightarrow> posix \<Rightarrow> bool \<Rightarrow> bool \<Rightarrow> 's DBImpl \<Rightarrow> 's room option" where
  "MakeRoom_once E P allow_delay force db =
     (if \<not> State_ok (db_bg_error db) then Some (RoomDone db)
      else if allow_delay \<and> NumLevelFiles (db_versions db) 0 \<ge> kL0_SlowdownWrites then None
      else Option.bind (if force then Some False
          else map_option (\<lambda>m. ucast (Memtable_ApproximateMemoryUsage m) \<le> de_write_buffer_size E) (db_mem db)) (\<lambda>room.
        if room then Some (RoomDone db)
        else if NumLevelFiles (db_versions db) 0 \<ge> kL0_StopWrites \<or> db_imm db \<noteq> None then Some RoomWait
        else (let (switched, db1) = switch_memtable E P db in Some (if switched then RoomAgain db1 else RoomDone db1))))"

text \<open>
  A lock waits until the mutex is free, also the lock of the thread that holds it; an unlock frees the mutex, whoever holds it.  \<open>MakeRoomForwrite\<close>
  adopts the lock, releases it while it waits for the background work and when it returns, so that the unlock before the log frees the mutex of whoever
  has locked it since.  A thread asleep on a condition variable may wake up at any time, signalled or not, once the mutex is free; \<open>wait\<close> unlocks it when
  it returns.  A writer that waits for the background work wakes up here when that is done; that it may wake up at other times is a rule of the world
  below.  A call without a batch does not lock the mutex a second time.
\<close>

inductive writer_step :: "'s dbenv \<Rightarrow> posix \<Rightarrow> nat \<Rightarrow> 's world \<Rightarrow> 's world \<Rightarrow> bool" for E P t where
  w_enter: "wo_pc w t = WStart \<Longrightarrow> \<not> th_done (wo_threads w t) \<Longrightarrow> wo_mutex w = None \<Longrightarrow>
     w1 = w\<lparr>wo_mutex := Some t, wo_queue := wo_queue w @ [t]\<rparr> \<Longrightarrow> w2 = goto t (loop_pc w1 t) w1 \<Longrightarrow> writer_step E P t w w2"
| w_relock: "wo_pc w t = WRelock \<Longrightarrow> wo_mutex w = None \<Longrightarrow> w2 = goto t WAsleep w \<Longrightarrow> writer_step E P t w w2"
| w_wake: "wo_pc w t = WAsleep \<Longrightarrow> wo_mutex w = None \<Longrightarrow> w2 = goto t WCheck w \<Longrightarrow> writer_step E P t w w2"
| w_check: "wo_pc w t = WCheck \<Longrightarrow> w2 = goto t (loop_pc w t) w \<Longrightarrow> writer_step E P t w w2"
| w_front: "wo_pc w t = WFront \<Longrightarrow> force = (th_batch (wo_threads w t) = None) \<Longrightarrow> w2 = goto t (WMake (\<not> force) force) w \<Longrightarrow>
     writer_step E P t w w2"
| w_made: "wo_pc w t = WMake allow force \<Longrightarrow> MakeRoom_once E P allow force (wo_db w) = Some (RoomDone db) \<Longrightarrow>
     w2 = goto t (WRoom kok) (w\<lparr>wo_mutex := None, wo_db := db\<rparr>) \<Longrightarrow> writer_step E P t w w2"
| w_switched: "wo_pc w t = WMake allow force \<Longrightarrow> MakeRoom_once E P allow force (wo_db w) = Some (RoomAgain db) \<Longrightarrow>
     w2 = goto t (WMake allow False) (w\<lparr>wo_db := db\<rparr>) \<Longrightarrow> writer_step E P t w w2"
| w_full: "wo_pc w t = WMake allow force \<Longrightarrow> MakeRoom_once E P allow force (wo_db w) = Some RoomWait \<Longrightarrow>
     w2 = goto t (WRoomWait allow force) (w\<lparr>wo_mutex := None\<rparr>) \<Longrightarrow> writer_step E P t w w2"
| w_work_done: "wo_pc w t = WRoomWait allow force \<Longrightarrow> wo_mutex w = None \<Longrightarrow> wait_background E P (wo_db w) = Some db \<Longrightarrow>
     w2 = goto t (WMake allow force) (w\<lparr>wo_mutex := Some t, wo_db := db\<rparr>) \<Longrightarrow> writer_step E P t w w2"
| w_group: "wo_pc w t = WRoom s \<Longrightarrow> State_ok s \<Longrightarrow> th_batch (wo_threads w t) = Some b \<Longrightarrow>
     group_batch (th_sync (wo_threads w t)) b (map (writer_of w) (tl (wo_queue w)))
       (vs_last_sequence (db_versions (wo_db w))) = Some (g, q) \<Longrightarrow>
     w2 = goto t (WLog g q) (set_batch t g (w\<lparr>wo_mutex := None\<rparr>)) \<Longrightarrow> writer_step E P t w w2"
| w_log: "wo_pc w t = WLog g q \<Longrightarrow> write_log E P (th_sync (wo_threads w t)) g (wo_db w) = Some (s, b, db) \<Longrightarrow>
     w2 = goto t (WDone s q) (set_batch t b (w\<lparr>wo_db := db\<rparr>)) \<Longrightarrow> writer_step E P t w w2"
| w_finish: "wo_pc w t = WDone s q \<Longrightarrow> wo_mutex w = None \<Longrightarrow> finish_write t s q w = Some w2 \<Longrightarrow> writer_step E P t w w2"
| w_empty: "wo_pc w t = WRoom s \<Longrightarrow> \<not> State_ok s \<or> th_batch (wo_threads w t) = None \<Longrightarrow>
     finish_write t s (vs_last_sequence (db_versions (wo_db w))) w = Some w2 \<Longrightarrow> writer_step E P t w w2"

inductive_simps writer_step_iff: "writer_step E P t w w'"

text \<open>
  The other calls and the background thread, each under the mutex.  A writer that waits for the background work may wake up whenever the mutex is free: after
  the background thread has run, or for no reason.
\<close>

inductive locked_step :: "'s dbenv \<Rightarrow> 's DBImpl \<Rightarrow> 's DBImpl \<Rightarrow> bool" for E where
  l_get: "DBImpl_Get E snap k v db = Some (s, v', db') \<Longrightarrow> locked_step E db db'"
| l_snapshot: "GetSnapshot db = (sn, db') \<Longrightarrow> locked_step E db db'"
| l_release: "locked_step E db (ReleaseSnapshot sn db)"
| l_thread: "background_thread E P db = Some db' \<Longrightarrow> locked_step E db db'"

inductive world_step :: "'s dbenv \<Rightarrow> 's world \<Rightarrow> 's world \<Rightarrow> bool" for E where
  s_writer: "writer_step E P t w w' \<Longrightarrow> world_step E w w'"
| s_other: "wo_mutex w = None \<Longrightarrow> locked_step E (wo_db w) db \<Longrightarrow> world_step E w (w\<lparr>wo_db := db\<rparr>)"
| s_room_wake: "wo_pc w t = WRoomWait allow force \<Longrightarrow> wo_mutex w = None \<Longrightarrow>
     world_step E w (goto t (WMake allow force) (w\<lparr>wo_mutex := Some t\<rparr>))"

text \<open>The same without wake-ups that nobody caused: what sleeps in \<open>Writer::wait\<close> wakes up when it was signalled.\<close>

definition notified_step :: "'s dbenv \<Rightarrow> 's world \<Rightarrow> 's world \<Rightarrow> bool" where
  "notified_step E w w' \<longleftrightarrow> world_step E w w' \<and>
     (\<forall>t. wo_pc w t = WAsleep \<and> wo_pc w' t \<noteq> WAsleep \<longrightarrow> th_signalled (wo_threads w t))"

definition world_start :: "'s world \<Rightarrow> bool" where
  "world_start w \<longleftrightarrow> wo_queue w = [] \<and> wo_mutex w = None \<and>
     (\<forall>t. wo_pc w t = WStart \<and> \<not> th_done (wo_threads w t) \<and> \<not> th_signalled (wo_threads w t))"

section \<open>The invariant of the queue\<close>

fun waits :: "wpc \<Rightarrow> bool" where
  "waits WRelock = True"
| "waits WAsleep = True"
| "waits WCheck = True"
| "waits _ = False"

fun outside :: "wpc \<Rightarrow> bool" where
  "outside WStart = True"
| "outside (WReturned s) = True"
| "outside _ = False"

text \<open>The calls under way are in the queue, all behind the first one wait, and nobody has been signalled.\<close>

definition world_inv :: "'s world \<Rightarrow> bool" where
  "world_inv w \<longleftrightarrow> distinct (wo_queue w) \<and> (\<forall>t. t \<in> set (wo_queue w) \<longleftrightarrow> \<not> outside (wo_pc w t)) \<and>
     (\<forall>t \<in> set (tl (wo_queue w)). waits (wo_pc w t)) \<and>
     (\<forall>t. \<not> th_done (wo_threads w t) \<and> \<not> th_signalled (wo_threads w t))"

lemma world_inv_start: "world_start w \<Longrightarrow> world_inv w"
  by (simp add: world_start_def world_inv_def)

lemma waits_inside: "waits pc \<Longrightarrow> \<not> outside pc"
  by (cases pc) simp_all

text \<open>The call that is neither outside nor waiting is the first in the queue, and its last loop signals nobody.\<close>

lemma active_front:
  assumes "world_inv w" "\<not> outside (wo_pc w t)" "\<not> waits (wo_pc w t)"
  obtains q where "wo_queue w = t # q"
proof (cases "wo_queue w")
  case (Cons r q)
  then show ?thesis
    using assms that by (cases "t = r") (auto simp: world_inv_def)
qed (use assms in \<open>auto simp: world_inv_def\<close>)

lemma finish_write_front:
  assumes "wo_queue w = t # q"
  shows "finish_write t s n w = Some (goto t (WReturned kok) (w\<lparr>wo_mutex := None, wo_queue := q,
    wo_db := (wo_db w)\<lparr>db_versions := SetLastSequence_vs n (db_versions (wo_db w))\<rparr>\<rparr>))"
  using assms by (simp add: finish_write_def)

lemma goto_simps [simp]:
  "wo_threads (goto t pc w) = (wo_threads w)(t := (wo_threads w t)\<lparr>th_pc := pc\<rparr>)"
  "wo_mutex (goto t pc w) = wo_mutex w" "wo_queue (goto t pc w) = wo_queue w" "wo_db (goto t pc w) = wo_db w"
  "wo_threads (set_batch t b w) = (wo_threads w)(t := (wo_threads w t)\<lparr>th_batch := Some b\<rparr>)"
  "wo_mutex (set_batch t b w) = wo_mutex w" "wo_queue (set_batch t b w) = wo_queue w" "wo_db (set_batch t b w) = wo_db w"
  by (simp_all add: goto_def set_batch_def)

text \<open>An enter goes to the front exactly when the queue is empty.\<close>

lemma enter_pc:
  assumes "world_inv w" "wo_pc w t = WStart" "w1 = w\<lparr>wo_mutex := Some t, wo_queue := wo_queue w @ [t]\<rparr>"
  shows "loop_pc w1 t = (if wo_queue w = [] then WFront else WRelock)"
proof -
  have "t \<notin> set (wo_queue w)"
    using assms(1,2) by (simp add: world_inv_def)
  then show ?thesis
    using assms(1,3) by (cases "wo_queue w") (auto simp: loop_pc_def world_inv_def)
qed

lemma world_inv_finish:
  assumes "world_inv w" "\<not> outside (wo_pc w t)" "\<not> waits (wo_pc w t)" "finish_write t s n w = Some w'"
  shows "world_inv w' \<and> (\<exists>q. wo_queue w = t # q \<and> wo_queue w' = q) \<and> wo_mutex w' = None \<and>
    (\<forall>v. wo_pc w' v = (if v = t then WReturned kok else wo_pc w v))"
proof -
  obtain q where q: "wo_queue w = t # q"
    by (rule active_front [OF assms(1-3)])
  have w': "wo_threads w' = (wo_threads w)(t := (wo_threads w t)\<lparr>th_pc := WReturned kok\<rparr>)" "wo_queue w' = q" "wo_mutex w' = None"
    using assms(4) q by (auto simp: finish_write_front)
  have "set (tl q) \<subseteq> set q"
    by (cases q) auto
  then have "world_inv w'"
    using assms(1) q w' by (auto simp: world_inv_def split: if_splits)
  then show ?thesis
    using q w' by simp
qed

text \<open>The steps of the first call keep the invariant, when they only move it inside.\<close>

lemma world_inv_active:
  assumes "world_inv w" "\<not> outside (wo_pc w t)" "\<not> waits (wo_pc w t)" "\<not> outside pc"
    and "wo_queue w' = wo_queue w" "\<And>v. v \<noteq> t \<Longrightarrow> wo_threads w' v = wo_threads w v" "wo_pc w' t = pc"
      "th_done (wo_threads w' t) = th_done (wo_threads w t)" "th_signalled (wo_threads w' t) = th_signalled (wo_threads w t)"
  shows "world_inv w'"
proof -
  obtain q where q: "wo_queue w = t # q"
    by (rule active_front [OF assms(1-3)])
  have eq: "outside (wo_pc w' v) = outside (wo_pc w v)" "th_done (wo_threads w' v) = th_done (wo_threads w v)"
      "th_signalled (wo_threads w' v) = th_signalled (wo_threads w v)" for v
    using assms(2,4-9) by (cases "v = t"; simp)+
  have "waits (wo_pc w' v)" if "v \<in> set q" for v
    using that assms(1,6) q by (cases "v = t") (simp_all add: world_inv_def)
  then show ?thesis
    using assms(1,5) q eq by (simp add: world_inv_def)
qed

lemma world_inv_writer:
  assumes "writer_step E P t w w'" "world_inv w"
  shows "world_inv w'"
  using assms(1)
proof cases
  case (w_enter w1)
  have "t \<notin> set (wo_queue w)"
    using assms(2) w_enter(1) by (simp add: world_inv_def)
  then show ?thesis
    using w_enter assms(2) enter_pc [OF assms(2) w_enter(1,4)]
    by (cases "wo_queue w") (auto simp: world_inv_def)
next
  case w_relock
  then show ?thesis
    using assms(2) by (auto simp: world_inv_def)
next
  case w_wake
  then show ?thesis
    using assms(2) by (auto simp: world_inv_def)
next
  case w_check
  then have "t \<in> set (wo_queue w)"
    using assms(2) by (auto simp: world_inv_def)
  then obtain r q where q: "wo_queue w = r # q"
    by (cases "wo_queue w") auto
  show ?thesis
    using w_check assms(2) q by (auto simp: world_inv_def loop_pc_def)
next
  case w_front
  then show ?thesis
    by (intro world_inv_active [OF assms(2), of t "wo_pc w' t"]) simp_all
next
  case (w_made allow force db)
  then show ?thesis
    by (intro world_inv_active [OF assms(2), of t "wo_pc w' t"]) simp_all
next
  case (w_switched allow force db)
  then show ?thesis
    by (intro world_inv_active [OF assms(2), of t "wo_pc w' t"]) simp_all
next
  case (w_full allow force)
  then show ?thesis
    by (intro world_inv_active [OF assms(2), of t "wo_pc w' t"]) simp_all
next
  case (w_work_done allow force db)
  then show ?thesis
    by (intro world_inv_active [OF assms(2), of t "wo_pc w' t"]) simp_all
next
  case (w_group s b g n)
  then show ?thesis
    by (intro world_inv_active [OF assms(2), of t "wo_pc w' t"]) simp_all
next
  case (w_log g n s b db)
  then show ?thesis
    by (intro world_inv_active [OF assms(2), of t "wo_pc w' t"]) simp_all
next
  case (w_finish s n)
  then show ?thesis
    using world_inv_finish [OF assms(2) _ _ w_finish(3)] by simp
next
  case (w_empty s)
  then show ?thesis
    using world_inv_finish [OF assms(2) _ _ w_empty(3)] by simp
qed

lemma world_inv_step: "world_step E w w' \<Longrightarrow> world_inv w \<Longrightarrow> world_inv w'"
proof (induction rule: world_step.induct)
  case (s_writer P t w w')
  then show ?case
    by (rule world_inv_writer)
next
  case (s_other w db)
  then show ?case
    by (simp add: world_inv_def)
next
  case (s_room_wake w t allow force)
  then show ?case
    by (intro world_inv_active [OF s_room_wake(3), of t "WMake allow force"]) simp_all
qed

lemma world_inv_steps: "(world_step E)\<^sup>*\<^sup>* w w' \<Longrightarrow> world_inv w \<Longrightarrow> world_inv w'"
  by (induction rule: rtranclp_induct) (auto dest: world_inv_step)

section \<open>Waiting\<close>

text \<open>A step of another call leaves a call where it is.\<close>

lemma other_pc:
  assumes "writer_step E P t w w'" "world_inv w" "v \<noteq> t"
  shows "wo_pc w' v = wo_pc w v"
  using assms(1)
proof cases
  case (w_finish s n)
  then show ?thesis
    using world_inv_finish [OF assms(2) _ _ w_finish(3)] assms(3) by simp
next
  case (w_empty s)
  then show ?thesis
    using world_inv_finish [OF assms(2) _ _ w_empty(3)] assms(3) by simp
qed (use assms(3) in simp_all)

lemma loop_pc_inv: "world_inv w \<Longrightarrow> loop_pc w t = (if hd (wo_queue w) = t then WFront else WRelock)"
  by (simp add: loop_pc_def world_inv_def)

text \<open>A call stops waiting only when it finds itself at the front of the queue, behind a wake-up.\<close>

lemma waits_step:
  assumes "world_step E w w'" "world_inv w" "waits (wo_pc w u)"
  shows "waits (wo_pc w' u) \<or> (wo_pc w u = WCheck \<and> hd (wo_queue w) = u \<and> wo_pc w' u = WFront)"
  using assms(1)
proof cases
  case (s_writer P t)
  show ?thesis
  proof (cases "u = t")
    case True
    from s_writer show ?thesis
      by cases (use True assms(3) loop_pc_inv [OF assms(2), of t] in \<open>auto split: if_splits\<close>)
  next
    case False
    then show ?thesis
      using other_pc [OF s_writer assms(2)] assms(3) by simp
  qed
next
  case (s_room_wake t allow force)
  then show ?thesis
    using assms(3) by (cases "u = t") auto
qed (use assms(3) in simp)

text \<open>Without wake-ups that nobody caused, writers that wait, and those that come while one waits, do not get further than to sleep.\<close>

fun sleeps :: "wpc \<Rightarrow> bool" where
  "sleeps WRelock = True"
| "sleeps WAsleep = True"
| "sleeps _ = False"

lemma late_step:
  assumes "notified_step E w w'" "world_inv w" "sleeps (wo_pc w u)" "wo_pc w v = WStart \<or> sleeps (wo_pc w v)"
  shows "(wo_pc w' v = WStart \<or> sleeps (wo_pc w' v)) \<and> (sleeps (wo_pc w v) \<longrightarrow> sleeps (wo_pc w' v))"
proof -
  have quiet: "\<not> th_signalled (wo_threads w v)"
    using assms(2) by (simp add: world_inv_def)
  have "u \<in> set (wo_queue w)"
    using assms(2,3) by (cases "wo_pc w u") (auto simp: world_inv_def)
  then have ne: "wo_queue w \<noteq> []"
    by auto
  have asleep: "wo_pc w v = WAsleep \<Longrightarrow> wo_pc w' v = WAsleep"
    using assms(1) quiet by (auto simp: notified_step_def)
  have "world_step E w w'"
    using assms(1) by (simp add: notified_step_def)
  then show ?thesis
  proof cases
    case (s_writer P t)
    show ?thesis
    proof (cases "v = t")
      case True
      from s_writer show ?thesis
        by cases (use True ne assms(4) asleep enter_pc [OF assms(2), of t] in auto)
    next
      case False
      then show ?thesis
        using other_pc [OF s_writer assms(2)] assms(4) by simp
    qed
  next
    case (s_room_wake t allow force)
    then show ?thesis
      using assms(4) by (cases "v = t") auto
  qed (use assms(4) in simp)
qed

lemma late_steps:
  assumes "(notified_step E)\<^sup>*\<^sup>* w w'" "world_inv w" "sleeps (wo_pc w u)"
  shows "world_inv w' \<and> sleeps (wo_pc w' u) \<and>
    (\<forall>v. wo_pc w v = WStart \<or> sleeps (wo_pc w v) \<longrightarrow> wo_pc w' v = WStart \<or> sleeps (wo_pc w' v))"
  using assms
proof (induction rule: rtranclp_induct)
  case (step w1 w2)
  then have i: "world_inv w1" "sleeps (wo_pc w1 u)"
    by auto
  then show ?case
    using step late_step [OF step(2) i] world_inv_step [of E w1 w2] by (auto simp: notified_step_def)
qed simp

section \<open>Two writers at once\<close>






section \<open>A writer alone\<close>

lemma delete_files_writerque: "delete_files E keep names db = Some db' \<Longrightarrow> db_writerque db' = db_writerque db"
proof (induction E keep names db rule: delete_files.induct)
  case (2 E keep name names db)
  obtain ok num type where p: "ParsefileName name 0 kTempFile = Some (ok, num, type)"
    using "2.prems" by (cases "ParsefileName name 0 kTempFile") auto
  from "2.IH" [OF p refl refl refl] "2.prems" show ?case
    by (auto simp: p split: if_splits)
qed simp

lemma DeleteObsoleteFiles_writerque: "DeleteObsoleteFiles E P db = Some db' \<Longrightarrow> db_writerque db' = db_writerque db"
  by (auto simp: DeleteObsoleteFiles_def delete_files_writerque split: if_splits)

lemma BuildTable_writerque: "BuildTable E P m meta db = Some (s, f, db') \<Longrightarrow> db_writerque db' = db_writerque db"
  unfolding BuildTable_def Let_def
  by (auto split: prod.splits option.splits bind_splits)

lemma WriteLevel0Table_writerque: "WriteLevel0Table E P m edit db = Some (s, edit', db') \<Longrightarrow> db_writerque db' = db_writerque db"
  by (auto simp: WriteLevel0Table_def Let_def split: prod.splits bind_splits dest: BuildTable_writerque)

lemma CompactMemTable_writerque:
  assumes "CompactMemTable E P db = Some db'"
  shows "db_writerque db' = db_writerque db"
proof -
  obtain m s edit db1 where m: "db_imm db = Some m" "WriteLevel0Table E P m mk_VersionEdit db = Some (s, edit, db1)"
    using assms by (auto simp: CompactMemTable_def split: bind_splits)
  note c = assms [unfolded CompactMemTable_def m bind.bind_lunit prod.case Let_def]
  show ?thesis
    using c WriteLevel0Table_writerque [OF m(2)]
    by (auto split: if_splits bind_splits dest!: DeleteObsoleteFiles_writerque)
qed

lemma BackgroundCall_writerque:
  assumes "BackgroundCall E P db = Some db'"
  shows "db_writerque db' = db_writerque db"
  using assms
  by (auto simp: BackgroundCall_def BackgroundCompaction_def MaybeCompaction_keeps Let_def split: if_splits bind_splits option.splits
      dest: CompactMemTable_writerque)

lemma MakeRoom_writerque:
  assumes "MakeRoom_loop E P allow force db = Some db'"
  shows "db_writerque db' = db_writerque db"
proof -
  have "db_writerque db' = db_writerque (snd ((((E, P), allow), force), db))"
  proof (rule MakeRoom_loop.raw_induct [OF _ assms, of "\<lambda>x d. db_writerque d = db_writerque (snd x)"], goal_cases)
  case (1 loop E P allow force db db')
  have wait: "wait_background E P db = Some db1 \<Longrightarrow> db_writerque db1 = db_writerque db" for db1
    by (auto simp: wait_background_def background_thread_def dest!: BackgroundCall_writerque split: if_splits)
  have switch: "switch_memtable E P db = (b, db1) \<Longrightarrow> db_writerque db1 = db_writerque db" for b db1
    by (auto simp: switch_memtable_def NewFileNumber_def MaybeCompaction_keeps Let_def split: prod.splits option.splits)
  show ?case
    using 1(2) by (auto split: if_splits bind_splits prod.splits dest!: 1(1) [unfolded snd_conv] wait switch)
  qed
  then show ?thesis
    by simp
qed

text \<open>From a queue that is empty, the steps of one writer are determined.\<close>

fun returned :: "wpc \<Rightarrow> bool" where
  "returned (WReturned s) = True"
| "returned _ = False"

lemma run_next:
  assumes "\<not> returned (wo_pc w t)" "returned (wo_pc w' t)"
  shows "(writer_step E P t)\<^sup>*\<^sup>* w w' \<longleftrightarrow> (\<exists>w1. writer_step E P t w w1 \<and> (writer_step E P t)\<^sup>*\<^sup>* w1 w')"
  using assms by (metis converse_rtranclpE converse_rtranclp_into_rtranclp)

lemma run_end:
  assumes "returned (wo_pc w t)"
  shows "(writer_step E P t)\<^sup>*\<^sup>* w w' \<longleftrightarrow> w' = w"
proof
  assume "(writer_step E P t)\<^sup>*\<^sup>* w w'"
  then show "w' = w"
  proof (cases rule: converse_rtranclpE)
    case (step w1)
    then show ?thesis
      using assms by (cases "wo_pc w t") (auto simp: writer_step_iff)
  qed simp
qed simp

text \<open>A world in which only one call is under way, and the same world when it has returned.\<close>

definition lone :: "(nat \<Rightarrow> thread) \<Rightarrow> nat \<Rightarrow> thread \<Rightarrow> nat option \<Rightarrow> nat list \<Rightarrow> 's DBImpl \<Rightarrow> 's world" where
  "lone ths t th m q db = \<lparr>wo_threads = ths(t := th), wo_mutex = m, wo_queue = q, wo_db = db\<rparr>"

lemma lone_simps [simp]:
  "wo_threads (lone ths t th m q db) = ths(t := th)" "wo_mutex (lone ths t th m q db) = m"
  "wo_queue (lone ths t th m q db) = q" "wo_db (lone ths t th m q db) = db"
  "goto t pc (lone ths t th m q db) = lone ths t (th\<lparr>th_pc := pc\<rparr>) m q db"
  "set_batch t b (lone ths t th m q db) = lone ths t (th\<lparr>th_batch := Some b\<rparr>) m q db"
  "(lone ths t th m q db)\<lparr>wo_mutex := m'\<rparr> = lone ths t th m' q db"
  "(lone ths t th m q db)\<lparr>wo_queue := q'\<rparr> = lone ths t th m q' db"
  "(lone ths t th m q db)\<lparr>wo_db := db'\<rparr> = lone ths t th m q db'"
  by (simp_all add: lone_def goto_def set_batch_def)

lemma lone_cases: "w = lone (wo_threads w) t (wo_threads w t) (wo_mutex w) (wo_queue w) (wo_db w)"
  by (simp add: lone_def)

lemma finish_write_lone:
  "finish_write t s n (lone ths t th m [t] db) =
     Some (lone ths t (th\<lparr>th_pc := WReturned kok\<rparr>) None [] (db\<lparr>db_versions := SetLastSequence_vs n (db_versions db)\<rparr>))"
  by (simp add: finish_write_front [where q = "[]"])

lemma run_log:
  assumes "th_pc th = WLog g n" "returned (wo_pc v t)"
  shows "(writer_step E P t)\<^sup>*\<^sup>* (lone ths t th None [t] db) v \<longleftrightarrow>
    (\<exists>s b db1. write_log E P (th_sync th) g db = Some (s, b, db1) \<and>
       v = lone ths t (th\<lparr>th_batch := Some b, th_pc := WReturned kok\<rparr>) None []
         (db1\<lparr>db_versions := SetLastSequence_vs n (db_versions db1)\<rparr>))"
proof -
  have last: "(writer_step E P t)\<^sup>*\<^sup>* (lone ths t (th\<lparr>th_batch := Some b, th_pc := WDone s n\<rparr>) None [t] db1) v \<longleftrightarrow>
      v = lone ths t (th\<lparr>th_batch := Some b, th_pc := WReturned kok\<rparr>) None []
        (db1\<lparr>db_versions := SetLastSequence_vs n (db_versions db1)\<rparr>)" for s b db1
    using assms(2) by (subst run_next) (simp_all add: writer_step_iff finish_write_lone run_end)
  have log: "writer_step E P t (lone ths t th None [t] db) w1 \<longleftrightarrow>
      (\<exists>s b db1. write_log E P (th_sync th) g db = Some (s, b, db1) \<and>
         w1 = lone ths t (th\<lparr>th_batch := Some b, th_pc := WDone s n\<rparr>) None [t] db1)" for w1
    using assms(1) by (simp add: writer_step_iff)
  show ?thesis
    using assms by (subst run_next) (simp, simp, use log last in metis)
qed

text \<open>The loop of \<open>MakeRoomForwrite\<close> is its rounds, with the waits between them.\<close>

lemma room_rounds:
  "(if \<not> State_ok (db_bg_error db) then Some db
    else if allow \<and> NumLevelFiles (db_versions db) 0 \<ge> kL0_SlowdownWrites then None
    else Option.bind (if force then Some False
        else map_option (\<lambda>m. ucast (Memtable_ApproximateMemoryUsage m) \<le> de_write_buffer_size E) (db_mem db)) (\<lambda>room.
      if room then Some db
      else if NumLevelFiles (db_versions db) 0 \<ge> kL0_StopWrites \<or> db_imm db \<noteq> None
      then Option.bind (wait_background E P db) (loop force)
      else (let (switched, db1) = switch_memtable E P db in if switched then loop False db1 else Some db1))) =
    Option.bind (MakeRoom_once E P allow force db)
     (\<lambda>r. case r of RoomDone db1 \<Rightarrow> Some db1 | RoomAgain db1 \<Rightarrow> loop False db1
        | RoomWait \<Rightarrow> Option.bind (wait_background E P db) (loop force))"
  unfolding MakeRoom_once_def by (cases force; cases "db_mem db"; cases "switch_memtable E P db") simp_all

lemma MakeRoom_loop_once:
  "MakeRoom_loop E P allow force db = Option.bind (MakeRoom_once E P allow force db)
     (\<lambda>r. case r of RoomDone db1 \<Rightarrow> Some db1 | RoomAgain db1 \<Rightarrow> MakeRoom_loop E P allow False db1
        | RoomWait \<Rightarrow> Option.bind (wait_background E P db) (MakeRoom_loop E P allow force))"
  unfolding MakeRoom_loop.simps [of E P allow force db] by (rule room_rounds)

lemma make_step:
  "writer_step E P t (lone ths t (th\<lparr>th_pc := WMake allow force\<rparr>) (Some t) [t] db) w1 \<longleftrightarrow>
    (\<exists>db1. MakeRoom_once E P allow force db = Some (RoomDone db1) \<and> w1 = lone ths t (th\<lparr>th_pc := WRoom kok\<rparr>) None [t] db1) \<or>
    (\<exists>db1. MakeRoom_once E P allow force db = Some (RoomAgain db1) \<and>
       w1 = lone ths t (th\<lparr>th_pc := WMake allow False\<rparr>) (Some t) [t] db1) \<or>
    (MakeRoom_once E P allow force db = Some RoomWait \<and> w1 = lone ths t (th\<lparr>th_pc := WRoomWait allow force\<rparr>) None [t] db)"
  by (auto simp: writer_step_iff)

lemma room_wait_step:
  "writer_step E P t (lone ths t (th\<lparr>th_pc := WRoomWait allow force\<rparr>) None [t] db) w1 \<longleftrightarrow>
    (\<exists>db1. wait_background E P db = Some db1 \<and> w1 = lone ths t (th\<lparr>th_pc := WMake allow force\<rparr>) (Some t) [t] db1)"
  by (auto simp: writer_step_iff)

text \<open>A run of the rounds that gets to the end is a run of the loop.\<close>

lemma run_make_loop:
  assumes "(writer_step E P t)\<^sup>*\<^sup>* w v" "returned (wo_pc v t)"
  shows "(\<forall>allow force db. w = lone ths t (th\<lparr>th_pc := WMake allow force\<rparr>) (Some t) [t] db \<longrightarrow>
      (\<exists>db1. MakeRoom_loop E P allow force db = Some db1 \<and>
        (writer_step E P t)\<^sup>*\<^sup>* (lone ths t (th\<lparr>th_pc := WRoom kok\<rparr>) None [t] db1) v)) \<and>
    (\<forall>allow force db. w = lone ths t (th\<lparr>th_pc := WRoomWait allow force\<rparr>) None [t] db \<longrightarrow>
      (\<exists>db1. Option.bind (wait_background E P db) (MakeRoom_loop E P allow force) = Some db1 \<and>
        (writer_step E P t)\<^sup>*\<^sup>* (lone ths t (th\<lparr>th_pc := WRoom kok\<rparr>) None [t] db1) v))"
  using assms(1)
proof (induction rule: converse_rtranclp_induct)
  case base
  then show ?case
    using assms(2) by auto
next
  case (step w w1)
  show ?case
  proof (intro conjI allI impI)
    fix allow force db
    assume w: "w = lone ths t (th\<lparr>th_pc := WMake allow force\<rparr>) (Some t) [t] db"
    note st = step(1) [unfolded w make_step]
    show "\<exists>db1. MakeRoom_loop E P allow force db = Some db1 \<and>
        (writer_step E P t)\<^sup>*\<^sup>* (lone ths t (th\<lparr>th_pc := WRoom kok\<rparr>) None [t] db1) v"
      using st step(2,3) by (subst MakeRoom_loop_once) auto
  next
    fix allow force db
    assume w: "w = lone ths t (th\<lparr>th_pc := WRoomWait allow force\<rparr>) None [t] db"
    note st = step(1) [unfolded w room_wait_step]
    show "\<exists>db1. Option.bind (wait_background E P db) (MakeRoom_loop E P allow force) = Some db1 \<and>
        (writer_step E P t)\<^sup>*\<^sup>* (lone ths t (th\<lparr>th_pc := WRoom kok\<rparr>) None [t] db1) v"
      using st step(3) by auto
  qed
qed

text \<open>And the other way round.\<close>

lemma MakeRoom_run:
  assumes "MakeRoom_loop E P allow force db = Some db1"
  shows "(writer_step E P t)\<^sup>*\<^sup>* (lone ths t (th\<lparr>th_pc := WMake allow force\<rparr>) (Some t) [t] db)
    (lone ths t (th\<lparr>th_pc := WRoom kok\<rparr>) None [t] db1)"
proof -
  let ?run = "\<lambda>(x, db) db1. (writer_step (fst (fst (fst x))) (snd (fst (fst x))) t)\<^sup>*\<^sup>*
      (lone ths t (th\<lparr>th_pc := WMake (snd (fst x)) (snd x)\<rparr>) (Some t) [t] db) (lone ths t (th\<lparr>th_pc := WRoom kok\<rparr>) None [t] db1)"
  have "?run ((((E, P), allow), force), db) db1"
  proof (rule MakeRoom_loop.raw_induct [OF _ assms, of ?run], goal_cases)
    case (1 loop E P allow force db db2)
    have IH: "loop E P a f d = Some d1 \<Longrightarrow> (writer_step E P t)\<^sup>*\<^sup>* (lone ths t (th\<lparr>th_pc := WMake a f\<rparr>) (Some t) [t] d)
        (lone ths t (th\<lparr>th_pc := WRoom kok\<rparr>) None [t] d1)" for a f d d1
      using 1(1) [of E P a f d d1] by simp
    note step = make_step [where E = E and P = P and t = t and ths = ths and th = th]
    have "Option.bind (MakeRoom_once E P allow force db)
     (\<lambda>r. case r of RoomDone db1 \<Rightarrow> Some db1 | RoomAgain db1 \<Rightarrow> loop E P allow False db1
        | RoomWait \<Rightarrow> Option.bind (wait_background E P db) (loop E P allow force)) = Some db2"
      using 1(2) room_rounds [where loop = "\<lambda>f. loop E P allow f" and E = E and P = P and allow = allow and force = force and db = db]
      by (simp only:)
    then consider "MakeRoom_once E P allow force db = Some (RoomDone db2)"
      | d where "MakeRoom_once E P allow force db = Some (RoomAgain d)" "loop E P allow False d = Some db2"
      | d where "MakeRoom_once E P allow force db = Some RoomWait" "wait_background E P db = Some d" "loop E P allow force d = Some db2"
      by (cases "MakeRoom_once E P allow force db") (auto simp: bind_eq_Some_conv split: room.split_asm)
    then show ?case
    proof cases
      case 1
      then show ?thesis
        using step by (auto intro!: r_into_rtranclp)
    next
      case (2 d)
      then show ?thesis
        using step IH [OF 2(2)] by (auto intro: converse_rtranclp_into_rtranclp)
    next
      case (3 d)
      have "writer_step E P t (lone ths t (th\<lparr>th_pc := WRoomWait allow force\<rparr>) None [t] db)
          (lone ths t (th\<lparr>th_pc := WMake allow force\<rparr>) (Some t) [t] d)"
        using 3(2) by (simp only: room_wait_step) blast
      then show ?thesis
        using step 3(1) IH [OF 3(3)] by (auto intro: converse_rtranclp_into_rtranclp)
    qed
  qed
  then show ?thesis
    by simp
qed

lemma run_make:
  assumes "returned (wo_pc v t)"
  shows "(writer_step E P t)\<^sup>*\<^sup>* (lone ths t (th\<lparr>th_pc := WMake allow force\<rparr>) (Some t) [t] db) v \<longleftrightarrow>
    (\<exists>db1. MakeRoom_loop E P allow force db = Some db1 \<and>
      (writer_step E P t)\<^sup>*\<^sup>* (lone ths t (th\<lparr>th_pc := WRoom kok\<rparr>) None [t] db1) v)"
  using run_make_loop [OF _ assms, of E P "lone ths t (th\<lparr>th_pc := WMake allow force\<rparr>) (Some t) [t] db" ths th]
    rtranclp_trans [OF MakeRoom_run [of E P allow force db _ t ths th]] by blast

text \<open>The middle part of \<open>Write\<close>: the last sequence number, the batch and the database.\<close>

definition after_room ::
  "'s dbenv \<Rightarrow> posix \<Rightarrow> bool \<Rightarrow> WriteBatch option \<Rightarrow> State \<Rightarrow> 's DBImpl \<Rightarrow> (u64 \<times> WriteBatch option \<times> 's DBImpl) option" where
  "after_room E P sync updates s db =
     (case updates of
        Some b \<Rightarrow> if State_ok s then do { (s, q, b', db') \<leftarrow> write_batch E P sync b db; Some (q, Some b', db') }
          else Some (vs_last_sequence (db_versions db), updates, db)
      | None \<Rightarrow> Some (vs_last_sequence (db_versions db), updates, db))"

lemma DBImpl_Write_after_room:
  "DBImpl_Write E P sync updates db = do {
     (s, db1) \<leftarrow> MakeRoomForwrite E P (updates = None) db;
     (n, b, db2) \<leftarrow> after_room E P sync updates s db1;
     Some (kok, b, db2\<lparr>db_versions := SetLastSequence_vs n (db_versions db2)\<rparr>) }"
  unfolding DBImpl_Write_def after_room_def Let_def ..

lemma same_batch: "th_batch th = b \<Longrightarrow> th\<lparr>th_batch := b, th_pc := pc\<rparr> = th\<lparr>th_pc := pc\<rparr>"
  by (cases th) simp

lemma run_room:
  assumes "th_pc th = WRoom s" "returned (wo_pc v t)" "db_writerque db = []"
  shows "(writer_step E P t)\<^sup>*\<^sup>* (lone ths t th None [t] db) v \<longleftrightarrow>
    (\<exists>n b db1. after_room E P (th_sync th) (th_batch th) s db = Some (n, b, db1) \<and>
      v = lone ths t (th\<lparr>th_batch := b, th_pc := WReturned kok\<rparr>) None []
        (db1\<lparr>db_versions := SetLastSequence_vs n (db_versions db1)\<rparr>))"
proof (cases "State_ok s \<and> th_batch th \<noteq> None")
  case True
  then obtain b where b: "th_batch th = Some b" "State_ok s"
    by auto
  have step: "writer_step E P t (lone ths t th None [t] db) w1 \<longleftrightarrow>
      (\<exists>g n. group_batch (th_sync th) b [] (vs_last_sequence (db_versions db)) = Some (g, n) \<and>
         w1 = lone ths t (th\<lparr>th_batch := Some g, th_pc := WLog g n\<rparr>) None [t] db)" for w1
    using assms(1) b by (auto simp: writer_step_iff)
  have log: "(writer_step E P t)\<^sup>*\<^sup>* (lone ths t (th\<lparr>th_batch := Some g, th_pc := WLog g n\<rparr>) None [t] db) v \<longleftrightarrow>
      (\<exists>s b db1. write_log E P (th_sync th) g db = Some (s, b, db1) \<and>
         v = lone ths t (th\<lparr>th_batch := Some b, th_pc := WReturned kok\<rparr>) None []
           (db1\<lparr>db_versions := SetLastSequence_vs n (db_versions db1)\<rparr>))" for g n
    using assms(2) by (subst run_log) simp_all
  have "(writer_step E P t)\<^sup>*\<^sup>* (lone ths t th None [t] db) v \<longleftrightarrow>
      (\<exists>g n. group_batch (th_sync th) b [] (vs_last_sequence (db_versions db)) = Some (g, n) \<and>
        (writer_step E P t)\<^sup>*\<^sup>* (lone ths t (th\<lparr>th_batch := Some g, th_pc := WLog g n\<rparr>) None [t] db) v)"
    using assms(1,2) by (subst run_next) (simp, simp, unfold step, blast)
  note run = this [unfolded log]
  show ?thesis
    unfolding run using b assms(3) by (auto simp: after_room_def write_batch_def bind_eq_Some_conv)
next
  case False
  then have "writer_step E P t (lone ths t th None [t] db) w1 \<longleftrightarrow>
      w1 = lone ths t (th\<lparr>th_pc := WReturned kok\<rparr>) None []
        (db\<lparr>db_versions := SetLastSequence_vs (vs_last_sequence (db_versions db)) (db_versions db)\<rparr>)" for w1
    using assms(1) by (auto simp: writer_step_iff finish_write_lone)
  then have "(writer_step E P t)\<^sup>*\<^sup>* (lone ths t th None [t] db) v \<longleftrightarrow>
      v = lone ths t (th\<lparr>th_pc := WReturned kok\<rparr>) None []
        (db\<lparr>db_versions := SetLastSequence_vs (vs_last_sequence (db_versions db)) (db_versions db)\<rparr>)"
    using assms(1,2) by (subst run_next) (simp_all add: run_end)
  then show ?thesis
    using False by (cases "th_batch th") (auto simp: after_room_def same_batch)
qed

lemma run_lone:
  assumes "th_pc th = WStart" "\<not> th_done th" "returned (wo_pc v t)" "db_writerque db = []"
  shows "(writer_step E P t)\<^sup>*\<^sup>* (lone ths t th None [] db) v \<longleftrightarrow>
    (\<exists>b db1. DBImpl_Write E P (th_sync th) (th_batch th) db = Some (kok, b, db1) \<and>
      v = lone ths t (th\<lparr>th_batch := b, th_pc := WReturned kok\<rparr>) None [] db1)"
proof -
  have "writer_step E P t (lone ths t th None [] db) w1 \<longleftrightarrow> w1 = lone ths t (th\<lparr>th_pc := WFront\<rparr>) (Some t) [t] db" for w1
    using assms(1,2) by (auto simp: writer_step_iff loop_pc_def)
  then have enter: "(writer_step E P t)\<^sup>*\<^sup>* (lone ths t th None [] db) v \<longleftrightarrow>
      (writer_step E P t)\<^sup>*\<^sup>* (lone ths t (th\<lparr>th_pc := WFront\<rparr>) (Some t) [t] db) v"
    using assms(1,3) by (subst run_next) simp_all
  have "writer_step E P t (lone ths t (th\<lparr>th_pc := WFront\<rparr>) (Some t) [t] db) w1 \<longleftrightarrow>
      w1 = lone ths t (th\<lparr>th_pc := WMake (th_batch th \<noteq> None) (th_batch th = None)\<rparr>) (Some t) [t] db" for w1
    by (auto simp: writer_step_iff)
  then have front: "(writer_step E P t)\<^sup>*\<^sup>* (lone ths t (th\<lparr>th_pc := WFront\<rparr>) (Some t) [t] db) v \<longleftrightarrow>
      (writer_step E P t)\<^sup>*\<^sup>* (lone ths t (th\<lparr>th_pc := WMake (th_batch th \<noteq> None) (th_batch th = None)\<rparr>) (Some t) [t] db) v"
    using assms(3) by (subst run_next) simp_all
  have que: "db_writerque db1 = []" if "MakeRoomForwrite E P (th_batch th = None) db = Some (s, db1)" for s db1
    using that assms(4) by (auto simp: MakeRoomForwrite_def dest: MakeRoom_writerque)
  have "(writer_step E P t)\<^sup>*\<^sup>* (lone ths t th None [] db) v \<longleftrightarrow>
      (\<exists>s db1. MakeRoomForwrite E P (th_batch th = None) db = Some (s, db1) \<and>
        (writer_step E P t)\<^sup>*\<^sup>* (lone ths t (th\<lparr>th_pc := WRoom s\<rparr>) None [t] db1) v)"
    unfolding enter front run_make [OF assms(3)] by (auto simp: MakeRoomForwrite_def)
  then have run: "(writer_step E P t)\<^sup>*\<^sup>* (lone ths t th None [] db) v \<longleftrightarrow>
      (\<exists>s db1. MakeRoomForwrite E P (th_batch th = None) db = Some (s, db1) \<and>
        (\<exists>n b db2. after_room E P (th_sync th) (th_batch th) s db1 = Some (n, b, db2) \<and>
          v = lone ths t (th\<lparr>th_batch := b, th_pc := WReturned kok\<rparr>) None []
            (db2\<lparr>db_versions := SetLastSequence_vs n (db_versions db2)\<rparr>)))"
    using que assms(3) run_room [where th = "th\<lparr>th_pc := WRoom s\<rparr>" and s = s and t = t and v = v for s, simplified]
    by (simp cong: conj_cong)
  show ?thesis
    unfolding run by (auto simp: DBImpl_Write_after_room bind_eq_Some_conv)
qed

section \<open>A group\<close>

text \<open>The writers that wait, with the batches of these lists of operations.\<close>

definition waiting_writers :: "bool \<Rightarrow> u64 \<Rightarrow> wop list list \<Rightarrow> Writer list" where
  "waiting_writers sync q yss = map (\<lambda>ys. \<lparr>wr_sync = sync, wr_batch = Some \<lparr>wb_mate = wb_image 0 ys, wb_seq = q\<rparr>\<rparr>) yss"

lemma group_batches_join:
  assumes "\<forall>ys \<in> set yss. 0 \<notin> set (concat (map wop_encode ys)) \<and> n + length (wb_image 0 ys) \<le> 1024"
    and "rest = [] \<or> wr_sync (hd rest) \<noteq> sync" "wb_mate b = wb_image s xs"
  shows "group_batches sync (of_nat n) (waiting_writers sync q yss @ rest) b = Some (b\<lparr>wb_mate := wb_image s (xs @ concat yss)\<rparr>)"
  using assms(1,3)
proof (induction yss arbitrary: b xs)
  case Nil
  then show ?case
    using assms(2) by (cases rest) (auto simp: waiting_writers_def)
next
  case (Cons ys yss)
  have "unat (of_nat n + ucast (of_nat (length (wb_image 0 ys)) :: u32) :: u64) = n + length (wb_image 0 ys)"
    using Cons.prems(1) by (simp add: unat_word_ariths unat_of_nat unsigned_ucast_eq take_bit_nat_eq_self)
  then have "\<not> (of_nat n + ucast (of_nat (length (wb_image 0 ys)) :: u32) > MaxBatchSize)"
    using Cons.prems(1) by (simp add: MaxBatchSize_def word_less_nat_alt)
  moreover have "WriteBatch_Append b \<lparr>wb_mate = wb_image 0 ys, wb_seq = q\<rparr> = Some (b\<lparr>wb_mate := wb_image s (xs @ ys)\<rparr>)"
    using Cons.prems by (intro Append_image) simp_all
  ultimately show ?case
    using Cons.IH [of "b\<lparr>wb_mate := wb_image s (xs @ ys)\<rparr>" "xs @ ys"] Cons.prems(1)
    by (simp add: waiting_writers_def WriteBatch_ByteSize_def)
qed

section \<open>Properties\<close>

text \<open>
  C12: A call of \<open>Write\<close> that no other thread overlaps is the sequential operation: from an empty queue and a free mutex, the runs of its steps that
  return are exactly the results of \<open>DBImpl_Write\<close>, with its status, its batch and its database, and they leave the queue empty and the mutex free.
\<close>

theorem lone_writer:
  assumes "wo_queue w = []" "wo_mutex w = None" "wo_pc w t = WStart" "\<not> th_done (wo_threads w t)" "db_writerque (wo_db w) = []"
  shows "(writer_step E P t)\<^sup>*\<^sup>* w w' \<and> wo_pc w' t = WReturned s \<longleftrightarrow>
    (\<exists>b db. DBImpl_Write E P (th_sync (wo_threads w t)) (th_batch (wo_threads w t)) (wo_db w) = Some (s, b, db) \<and>
       w' = w\<lparr>wo_threads := (wo_threads w)(t := (wo_threads w t)\<lparr>th_batch := b, th_pc := WReturned s\<rparr>),
         wo_mutex := None, wo_queue := [], wo_db := db\<rparr>)"
proof -
  have w: "w = lone (wo_threads w) t (wo_threads w t) None [] (wo_db w)"
    using lone_cases [of w t] assms(1,2) by simp
  have eq: "w\<lparr>wo_threads := ths, wo_mutex := m, wo_queue := q, wo_db := db\<rparr> = \<lparr>wo_threads = ths, wo_mutex = m, wo_queue = q, wo_db = db\<rparr>"
    for ths m q db
    by (cases w) simp
  let ?ret = "\<lambda>b db. w\<lparr>wo_threads := (wo_threads w)(t := (wo_threads w t)\<lparr>th_batch := b, th_pc := WReturned kok\<rparr>),
      wo_mutex := None, wo_queue := [], wo_db := db\<rparr>"
  have run: "(writer_step E P t)\<^sup>*\<^sup>* w w' \<longleftrightarrow>
      (\<exists>b db. DBImpl_Write E P (th_sync (wo_threads w t)) (th_batch (wo_threads w t)) (wo_db w) = Some (kok, b, db) \<and> w' = ?ret b db)"
    if "returned (wo_pc w' t)"
    using run_lone [OF assms(3,4) that assms(5), where ths = "wo_threads w", folded w] by (simp add: lone_def eq)
  have ok: "DBImpl_Write E P (th_sync (wo_threads w t)) (th_batch (wo_threads w t)) (wo_db w) = Some (s, r) \<Longrightarrow> s = kok" for r
    by (auto simp: DBImpl_Write_after_room split: bind_splits)
  show ?thesis
    using run ok by (cases "s = kok") auto
qed

text \<open>
  C13: The group commit: when the batches of the writers that wait fit and hold no zero byte, the front writer's group is one record with the
  operations of all of them, in the order of the queue, up to the first writer with another sync flag; its replay is their \<open>Add\<close>s, in this order and all under the one
  sequence number behind the last one, and the last sequence number moves by their number.
\<close>

theorem group_commit:
  assumes "\<forall>ys \<in> set yss. 0 \<notin> set (concat (map wop_encode ys)) \<and> length (wb_image 0 xs) + length (wb_image 0 ys) \<le> 1024"
    and "length (wb_image 0 xs) < 2 ^ 32" "rest = [] \<or> wr_sync (hd rest) \<noteq> sync"
    and "\<forall>x \<in> set (xs @ concat yss). mentry_fits (wop_entry (last_sequence + 1) x)"
  shows "\<exists>g. group_batch sync \<lparr>wb_mate = wb_image 0 xs, wb_seq = q\<rparr> (waiting_writers sync q yss @ rest) last_sequence =
      Some (g, last_sequence + scast (of_nat (length (xs @ concat yss)) :: u32)) \<and>
    WriteBatch_Contents g = wb_image (last_sequence + 1) (xs @ concat yss) \<and>
    WriteBatch_InsertInto new_char L g mem =
      map_option (\<lambda>m. (kok, g\<lparr>wb_seq := q + of_nat (length (xs @ concat yss))\<rparr>, m))
        (Memtable_Add_all new_char L mem (map (wop_entry (last_sequence + 1)) (xs @ concat yss)))"
proof -
  let ?b = "\<lparr>wb_mate = wb_image 0 xs, wb_seq = q\<rparr>" and ?zs = "xs @ concat yss"
  let ?g = "\<lparr>wb_mate = wb_image (last_sequence + 1) ?zs, wb_seq = q\<rparr>"
  have size: "(ucast (WriteBatch_ByteSize ?b) :: u64) = of_nat (length (wb_image 0 xs))"
    using assms(2) by (simp add: WriteBatch_ByteSize_def word_unat_eq_iff unat_of_nat unsigned_ucast_eq take_bit_nat_eq_self)
  have join: "BuildBatchGroup sync ?b (waiting_writers sync q yss @ rest) = Some \<lparr>wb_mate = wb_image 0 ?zs, wb_seq = q\<rparr>"
    using group_batches_join [OF assms(1,3), of ?b 0 xs q] by (simp add: BuildBatchGroup_def size)
  have "WriteBatch_SetSequence \<lparr>wb_mate = wb_image 0 ?zs, wb_seq = q\<rparr> (last_sequence + 1) = Some ?g"
    using SetSequence_image [of "\<lparr>wb_mate = wb_image 0 ?zs, wb_seq = q\<rparr>" 0 ?zs] by simp
  then have "group_batch sync ?b (waiting_writers sync q yss @ rest) last_sequence =
      Some (?g, last_sequence + scast (of_nat (length ?zs) :: u32))"
    using Count_image [of ?g "last_sequence + 1" ?zs] by (simp add: group_batch_def join)
  then show ?thesis
    using InsertInto_image [OF assms(4), of ?g new_char L mem] by (simp add: WriteBatch_Contents_def)
qed

theorem group_commit_witness:
  "\<exists>g. group_batch False \<lparr>wb_mate = wb_image 0 [WDel [1]], wb_seq = 0\<rparr>
      (waiting_writers False 0 [[WPut [1] [5]], [WPut [2] [6]]] @ waiting_writers True 0 [[WDel [3]]]) 7 = Some (g, 10) \<and>
    WriteBatch_Contents g = wb_image 8 [WDel [1], WPut [1] [5], WPut [2] [6]]"
proof -
  have l: "length (wb_image 0 [WDel [1]]) = 15" "length (wb_image 0 [WPut [1] [5]]) = 17" "length (wb_image 0 [WPut [2] [6]]) = 17"
    "0 \<notin> set (concat (map wop_encode [WPut [1] [5]]))" "0 \<notin> set (concat (map wop_encode [WPut [2] [6]]))"
    by (simp_all add: wb_image_def EncodeLengthPrefixed_def PutLengthPrefixedview_def PutVarint32_def EncodeVarint32_small
        del: PutLengthPrefixedview_append)
  have "\<exists>g. group_batch False \<lparr>wb_mate = wb_image 0 [WDel [1]], wb_seq = 0\<rparr>
      (waiting_writers False 0 [[WPut [1] [5]], [WPut [2] [6]]] @ waiting_writers True 0 [[WDel [3]]]) 7 =
      Some (g, 7 + scast (of_nat (length ([WDel [1]] @ concat [[WPut [1] [5]], [WPut [2] [6]]])) :: u32)) \<and>
    WriteBatch_Contents g = wb_image (7 + 1) ([WDel [1]] @ concat [[WPut [1] [5]], [WPut [2] [6]]]) \<and>
    WriteBatch_InsertInto bump_new list_skiplist g (mk_Memtable list_skiplist) =
      map_option (\<lambda>m. (kok, g\<lparr>wb_seq := 0 + of_nat (length ([WDel [1]] @ concat [[WPut [1] [5]], [WPut [2] [6]]]))\<rparr>, m))
        (Memtable_Add_all bump_new list_skiplist (mk_Memtable list_skiplist)
          (map (wop_entry (7 + 1)) ([WDel [1]] @ concat [[WPut [1] [5]], [WPut [2] [6]]])))"
    by (rule group_commit) (use l in \<open>auto simp: mentry_fits_def kMaxSequenceNumber_def waiting_writers_def\<close>)
  then show ?thesis
    by auto
qed

text \<open>
  C14: A writer that waits is never told to go on: from any start, with any number of threads and any interleaving, no call is ever marked as done or signalled;
  a call leaves \<open>wait\<close> only when it wakes up for no reason and then finds itself at the front of the queue, where it writes its own batch; and
  as long as nobody wakes up without a signal, a call that sleeps in \<open>wait\<close> is there for ever, and so is every call that begins later.  The
  last loop of a call only takes its own writer from the queue, so that nobody is signalled.
\<close>

theorem waiting_writers_not_signalled:
  assumes "world_start w0" "(world_step E)\<^sup>*\<^sup>* w0 w" "waits (wo_pc w u)"
  shows "(\<forall>t. \<not> th_done (wo_threads w t) \<and> \<not> th_signalled (wo_threads w t)) \<and>
    (\<forall>w'. world_step E w w' \<and> \<not> waits (wo_pc w' u) \<longrightarrow> wo_pc w u = WCheck \<and> hd (wo_queue w) = u \<and> wo_pc w' u = WFront) \<and>
    (\<forall>w'. (notified_step E)\<^sup>*\<^sup>* w w' \<and> wo_pc w u \<noteq> WCheck \<longrightarrow>
      sleeps (wo_pc w' u) \<and> (\<forall>v. wo_pc w v = WStart \<longrightarrow> wo_pc w' v = WStart \<or> sleeps (wo_pc w' v)))"
proof -
  have inv: "world_inv w"
    by (rule world_inv_steps [OF assms(2) world_inv_start [OF assms(1)]])
  have "sleeps (wo_pc w u)" if "wo_pc w u \<noteq> WCheck"
    using that assms(3) by (cases "wo_pc w u") simp_all
  then show ?thesis
    using inv waits_step [OF _ inv assms(3)] late_steps [OF _ inv, of E _ u] unfolding world_inv_def by blast
qed


section \<open>An example\<close>

text \<open>Threads that all put the same entry.\<close>

definition put_batch :: "u64 \<Rightarrow> WriteBatch" where
  "put_batch seq = \<lparr>wb_mate = wb_image seq [WPut [1] [5]], wb_seq = 0\<rparr>"

definition put_thread :: thread where
  "put_thread = \<lparr>th_sync = False, th_batch = Some (put_batch 0), th_done = False, th_state = kok, th_signalled = False, th_pc = WStart\<rparr>"

definition put_world :: "node list world" where
  "put_world = \<lparr>wo_threads = (\<lambda>t. put_thread), wo_mutex = None, wo_queue = [], wo_db = demo_db 2\<rparr>"

text \<open>The first thread has built its group, and the second one has come.\<close>

definition blocked_world :: "node list world" where
  "blocked_world = \<lparr>wo_threads = (\<lambda>t. put_thread)(0 := put_thread\<lparr>th_batch := Some (put_batch 1), th_pc := WLog (put_batch 1) 1\<rparr>,
       1 := put_thread\<lparr>th_pc := WRelock\<rparr>), wo_mutex = Some 1, wo_queue = [0, 1], wo_db = demo_db 2\<rparr>"

lemma put_world_start: "world_start put_world"
  by (simp add: world_start_def put_world_def put_thread_def)

lemma put_group: "group_batch False (put_batch 0) [] 0 = Some (put_batch 1, 1)"
proof -
  have "WriteBatch_SetSequence (put_batch 0) 1 = Some (put_batch 1)"
    using SetSequence_image [of "put_batch 0" 0 "[WPut [1] [5]]" 1] by (simp add: put_batch_def)
  then show ?thesis
    using Count_image [of "put_batch 1" 1 "[WPut [1] [5]]"] by (simp add: group_batch_def BuildBatchGroup_def put_batch_def)
qed

lemma put_world_blocks: "(world_step demo_env)\<^sup>*\<^sup>* put_world blocked_world"
proof -
  let ?P = "posix_ok (\<lambda>name. None)" and ?ths = "\<lambda>t. put_thread"
  let ?w = "\<lambda>th m. lone ?ths 0 th m [0] (demo_db 2)"
  have room: "MakeRoom_once demo_env ?P True False (demo_db 2) = Some (RoomDone (demo_db 2))"
    using demo_db_ready [of 2] by (simp add: MakeRoom_once_def db_ready_def)
  have seq: "vs_last_sequence (db_versions (demo_db 2)) = 0"
    using demo_db_ready [of 2] by (simp add: db_ready_def)
  have w0: "put_world = lone ?ths 0 put_thread None [] (demo_db 2)"
    by (simp add: put_world_def lone_def fun_upd_idem)
  have "writer_step demo_env ?P 0 put_world (?w (put_thread\<lparr>th_pc := WFront\<rparr>) (Some 0))"
    by (simp add: w0 writer_step_iff put_thread_def loop_pc_def)
  moreover have "writer_step demo_env ?P 0 (?w (put_thread\<lparr>th_pc := WFront\<rparr>) (Some 0)) (?w (put_thread\<lparr>th_pc := WMake True False\<rparr>) (Some 0))"
    by (simp add: writer_step_iff put_thread_def)
  moreover have "writer_step demo_env ?P 0 (?w (put_thread\<lparr>th_pc := WMake True False\<rparr>) (Some 0)) (?w (put_thread\<lparr>th_pc := WRoom kok\<rparr>) None)"
    using room unfolding make_step by blast
  moreover have "writer_step demo_env ?P 0 (?w (put_thread\<lparr>th_pc := WRoom kok\<rparr>) None)
      (?w (put_thread\<lparr>th_batch := Some (put_batch 1), th_pc := WLog (put_batch 1) 1\<rparr>) None)"
    using put_group by (simp add: writer_step_iff put_thread_def seq)
  moreover have "writer_step demo_env ?P 1 (?w (put_thread\<lparr>th_batch := Some (put_batch 1), th_pc := WLog (put_batch 1) 1\<rparr>) None) blocked_world"
    by (simp add: writer_step_iff put_thread_def loop_pc_def blocked_world_def lone_def goto_def fun_eq_iff)
  ultimately show ?thesis
    by (meson s_writer converse_rtranclp_into_rtranclp rtranclp.rtrancl_refl)
qed

lemma put_write:
  obtains b db where "DBImpl_Write demo_env (posix_ok (\<lambda>name. None)) False (Some (put_batch 0)) (demo_db 2) = Some (kok, b, db)"
proof -
  have l: "length (wb_image s [WPut [1] [5]]) = 17" for s
    by (simp add: wb_image_def EncodeLengthPrefixed_def PutLengthPrefixedview_def PutVarint32_def EncodeVarint32_small
        del: PutLengthPrefixedview_append)
  have fits: "mentry_fits (wop_entry (0 + 1) (WPut [1] [5]))" "wal_fits 0 [wb_image (0 + 1) [WPut [1] [5]]]"
    using l [of 1] by (auto simp: mentry_fits_def kMaxSequenceNumber_def wal_start_def)
  obtain m' where m': "Memtable_Add_all bump_new list_skiplist (mk_Memtable list_skiplist) [wop_entry (0 + 1) (WPut [1] [5])] = Some m'"
    using list_lib.Add_all_rep [OF list_lib.rep_mk, of "[wop_entry (0 + 1) (WPut [1] [5])]" bump_new] fits(1)
    by (auto simp: mentry_short_def)
  have ready: "db_ready demo_env 0 (Suc 1) 0 (mk_Memtable list_skiplist) (mk_walWriter crc32c_Extend (mk_WritableFile [] (replicate 2 WFull))) (demo_db 2)"
    using demo_db_ready [of 2] by (simp add: numeral_2_eq_2)
  obtain db where "DBImpl_op demo_env (posix_ok (\<lambda>name. None)) (WPut [1] [5]) (demo_db 2) = Some (kok, db)"
    by (rule DBImpl_op_step [OF _ ready fits, where m' = m'])
      (use m' in \<open>simp_all add: ucast_32_le crc32c.crc_lib_axioms\<close>)
  moreover have "(mk_WriteBatch (de_seq0 demo_env))\<lparr>wb_mate := wb_image 0 [WPut [1] [5]]\<rparr> = put_batch 0"
    by (simp add: put_batch_def demo_env_def mk_WriteBatch_def WriteBatch_Clear_def)
  ultimately show ?thesis
    using that by (auto simp: DBImpl_op_Write)
qed

theorem lone_writer_witness:
  "\<exists>w' b db. (writer_step demo_env (posix_ok (\<lambda>name. None)) 0)\<^sup>*\<^sup>* put_world w' \<and> wo_pc w' 0 = WReturned kok \<and> wo_queue w' = [] \<and> wo_db w' = db \<and>
    DBImpl_Write demo_env (posix_ok (\<lambda>name. None)) False (Some (put_batch 0)) (demo_db 2) = Some (kok, b, db)"
proof -
  obtain b db where w: "DBImpl_Write demo_env (posix_ok (\<lambda>name. None)) False (Some (put_batch 0)) (demo_db 2) = Some (kok, b, db)"
    by (rule put_write)
  have "db_writerque (demo_db 2) = []"
    using demo_db_ready [of 2] by (simp add: db_ready_def)
  then have q: "db_writerque (wo_db put_world) = []"
    by (simp add: put_world_def)
  have p: "wo_queue put_world = []" "wo_mutex put_world = None" "wo_pc put_world 0 = WStart" "\<not> th_done (wo_threads put_world 0)"
    by (simp_all add: put_world_def put_thread_def)
  let ?w' = "put_world\<lparr>wo_threads := (wo_threads put_world)(0 := (wo_threads put_world 0)\<lparr>th_batch := b, th_pc := WReturned kok\<rparr>),
      wo_mutex := None, wo_queue := [], wo_db := db\<rparr>"
  have "DBImpl_Write demo_env (posix_ok (\<lambda>name. None)) (th_sync (wo_threads put_world 0)) (th_batch (wo_threads put_world 0)) (wo_db put_world) =
      Some (kok, b, db)"
    using w by (simp add: put_world_def put_thread_def)
  then have "(writer_step demo_env (posix_ok (\<lambda>name. None)) 0)\<^sup>*\<^sup>* put_world ?w' \<and> wo_pc ?w' 0 = WReturned kok"
    unfolding lone_writer [OF p q] by (intro exI [of _ b] exI [of _ db]) simp
  then show ?thesis
    using w by (intro exI [of _ ?w'] exI [of _ b] exI [of _ db]) simp
qed

theorem waiting_writers_not_signalled_witness:
  "\<exists>w. (world_step demo_env)\<^sup>*\<^sup>* put_world w \<and> waits (wo_pc w 1) \<and> wo_pc w 2 = WStart \<and> \<not> th_signalled (wo_threads w 1)"
proof -
  have "waits (wo_pc blocked_world 1)" "wo_pc blocked_world 2 = WStart"
    by (simp_all add: blocked_world_def put_thread_def)
  moreover note waiting_writers_not_signalled [OF put_world_start put_world_blocks this(1)]
  ultimately show ?thesis
    using put_world_blocks by blast
qed


end
