(* ===== verification/Options.thy ===== *)
theory Options
  imports Database
begin

text \<open>
  The options of src/src/util/options.h, and what they become in the components that get them: the environments \<open>tenv\<close> and \<open>dbenv\<close>.
\<close>

section \<open>The options\<close>

record Options =
  op_paranoid_checks :: bool
  op_max_open_files :: "32 word"
  op_block_size :: u32
  op_block_restart_interval :: "32 word"
  op_write_buffer_size :: u64
  op_max_file_size :: u32
  op_reuse_logs :: bool
  op_compression :: CompressionType

definition mk_Options :: Options where
  "mk_Options = \<lparr>op_paranoid_checks = False, op_max_open_files = 1000, op_block_size = 4 * 1024, op_block_restart_interval = 16,
     op_write_buffer_size = 8 * 1024, op_max_file_size = 2 * 1024 * 1024, op_reuse_logs = False, op_compression = kSnappyCompression\<rparr>"

text \<open>The copy constructor.\<close>

definition copy_Options :: "Options \<Rightarrow> Options" where
  "copy_Options opt = \<lparr>op_paranoid_checks = op_paranoid_checks opt, op_max_open_files = op_max_open_files opt,
     op_block_size = op_block_size opt, op_block_restart_interval = op_block_restart_interval opt,
     op_write_buffer_size = op_write_buffer_size opt, op_max_file_size = op_max_file_size opt, op_reuse_logs = op_reuse_logs opt,
     op_compression = kSnappyCompression\<rparr>"

record WriteOptions =
  wopt_sync :: bool

definition mk_WriteOptions :: WriteOptions where
  "mk_WriteOptions = \<lparr>wopt_sync = False\<rparr>"

record ReadOptions =
  ropt_verify_checksums :: bool
  ropt_fill_cache :: bool
  ropt_snapshot :: "Snapshot option"

definition mk_ReadOptions :: ReadOptions where
  "mk_ReadOptions = \<lparr>ropt_verify_checksums = False, ropt_fill_cache = True, ropt_snapshot = None\<rparr>"

definition kMaxMemCompactLevel :: int where
  "kMaxMemCompactLevel = 2"

definition kReadBytesPeriod :: int where
  "kReadBytesPeriod = 1048576"

section \<open>What the components get\<close>

text \<open>The table builder copies its options; the index block has a copy of its own with a restart interval of 1.\<close>

definition builder_options :: "Options \<Rightarrow> Options \<times> Options" where
  "builder_options opt = (copy_Options opt, (copy_Options opt)\<lparr>op_block_restart_interval := 1\<rparr>)"

definition builder_env :: "Options \<Rightarrow> tenv \<Rightarrow> tenv" where
  "builder_env opt T =
     (let o1 = fst (builder_options opt)
      in T\<lparr>te_block_size := op_block_size o1, te_restart_interval := sint (op_block_restart_interval o1),
           te_compression := op_compression o1\<rparr>)"

text \<open>\<open>max_open_files\<close> is an \<open>int\<close> that the table cache converts to an unsigned number.\<close>

definition options_env :: "Options \<Rightarrow> 's dbenv \<Rightarrow> 's dbenv" where
  "options_env opt E = E\<lparr>de_tenv := builder_env opt (de_tenv E), de_write_buffer_size := op_write_buffer_size opt,
     de_max_file_size := op_max_file_size opt, de_max_open_files := scast (op_max_open_files opt)\<rparr>"

lemma copy_Options_keeps:
  "copy_Options opt = opt \<longleftrightarrow> op_compression opt = kSnappyCompression" "copy_Options (copy_Options opt) = copy_Options opt"
  by (cases opt; auto simp: copy_Options_def)+

text \<open>
  So the compression that is chosen in the options never reaches a table: every block is compressed, and of what the compression gives the first byte is
  cleared before it is written.
\<close>

lemma builder_payload:
  assumes "te_compress T raw \<noteq> []"
  shows "block_payload (builder_env opt T) raw = (0 # tl (te_compress T raw), kSnappyCompression)"
  using assms
  by (cases "te_compress T raw") (simp_all add: block_payload_def builder_env_def builder_options_def copy_Options_def cleared_view_def Let_def)

end
