(* ===== verification/Spec2Isabelle.thy ===== *)
theory Spec2Isabelle
  imports Coding Keys Arena Memtable WriteBatch Bloom FilterBlock Block Cursor BlockContents
    Env Wal VersionEdit TableBuild TableRead Filename Cache Iterators Merging TwoLevel
    Versions Posix VersionSet BaseLevel VersionBuild Manifest History Database DbWrites DbOpen DbThread DbBackground DbFlush DbCompact
    DbConcurrent Options
begin

text \<open>
  \<^bold>\<open>yubindb\<close>: a verification library for the storage engine under src/src.

  The program is a log-structured key-value store.  A write is a batch of operations
  (db/writebatch) that is appended to a log (db/walog) and replayed into a memtable (db/memtable),
  a skip list of entries in an arena (util/skiplistpg, util/arena).  A full memtable is
  written as a table file (the builder of db/memtable, db/block, db/filterblock, util/bloom), which the
  table reader (db/sstable) searches through the caches of db/cache.  The set of table files in each of seven levels
  is a version (db/version_set); a version changes by version edits (db/version_edit), which are kept in a manifest,
  a log of its own.  The database object (db/db) ties these together: it writes, reads, takes snapshots, flushes
  memtables in the background, chooses compactions, and recovers from manifest and logs.  Iterators (db/iterator) merge
  what blocks, tables and levels hold.

  \<^bold>\<open>Theories.\<close>  Definitions have the names of the code, with the class as a prefix where needed.

  \<^item> Prelude: \<open>State\<close>, bytes, machine integers, list, option and word lemmas; Coding: the codecs of
    util/common; Keys: internal keys, their order, lookup keys and skip list entries of util/key.
  \<^item> Arena: the bump allocator, with the invariant that ranges handed out are disjoint.
  \<^item> Memtable: \<open>Skiplist\<close> and \<open>Memtable\<close>; the skip list library is the record \<open>skiplist_ops\<close>, and the
    locale \<open>skiplist_lib\<close> is what it promises, interpreted on sorted lists.
  \<^item> WriteBatch: batches and their replay into a memtable.
  \<^item> Bloom and FilterBlock: the filter of a set of keys, and the block of filters of a table.
  \<^item> Block: \<open>BlockHandle\<close>, the block builder, \<open>Block\<close> and its iterator, each loop as a terminating
    function; Cursor: the interface of an iterator as the locales \<open>cursor\<close> and \<open>sorted_cursor\<close>, whose laws give
    the traversals and the search; BlockContents: the layout invariant of blocks and the interpretation on the block iterator.
  \<^item> Env: buffered writing and sequential reading of files over a script of system call results.
  \<^item> Wal: the log writer and reader; the checksum library is the locale \<open>crc_lib\<close>, interpreted on CRC-32C.
  \<^item> VersionEdit: manifest records.  TableBuild: the table builder, the footer and the flush of a memtable.
    TableRead: \<open>ReadBlock\<close> and \<open>Table\<close>.  Filename: file names and their parsing.  Cache: the LRU cache, its shards and the
    table cache.
  \<^item> Iterators, Merging, TwoLevel: \<open>IteratorWrapper\<close>, the merging and the two-level iterator over the interface of Cursor.
  \<^item> Versions: \<open>Version\<close>, the search in it, and the iterator over the files of a level, as an interpretation of
    \<open>sorted_cursor\<close>.  VersionSet: the builder, manifest and compaction choice of \<open>VersionSet\<close>; BaseLevel: the pointers of
    \<open>IsBaseLevelForKey\<close>, and what its comparison overlooks; VersionBuild: the builder as a merge of multisets; Manifest: writing and reading manifests; History: the version sets that calls can reach, as a step relation.
  \<^item> Posix: the operations of \<open>PosixEnv\<close> over a record of system call results, and its queue and thread.
  \<^item> Database: \<open>DBImpl\<close> with all its operations; DbWrites: sequences of writes and reads; DbOpen: opening
    and recovering; DbThread: the thread of a database, a full memtable, reads beyond the memtables, and closing, with histories of
    calls as a step relation; DbBackground: trivial moves; DbFlush: the flush of a memtable and the version it makes; DbCompact: the work of a compaction;
    DbConcurrent: the steps of \<open>Write\<close> in several threads, over the mutex, the queue of writers and their waits, with wake-ups that nobody caused, with
    the sequential operation as the runs of a lone thread, and the group commit.
  \<^item> Options: the options with their defaults and copies.

  \<^bold>\<open>Conventions.\<close>  A function that may read or write outside its memory, dereference null, or end
  without a value although it has one to return, gives an \<open>option\<close>, and \<open>None\<close> is that
  undefined outcome; statuses are values of \<open>State\<close>.  32- and 64-bit numbers are words and wrap around; a \<open>size_t\<close>
  that counts the bytes of a list is the length of the list.  \<open>char*\<close> buffers are lists of bytes, and a moving
  pointer is the list of bytes from there on.  Results of parameters (hash, checksum, compression, the skip list, system calls,
  \<open>new\<close>) are arguments, usually fields of a record.

  \<^bold>\<open>What the lemmas show.\<close>  Codecs are inverse and stay in bounds; \<open>cmp\<close> is a linear order (Keys); the arena, the
  memtable, the write batch and the log do what a reader of their interface expects within the limits of their formats
  (entries below 4 GB with values below 128 bytes, records that fit a block); blocks are read back in both directions and searched correctly;
  filters have no false negatives, but the reader of the last one reads behind the block; version edits round-trip; merging iterators merge; the builder of versions refines the
  merge of multisets and every run of edits keeps versions well-formed; a new database opens; within the write buffer reads see the last
  write and snapshots are isolated, and a full memtable makes room for the next one without changing an answer, and
  its flush adds a file to level 0 whose range covers its keys.  The theorems about
  failures show exactly what the code does where it does not do what it means to: long values, long log records, appended deletions, compaction
  pointers, flushed values, the index block, \<open>ReadBlock\<close>, the caches, reads beyond the memtables, the second flush of a database,
  overlapping writers, reopening, the replay of logs, and compactions.

  \<^bold>\<open>Bounds.\<close>  Loops are total functions with measures, except those that may repeat for ever, which are
  \<open>partial_function (option)\<close>, where \<open>None\<close> is also the loop that does not end: the fragment loop of the log, the binary search
  \<open>FindFile\<close> (its middle is computed in 32 bits), \<open>GetOverlappFiles\<close>, which starts again whenever the range grows, the loops over
  the records of manifest and log, \<open>MakeRoomForwrite\<close>, and the wait of the destructor.  Each has a theorem that it returns; the loops of
  \<open>Skiplist::Flushlevel0\<close> and \<open>BackgroundThreadMain\<close>, which nothing calls, never do.
  The traversals \<open>collect\<close> have a step bound \<open>n\<close>; any bound of at least the number of entries gives the result.

  \<^bold>\<open>Not modelled\<close>: the mutex and the condition variables outside of \<open>Write\<close> and \<open>MakeRoomForwrite\<close>: each other operation of the database runs alone, the one
  background call that the environment gives a thread is a step of its own between them, and waiting for it is running it; logging and \<open>Skiplist::findall\<close>, which only logs and which nothing calls; the skip list, the checksum, the
  compression and the hash, which are libraries (parameters, with locales for what they promise), and what the system calls answer.
\<close>

end
